(* ===== verification/Prelude.thy ===== *)
theory Prelude
  imports Main "HOL-Library.Word" "HOL-Library.Monad_Syntax"
begin

named_theorems bounds \<open>index and range facts that show a checked access succeeds\<close>
named_theorems inv_intros \<open>preservation of the components' invariants\<close>

text \<open>
  The prelude of the development: the names of Go's integer types, the way a run-time panic
  and an error value are represented, checked array access, and the generic lemmas on lists
  and digits that several components share.

  \<^item> A Go computation that may panic is an \<open>option\<close>; \<open>None\<close> is the panic. The \<open>do\<close> notation
    of the option monad then follows the statement order of the source.
  \<^item> A Go result \<open>(v, err)\<close> is a sum; \<open>Inl\<close> carries the error, \<open>Inr\<close> the value.
  \<^item> \<open>uint64\<close> is \<open>64 word\<close>, so additions and subtractions wrap around as they do in Go.
  \<^item> \<open>int64\<close> and \<open>int32\<close> are integers; the wrap-around of Go's signed arithmetic is written out
    with \<open>i64\<close> and \<open>i32\<close>.
  \<^item> \<open>time.Time\<close> is the number of nanoseconds since the Unix epoch.
\<close>

type_synonym uint64 = "64 word"
type_synonym uint32 = "32 word"
type_synonym byte = "8 word"
type_synonym int64 = int
type_synonym int32 = int
type_synonym time = int

definition i64 :: "int \<Rightarrow> int64" where
  "i64 x = (x + 2 ^ 63) mod 2 ^ 64 - 2 ^ 63"

definition i32 :: "int \<Rightarrow> int32" where
  "i32 x = (x + 2 ^ 31) mod 2 ^ 32 - 2 ^ 31"

definition is_i64 :: "int \<Rightarrow> bool" where
  "is_i64 x \<longleftrightarrow> - (2 ^ 63) \<le> x \<and> x < 2 ^ 63"

lemma i64_id [simp]: "is_i64 x \<Longrightarrow> i64 x = x"
  by (simp add: i64_def is_i64_def)

lemma i64_range [simp, bounds]: "is_i64 (i64 x)"
  using pos_mod_bound [of "2 ^ 64" "x + 2 ^ 63"] pos_mod_sign [of "2 ^ 64" "x + 2 ^ 63"]
  by (simp add: i64_def is_i64_def)


section \<open>Checked array access\<close>

text \<open>
  An index expression \<open>a[i]\<close> of the source panics when \<open>i\<close> is out of range, both when it is
  read and when it is assigned.
\<close>

definition idx :: "'a list \<Rightarrow> nat \<Rightarrow> 'a option" where
  "idx xs i = (if i < length xs then Some (xs ! i) else None)"

definition upd :: "'a list \<Rightarrow> nat \<Rightarrow> 'a \<Rightarrow> 'a list option" where
  "upd xs i v = (if i < length xs then Some (xs[i := v]) else None)"

lemma idx_Some [simp]: "i < length xs \<Longrightarrow> idx xs i = Some (xs ! i)"
  by (simp add: idx_def)

lemma upd_Some [simp]: "i < length xs \<Longrightarrow> upd xs i v = Some (xs[i := v])"
  by (simp add: upd_def)

lemma idx_None [simp]: "length xs \<le> i \<Longrightarrow> idx xs i = None"
  by (simp add: idx_def)

lemma upd_None [simp]: "length xs \<le> i \<Longrightarrow> upd xs i v = None"
  by (simp add: upd_def)

lemma idx_eq_Some: "idx xs i = Some v \<longleftrightarrow> i < length xs \<and> xs ! i = v"
  by (auto simp: idx_def)

lemma upd_eq_Some: "upd xs i v = Some ys \<longleftrightarrow> i < length xs \<and> ys = xs[i := v]"
  by (auto simp: upd_def)

section \<open>Positional notation\<close>

text \<open>The value of a digit list, most significant digit first, in a given base.\<close>

definition val_of :: "nat \<Rightarrow> nat list \<Rightarrow> nat" where
  "val_of b ds = foldl (\<lambda>acc d. acc * b + d) 0 ds"

lemma val_of_Nil [simp]: "val_of b [] = 0"
  by (simp add: val_of_def)

lemma val_of_snoc [simp]: "val_of b (ds @ [d]) = val_of b ds * b + d"
  by (simp add: val_of_def)

lemma val_of_single [simp]: "val_of b [d] = d"
  by (simp add: val_of_def)

lemma val_of_append: "val_of b (xs @ ys) = val_of b xs * b ^ length ys + val_of b ys"
proof (induction ys rule: rev_induct)
  case Nil
  show ?case by simp
next
  case (snoc y ys)
  have "val_of b (xs @ ys @ [y]) = val_of b ((xs @ ys) @ [y])" by simp
  also have "\<dots> = (val_of b xs * b ^ length ys + val_of b ys) * b + y"
    by (simp only: val_of_snoc snoc.IH)
  finally show ?case by (simp add: algebra_simps)
qed

lemma val_of_Cons: "val_of b (d # ds) = d * b ^ length ds + val_of b ds"
  using val_of_append [of b "[d]" ds] by simp

lemma val_of_less: "\<forall>d \<in> set ds. d < b \<Longrightarrow> val_of b ds < b ^ length ds"
proof (induction ds rule: rev_induct)
  case Nil
  show ?case by simp
next
  case (snoc d ds)
  then have "val_of b ds + 1 \<le> b ^ length ds" by simp
  then have "(val_of b ds + 1) * b \<le> b ^ length ds * b" by (rule mult_right_mono) simp
  moreover have "d < b" using snoc.prems by simp
  ultimately show ?case by (simp add: algebra_simps)
qed

lemma val_of_take_Suc:
  "i < length ds \<Longrightarrow> val_of b (take (Suc i) ds) = val_of b (take i ds) * b + ds ! i"
  by (simp add: take_Suc_conv_app_nth)

lemma val_of_hd_pos:
  assumes "ds \<noteq> []" and "ds ! 0 \<noteq> 0"
  shows "b ^ (length ds - 1) \<le> val_of b ds"
proof (cases ds)
  case Nil
  with assms show ?thesis by simp
next
  case (Cons d ds')
  with assms have "1 * b ^ length ds' \<le> d * b ^ length ds'"
    by (intro mult_right_mono) auto
  also have "\<dots> \<le> val_of b ds" by (simp add: Cons val_of_Cons)
  finally show ?thesis by (simp add: Cons)
qed

lemma val_of_replicate0 [simp]: "val_of b (replicate n 0) = 0"
  by (induction n) (simp_all add: val_of_Cons)

lemma val_of_inj:
  assumes "length xs = length ys" "\<forall>d \<in> set xs. d < b" "\<forall>d \<in> set ys. d < b"
    and "val_of b xs = val_of b ys"
  shows "xs = ys"
  using assms
proof (induction xs ys rule: rev_induct2)
  case (4 x xs y ys)
  have "x < b" "y < b" using "4.prems" by auto
  have "(val_of b xs * b + x) mod b = (val_of b ys * b + y) mod b"
    using "4.prems"(4) by simp
  then have xy: "x = y" using \<open>x < b\<close> \<open>y < b\<close> by simp
  then have "val_of b xs = val_of b ys" using "4.prems"(4) \<open>x < b\<close> by simp
  then have "xs = ys" using "4.IH" "4.prems" by simp
  then show ?case using xy by simp
qed auto

end
