(* ===== verification/Strconv.thy ===== *)
theory Strconv
  imports Prelude
begin

text \<open>
  The part of Go's \<^verbatim>\<open>strconv\<close> package that the pool relies on: \<open>FormatUint(n, 10)\<close> and
  \<open>ParseUint(s, 10, 64)\<close>, with the order of the checks of the standard library (a syntax
  error is reported at the first character that is no digit, a range error at the first digit
  that overflows). The interface the clients use is the locale \<open>codec\<close>: decoding an encoded
  value gives the value back.
\<close>

section \<open>The interface of an encoder and its decoder\<close>

locale codec =
  fixes enc :: "'a \<Rightarrow> 'b"
    and dec :: "'b \<Rightarrow> 'a option"
  assumes dec_enc: "dec (enc x) = Some x"
begin

lemma enc_inj: "inj enc"
  by (rule injI) (metis dec_enc option.inject)

lemma enc_eq_iff: "enc x = enc y \<longleftrightarrow> x = y"
  using enc_inj by (auto dest: injD)

lemma dec_range: "y \<in> range enc \<Longrightarrow> \<exists>x. dec y = Some x \<and> enc x = y"
  by (auto simp: dec_enc)

end

section \<open>Decimal digits\<close>

fun digits10 :: "nat \<Rightarrow> nat list" where
  "digits10 n = (if n < 10 then [n] else digits10 (n div 10) @ [n mod 10])"

declare digits10.simps [simp del]

lemma digits10_small [simp]: "n < 10 \<Longrightarrow> digits10 n = [n]"
  by (simp add: digits10.simps)

lemma digits10_step: "10 \<le> n \<Longrightarrow> digits10 n = digits10 (n div 10) @ [n mod 10]"
  by (simp add: digits10.simps [of n])

lemma digits10_val [simp]: "val_of 10 (digits10 n) = n"
proof (induction n rule: digits10.induct)
  case (1 n)
  then show ?case
    by (cases "n < 10") (simp_all add: digits10_step [of n])
qed

lemma digits10_less [bounds]: "d \<in> set (digits10 n) \<Longrightarrow> d < 10"
proof (induction n rule: digits10.induct)
  case (1 n)
  show ?case
  proof (cases "n < 10")
    case True
    then show ?thesis using "1.prems" by simp
  next
    case False
    then have "d \<in> set (digits10 (n div 10)) \<or> d = n mod 10"
      using "1.prems" digits10_step [of n] by auto
    then show ?thesis using False "1.IH" by auto
  qed
qed

lemma digits10_ne [simp]: "digits10 n \<noteq> []"
  by (subst digits10.simps) simp

lemma digits10_length_pos [bounds]: "0 < length (digits10 n)"
  by simp

lemma digits10_hd: "0 < n \<Longrightarrow> digits10 n ! 0 \<noteq> 0"
proof (induction n rule: digits10.induct)
  case (1 n)
  then show ?case
    by (cases "n < 10") (simp_all add: digits10_step [of n] nth_append)
qed

lemma digits10_length_le [bounds]:
  assumes "n < 10 ^ k" and "0 < k"
  shows "length (digits10 n) \<le> k"
proof (cases "n = 0")
  case True
  then show ?thesis using assms by simp
next
  case False
  then have "10 ^ (length (digits10 n) - 1) \<le> n"
    using val_of_hd_pos [of "digits10 n" 10] digits10_hd [of n] by simp
  then have "(10::nat) ^ (length (digits10 n) - 1) < 10 ^ k" using assms(1) by (rule le_less_trans)
  then have "length (digits10 n) - 1 < k" by (rule power_less_imp_less_exp [rotated]) simp_all
  then show ?thesis by simp
qed

section \<open>FormatUint\<close>

definition digit_char :: "nat \<Rightarrow> char" where
  "digit_char d = char_of (48 + d)"

definition FormatUint :: "uint64 \<Rightarrow> string" where
  "FormatUint n = map digit_char (digits10 (unat n))"

lemma digit_char_code: "d < 10 \<Longrightarrow> of_char (digit_char d) = (48 + d :: nat)"
  by (simp add: digit_char_def)

lemma unat_uint64_less: "unat (n :: uint64) < 2 ^ 64"
  using unsigned_less [of n] by simp

lemma FormatUint_length [bounds]: "length (FormatUint n) \<le> 20"
  using digits10_length_le [of "unat n" 20] unat_uint64_less [of n]
  by (simp add: FormatUint_def)

section \<open>ParseUint\<close>

datatype strconv_error = ErrSyntax | ErrRange

definition is_digit :: "char \<Rightarrow> bool" where
  "is_digit c \<longleftrightarrow> (48::nat) \<le> of_char c \<and> of_char c \<le> (57::nat)"

definition maxUint64 :: nat where
  "maxUint64 = 2 ^ 64 - 1"

fun parse_digits :: "nat \<Rightarrow> string \<Rightarrow> strconv_error + nat" where
  "parse_digits n [] = Inr n"
| "parse_digits n (c # cs) =
     (if \<not> is_digit c then Inl ErrSyntax
      else if maxUint64 div 10 + 1 \<le> n then Inl ErrRange
      else let n1 = n * 10 + (of_char c - 48)
           in if maxUint64 < n1 then Inl ErrRange else parse_digits n1 cs)"

definition ParseUint :: "string \<Rightarrow> strconv_error + uint64" where
  "ParseUint s =
     (if s = [] then Inl ErrSyntax
      else case parse_digits 0 s of Inl e \<Rightarrow> Inl e | Inr n \<Rightarrow> Inr (of_nat n))"

lemma is_digit_char [simp]: "d < 10 \<Longrightarrow> is_digit (digit_char d)"
  by (simp add: is_digit_def digit_char_code)

lemma foldl_digits_mono: "n \<le> foldl (\<lambda>acc d. acc * 10 + d) n (ds :: nat list)"
proof (induction ds arbitrary: n)
  case Nil
  show ?case by simp
next
  case (Cons d ds)
  have "n \<le> n * 10 + d" by simp
  also have "\<dots> \<le> foldl (\<lambda>acc d. acc * 10 + d) (n * 10 + d) ds" by (rule Cons.IH)
  finally show ?case by simp
qed

lemma parse_digits_map:
  assumes "\<forall>d \<in> set ds. d < 10" and "n \<le> maxUint64"
  shows "parse_digits n (map digit_char ds) =
    (let r = foldl (\<lambda>acc d. acc * 10 + d) n ds
     in if r \<le> maxUint64 then Inr r else Inl ErrRange)"
  using assms
proof (induction ds arbitrary: n)
  case Nil
  then show ?case by simp
next
  case (Cons d ds)
  have d: "d < 10" using Cons.prems by simp
  have mono: "n * 10 + d \<le> foldl (\<lambda>acc d. acc * 10 + d) (n * 10 + d) ds"
    by (rule foldl_digits_mono)
  show ?case
  proof (cases "n * 10 + d \<le> maxUint64")
    case True
    then have "\<not> maxUint64 div 10 + 1 \<le> n" by (simp add: maxUint64_def)
    then show ?thesis using True d Cons.IH [OF _ True] Cons.prems
      by (simp add: digit_char_code Let_def)
  next
    case False
    with mono have "\<not> foldl (\<lambda>acc d. acc * 10 + d) (n * 10 + d) ds \<le> maxUint64" by simp
    then show ?thesis using False d by (simp add: digit_char_code Let_def)
  qed
qed

lemma ParseUint_digits:
  assumes "ds \<noteq> []" and "\<forall>d \<in> set ds. d < 10"
  shows "ParseUint (map digit_char ds) =
    (if val_of 10 ds < 2 ^ 64 then Inr (of_nat (val_of 10 ds)) else Inl ErrRange)"
  using assms parse_digits_map [of ds 0]
  by (auto simp: ParseUint_def val_of_def maxUint64_def Let_def)

lemma ParseUint_FormatUint [simp]: "ParseUint (FormatUint n) = Inr n"
proof -
  have "\<forall>d \<in> set (digits10 (unat n)). d < 10" by (simp add: digits10_less)
  then have "ParseUint (FormatUint n) = Inr (of_nat (unat n))"
    unfolding FormatUint_def using unat_uint64_less [of n]
    by (subst ParseUint_digits) simp_all
  then show ?thesis by simp
qed

interpretation uint_text: codec FormatUint "\<lambda>s. case ParseUint s of Inl _ \<Rightarrow> None | Inr n \<Rightarrow> Some n"
  by unfold_locales simp

section \<open>Signed numbers\<close>

definition FormatInt :: "int64 \<Rightarrow> string" where
  "FormatInt i = (if i < 0 then CHR ''-'' # map digit_char (digits10 (nat (- i)))
     else map digit_char (digits10 (nat i)))"

definition ParseInt :: "string \<Rightarrow> strconv_error + int64" where
  "ParseInt s =
     (if s = [] then Inl ErrSyntax
      else let neg = (hd s = CHR ''-''); t = (if hd s = CHR ''+'' \<or> hd s = CHR ''-'' then tl s else s) in
        case ParseUint t of
          Inl e \<Rightarrow> Inl e
        | Inr un \<Rightarrow>
            if \<not> neg \<and> 2 ^ 63 \<le> unat un then Inl ErrRange
            else if neg \<and> 2 ^ 63 < unat un then Inl ErrRange
            else Inr (if neg then - int (unat un) else int (unat un)))"

lemma digit_char_no_sign: "d < 10 \<Longrightarrow> digit_char d \<noteq> CHR ''-'' \<and> digit_char d \<noteq> CHR ''+''"
  by (auto dest: arg_cong [of _ _ "of_char :: char \<Rightarrow> nat"] simp: digit_char_code)

lemma hd_digits: "hd (map digit_char (digits10 n)) \<noteq> CHR ''-'' \<and> hd (map digit_char (digits10 n)) \<noteq> CHR ''+''"
  using digits10_less [of "hd (digits10 n)" n] digit_char_no_sign [of "hd (digits10 n)"]
  by (simp add: hd_map)

lemma ParseUint_nat: "n < 2 ^ 64 \<Longrightarrow> ParseUint (map digit_char (digits10 n)) = Inr (of_nat n)"
  by (subst ParseUint_digits) (simp_all add: digits10_less)

lemma unat_nat64: "m < 2 ^ 64 \<Longrightarrow> unat (of_nat m :: uint64) = m"
  by (simp add: unat_of_nat)

lemma ParseInt_FormatInt [simp]:
  assumes "is_i64 i"
  shows "ParseInt (FormatInt i) = Inr i"
proof -
  have n: "nat \<bar>i\<bar> \<le> 2 ^ 63" and p: "0 \<le> i \<Longrightarrow> nat i < 2 ^ 63"
    using assms by (auto simp: is_i64_def nat_le_iff nat_less_iff)
  then have u: "unat (of_nat (nat \<bar>i\<bar>) :: uint64) = nat \<bar>i\<bar>" by (intro unat_nat64) simp
  have P: "ParseUint (map digit_char (digits10 (nat \<bar>i\<bar>))) = Inr (of_nat (nat \<bar>i\<bar>))"
    using n by (intro ParseUint_nat) simp
  show ?thesis
  proof (cases "i < 0")
    case True
    then show ?thesis using P u n by (simp add: ParseInt_def FormatInt_def Let_def)
  next
    case False
    then show ?thesis using P u p hd_digits [of "nat i"] by (simp add: ParseInt_def FormatInt_def Let_def)
  qed
qed

end
