(* ===== verification/RSEncoding.thy ===== *)
theory RSEncoding
  imports Strconv
begin

text \<open>
  The package \<^verbatim>\<open>pkg/rsencoding\<close>: the Reed-Solomon address format of account ids. The
  definitions follow \<^verbatim>\<open>encoding.go\<close> statement by statement, with every array access checked,
  so that an out-of-range index would show up as \<open>None\<close>. The theories \<open>GF32\<close>,
  \<open>RSConvert\<close> and \<open>RSCorrect\<close> hold the theory of the code.
\<close>

unbundle bit_operations_syntax

section \<open>Tables\<close>

definition base10Len :: nat where "base10Len = 20"
definition base32Len :: nat where "base32Len = 13"
definition initialCodewordLen :: nat where "initialCodewordLen = 17"

definition initialCodeword :: "nat list" where
  "initialCodeword = [1, 0, 0, 0, 0, 0, 0, 0, 0, 0, 0, 0, 0, 0, 0, 0, 0]"

definition gexp :: "nat list" where
  "gexp = [1, 2, 4, 8, 16, 5, 10, 20, 13, 26, 17, 7, 14, 28, 29, 31,
           27, 19, 3, 6, 12, 24, 21, 15, 30, 25, 23, 11, 22, 9, 18, 1]"

definition codewordMap :: "nat list" where
  "codewordMap = [3, 2, 1, 0, 7, 6, 5, 4, 13, 14, 15, 16, 12, 8, 9, 10, 11]"

definition alphabet :: string where
  "alphabet = ''23456789ABCDEFGHJKLMNPQRSTUVWXYZ''"

definition golg :: "nat list" where
  "golg = [0, 0, 1, 18, 2, 5, 19, 11, 3, 29, 6, 27, 20, 8, 12, 23, 4, 10, 30, 17,
           7, 22, 28, 26, 21, 25, 9, 16, 13, 14, 24, 15]"

definition gmult :: "nat \<Rightarrow> nat \<Rightarrow> nat option" where
  "gmult x y =
     (if x = 0 \<or> y = 0 then Some 0
      else do { lx \<leftarrow> idx golg x;
                ly \<leftarrow> idx golg y;
                idx gexp ((lx + ly) mod 31) })"

section \<open>Encode\<close>

text \<open>
  One pass of the base conversion: the decimal number in the first \<open>len\<close> cells of \<open>p\<close> is
  divided by 32 in place. The result is the array, the number of digits of the quotient and
  the remainder.
\<close>

function enc_pass :: "nat list \<Rightarrow> nat \<Rightarrow> nat \<Rightarrow> nat \<Rightarrow> nat \<Rightarrow> (nat list \<times> nat \<times> nat) option" where
  "enc_pass p len i newLength digit32 =
     (if i < len then do {
        d \<leftarrow> idx p i;
        let digit32 = digit32 * 10 + d;
        if 32 \<le> digit32 then do {
          p \<leftarrow> upd p newLength (drop_bit 5 digit32);
          enc_pass p len (Suc i) (Suc newLength) (digit32 AND 31) }
        else if 0 < newLength then do {
          p \<leftarrow> upd p newLength 0;
          enc_pass p len (Suc i) (Suc newLength) digit32 }
        else enc_pass p len (Suc i) newLength digit32 }
      else Some (p, newLength, digit32))"
  by pat_completeness auto
termination
  by (relation "measure (\<lambda>(p, len, i, newLength, digit32). len - i)") auto

declare enc_pass.simps [simp del]

function enc_convert :: "nat list \<Rightarrow> nat \<Rightarrow> nat list \<Rightarrow> nat \<Rightarrow> nat list option" where
  "enc_convert p len codeword codewordLength = do {
     (p', newLength, digit32) \<leftarrow> enc_pass p len 0 0 0;
     codeword' \<leftarrow> upd codeword codewordLength digit32;
     if newLength \<le> 0 then Some codeword'
     else enc_convert p' newLength codeword' (Suc codewordLength) }"
  by pat_completeness auto
termination
  by (relation "measure (\<lambda>(p, len, codeword, codewordLength). length codeword - codewordLength)")
     (auto simp: upd_eq_Some)

declare enc_convert.simps [simp del]

text \<open>
  The feedback shift register that computes the four check symbols; the list holds the values
  that the loop variable \<open>i\<close> takes.
\<close>

fun enc_parity ::
  "nat list \<Rightarrow> nat list \<Rightarrow> nat \<times> nat \<times> nat \<times> nat \<Rightarrow> (nat \<times> nat \<times> nat \<times> nat) option" where
  "enc_parity codeword [] p = Some p"
| "enc_parity codeword (i # is) (p0, p1, p2, p3) = do {
     c \<leftarrow> idx codeword i;
     let fb = c XOR p3;
     g30 \<leftarrow> gmult 30 fb;
     g6 \<leftarrow> gmult 6 fb;
     g9 \<leftarrow> gmult 9 fb;
     g17 \<leftarrow> gmult 17 fb;
     enc_parity codeword is (g17, p0 XOR g9, p1 XOR g6, p2 XOR g30) }"

function enc_buff :: "nat list \<Rightarrow> nat \<Rightarrow> nat \<Rightarrow> string \<Rightarrow> string option" where
  "enc_buff codeword i j buff =
     (if i < initialCodewordLen then do {
        codewordIndex \<leftarrow> idx codewordMap i;
        alphabetIndex \<leftarrow> idx codeword codewordIndex;
        ch \<leftarrow> idx alphabet alphabetIndex;
        buff \<leftarrow> upd buff j ch;
        if i AND 3 = 3 \<and> i < 13 then do {
          buff \<leftarrow> upd buff (j + 1) CHR ''-'';
          enc_buff codeword (i + 1) (j + 2) buff }
        else enc_buff codeword (i + 1) (j + 1) buff }
      else Some buff)"
  by pat_completeness auto
termination
  by (relation "measure (\<lambda>(codeword, i, j, buff). initialCodewordLen - i)") auto

declare enc_buff.simps [simp del]

text \<open>
  The digits of \<open>FormatUint\<close> are stored in an array of \<open>base10Len\<close> cells: a longer text would
  panic.
\<close>

definition plain_digits :: "string \<Rightarrow> nat list option" where
  "plain_digits s =
     (if length s \<le> base10Len
      then Some (map (\<lambda>c. of_char c - 48) s @ replicate (base10Len - length s) 0)
      else None)"

definition Encode :: "uint64 \<Rightarrow> string option" where
  "Encode accountID = do {
     let plainString = FormatUint accountID;
     plainString10 \<leftarrow> plain_digits plainString;
     codeword \<leftarrow> enc_convert plainString10 (length plainString) (replicate initialCodewordLen 0) 0;
     (p0, p1, p2, p3) \<leftarrow> enc_parity codeword (rev [0..<base32Len]) (0, 0, 0, 0);
     let codeword = take base32Len codeword @ [p0, p1, p2, p3];
     enc_buff codeword 0 0 (replicate 20 (char_of (0::nat))) }"

section \<open>Decode\<close>

datatype rs_error = CodewordTooLong | CodewordInvalid | PlainPartsError strconv_error

fun alphabet_pos :: "string \<Rightarrow> nat \<Rightarrow> char \<Rightarrow> nat option" where
  "alphabet_pos [] j ch = None"
| "alphabet_pos (a # as) j ch = (if a = ch then Some j else alphabet_pos as (Suc j) ch)"

fun dec_scan :: "string \<Rightarrow> nat list \<Rightarrow> nat \<Rightarrow> (rs_error + nat list \<times> nat) option" where
  "dec_scan [] codeword codewordLength = Some (Inr (codeword, codewordLength))"
| "dec_scan (ch # address) codeword codewordLength =
     (case alphabet_pos alphabet 0 ch of
        None \<Rightarrow> dec_scan address codeword codewordLength
      | Some positionInAlphabet \<Rightarrow>
          if 16 < codewordLength then Some (Inl CodewordTooLong)
          else do {
            codewordIndex \<leftarrow> idx codewordMap codewordLength;
            codeword \<leftarrow> upd codeword codewordIndex positionInAlphabet;
            dec_scan address codeword (codewordLength + 1) })"

fun syndrome :: "nat list \<Rightarrow> nat \<Rightarrow> nat list \<Rightarrow> nat \<Rightarrow> nat option" where
  "syndrome codeword i [] t = Some t"
| "syndrome codeword i (j # js) t =
     (if 12 < j \<and> j < 27 then syndrome codeword i js t
      else do {
        let pos = (if 26 < j then j - 14 else j);
        c \<leftarrow> idx codeword pos;
        e \<leftarrow> idx gexp ((i * j) mod 31);
        g \<leftarrow> gmult c e;
        syndrome codeword i js (t XOR g) })"

fun syndrome_sum :: "nat list \<Rightarrow> nat list \<Rightarrow> nat \<Rightarrow> nat option" where
  "syndrome_sum codeword [] s = Some s"
| "syndrome_sum codeword (i # is) s = do {
     t \<leftarrow> syndrome codeword i [0..<31] 0;
     syndrome_sum codeword is (s OR t) }"

definition isCodewordValid :: "nat list \<Rightarrow> bool option" where
  "isCodewordValid codeword = do {
     s \<leftarrow> syndrome_sum codeword [1..<5] 0;
     Some (s = 0) }"

function dec_pass :: "nat list \<Rightarrow> nat \<Rightarrow> nat \<Rightarrow> nat \<Rightarrow> nat \<Rightarrow> (nat list \<times> nat \<times> nat) option" where
  "dec_pass cs len j newLength digit10 =
     (if j < len then do {
        d \<leftarrow> idx cs j;
        let digit10 = digit10 * 32 + d;
        if 10 \<le> digit10 then do {
          cs \<leftarrow> upd cs newLength (digit10 div 10);
          dec_pass cs len (Suc j) (Suc newLength) (digit10 mod 10) }
        else if 0 < newLength then do {
          cs \<leftarrow> upd cs newLength 0;
          dec_pass cs len (Suc j) (Suc newLength) digit10 }
        else dec_pass cs len (Suc j) newLength digit10 }
      else Some (cs, newLength, digit10))"
  by pat_completeness auto
termination
  by (relation "measure (\<lambda>(cs, len, j, newLength, digit10). len - j)") auto

declare dec_pass.simps [simp del]

text \<open>
  \<open>plainParts[-plainPartsLen+19]\<close> is out of range once 20 digits have been written. The result
  is the array and the final \<open>plainPartsLen\<close>.
\<close>

function dec_convert :: "nat list \<Rightarrow> nat \<Rightarrow> string \<Rightarrow> nat \<Rightarrow> (string \<times> nat) option" where
  "dec_convert cs len plainParts plainPartsLen = do {
     (cs', newLength, digit10) \<leftarrow> dec_pass cs len 0 0 0;
     plainParts' \<leftarrow> (if plainPartsLen \<le> 19
        then upd plainParts (19 - plainPartsLen) (digit_char (digits10 digit10 ! 0)) else None);
     if newLength \<le> 0 then Some (plainParts', plainPartsLen)
     else dec_convert cs' newLength plainParts' (Suc plainPartsLen) }"
  by pat_completeness auto
termination
  by (relation "measure (\<lambda>(cs, len, plainParts, plainPartsLen). 20 - plainPartsLen)")
     (auto split: if_splits)

declare dec_convert.simps [simp del]

definition Decode :: "string \<Rightarrow> (rs_error + uint64) option" where
  "Decode address = do {
     scanned \<leftarrow> dec_scan address initialCodeword 0;
     case scanned of
       Inl e \<Rightarrow> Some (Inl e)
     | Inr (codeword, codewordLength) \<Rightarrow> do {
         invalid \<leftarrow> (if codewordLength = initialCodewordLen
            then map_option Not (isCodewordValid codeword) else Some True);
         if invalid then Some (Inl CodewordInvalid)
         else do {
           (plainParts, plainPartsLen) \<leftarrow>
             dec_convert (rev (take base32Len codeword)) base32Len (replicate 20 (char_of (0::nat))) 0;
           case ParseUint (drop (19 - plainPartsLen) plainParts) of
             Inl e \<Rightarrow> Some (Inl (PlainPartsError e))
           | Inr res \<Rightarrow> Some (Inr res) } } }"

end
