(* ===== verification/GF32.thy ===== *)
theory GF32
  imports RSEncoding
begin

text \<open>
  The arithmetic behind \<^verbatim>\<open>gmult\<close>: with addition as exclusive or and multiplication through the
  logarithm tables \<^verbatim>\<open>golg\<close> and \<^verbatim>\<open>gexp\<close>, the numbers below 32 form the field with 32 elements
  (reduction polynomial \<open>x^5 + x^2 + 1\<close>). The type \<open>gf32\<close> is an instance of \<open>field\<close>, so that
  the library's algebra applies to codewords.
\<close>

section \<open>The tables\<close>

lemma table_lengths [simp]:
  "length gexp = 32" "length golg = 32" "length codewordMap = 17" "length alphabet = 32"
  by (simp_all add: gexp_def golg_def codewordMap_def alphabet_def)

lemma gexp_table:
  "list_all (\<lambda>i. 0 < gexp ! i \<and> gexp ! i < 32 \<and> golg ! (gexp ! i) = i) [0..<31]"
  by code_simp

lemma golg_table:
  "list_all (\<lambda>x. golg ! x < 31 \<and> gexp ! (golg ! x) = x) [1..<32]"
  by code_simp

lemma gexp_facts:
  assumes "i < 31"
  shows gexp_pos: "0 < gexp ! i" and gexp_less: "gexp ! i < 32" and golg_gexp: "golg ! (gexp ! i) = i"
  using gexp_table assms by (auto simp: list_all_iff)

lemma golg_facts:
  assumes "0 < x" "x < 32"
  shows golg_less: "golg ! x < 31" and gexp_golg: "gexp ! (golg ! x) = x"
  using golg_table assms by (auto simp: list_all_iff)

lemmas table_facts = gexp_facts golg_facts

section \<open>Multiplication as a total function\<close>

definition gm :: "nat \<Rightarrow> nat \<Rightarrow> nat" where
  "gm x y = (if x = 0 \<or> y = 0 then 0 else gexp ! ((golg ! x + golg ! y) mod 31))"

lemma gmult_gm [simp]: "x < 32 \<Longrightarrow> y < 32 \<Longrightarrow> gmult x y = Some (gm x y)"
proof -
  assume "x < 32" "y < 32"
  moreover have "(golg ! x + golg ! y) mod 31 < length gexp"
    by (rule less_trans [of _ 31]) simp_all
  ultimately show ?thesis by (auto simp: gmult_def gm_def)
qed

lemma gm_zero [simp]: "gm 0 y = 0" "gm x 0 = 0"
  by (simp_all add: gm_def)

lemma gm_less [simp, bounds]: "gm x y < 32"
  by (simp add: gm_def gexp_less)

lemma gm_eq_0_iff: "gm x y = 0 \<longleftrightarrow> x = 0 \<or> y = 0"
proof -
  have "0 < gexp ! ((golg ! x + golg ! y) mod 31)" by (rule gexp_pos) simp
  then show ?thesis by (auto simp: gm_def)
qed

lemma golg_gm: "0 < x \<Longrightarrow> 0 < y \<Longrightarrow> golg ! (gm x y) = (golg ! x + golg ! y) mod 31"
  by (simp add: gm_def golg_gexp)

lemma gm_commute: "gm x y = gm y x"
  by (simp add: gm_def add.commute)

lemma gm_assoc: "gm (gm x y) z = gm x (gm y z)"
proof (cases "x = 0 \<or> y = 0 \<or> z = 0")
  case True
  then show ?thesis by auto
next
  case False
  then have pos: "0 < x" "0 < y" "0 < z" "gm x y \<noteq> 0" "gm y z \<noteq> 0" by (simp_all add: gm_eq_0_iff)
  then have "gm (gm x y) z = gexp ! (((golg ! x + golg ! y) mod 31 + golg ! z) mod 31)"
    by (subst gm_def) (simp add: golg_gm)
  also have "\<dots> = gexp ! ((golg ! x + (golg ! y + golg ! z) mod 31) mod 31)"
    by (simp add: mod_simps add.assoc)
  also have "\<dots> = gm x (gm y z)"
    using pos by (subst gm_def) (simp add: golg_gm)
  finally show ?thesis .
qed

lemma golg_1: "golg ! 1 = 0" and golg_2: "golg ! 2 = 1"
  by (simp_all add: golg_def)

lemma gm_one [simp]: "x < 32 \<Longrightarrow> gm 1 x = x"
  by (cases "x = 0") (simp_all add: gm_def golg_1 [simplified] golg_less gexp_golg)

section \<open>Distributivity over exclusive or\<close>

lemma xor_less_32 [simp, bounds]:
  assumes "x < 32" "y < (32::nat)"
  shows "x XOR y < 32"
proof -
  have "take_bit 5 x = x" "take_bit 5 y = y"
    using assms by (simp_all add: take_bit_nat_eq_self_iff)
  then have "take_bit 5 (x XOR y) = x XOR y" by (simp add: take_bit_xor)
  then have "x XOR y < 2 ^ 5" by (metis take_bit_nat_less_exp)
  then show ?thesis by simp
qed

text \<open>Multiplication by 2 is a shift followed by a reduction, which is linear bit by bit.\<close>

definition xtime :: "nat \<Rightarrow> nat" where
  "xtime x = push_bit 1 x XOR (if bit x 4 then 37 else 0)"

lemma xtime_xor: "xtime (x XOR y) = xtime x XOR xtime y"
  by (rule bit_eqI) (auto simp: xtime_def bit_simps)

lemma gm_2_table: "list_all (\<lambda>x. gm 2 x = xtime x) [0..<32]"
  by code_simp

lemma gm_2: "x < 32 \<Longrightarrow> gm 2 x = xtime x"
  using gm_2_table by (simp add: list_all_iff)

lemma gm_gexp_Suc:
  "gm (gexp ! (Suc k mod 31)) x = gm 2 (gm (gexp ! (k mod 31)) x)"
proof -
  have "golg ! 2 + k mod 31 = Suc (k mod 31)" by (simp add: golg_2)
  then have "gm 2 (gexp ! (k mod 31)) = gexp ! (Suc k mod 31)"
    using gexp_pos [of "k mod 31"] by (simp add: gm_def golg_gexp mod_Suc_eq)
  then show ?thesis by (simp flip: gm_assoc)
qed

lemma gm_gexp_xor:
  "x < 32 \<Longrightarrow> y < 32 \<Longrightarrow>
     gm (gexp ! (k mod 31)) (x XOR y) = gm (gexp ! (k mod 31)) x XOR gm (gexp ! (k mod 31)) y"
proof (induction k)
  case 0
  have "gexp ! 0 = 1" by (simp add: gexp_def)
  then show ?case using 0 by (simp add: gm_one [simplified])
next
  case (Suc k)
  then show ?case by (simp add: gm_gexp_Suc gm_2 xtime_xor)
qed

lemma gm_xor: "x < 32 \<Longrightarrow> y < 32 \<Longrightarrow> z < 32 \<Longrightarrow> gm z (x XOR y) = gm z x XOR gm z y"
proof (cases "z = 0")
  case False
  assume "x < 32" "y < 32" "z < 32"
  with False gm_gexp_xor [of x y "golg ! z"] show ?thesis
    by (simp add: golg_less gexp_golg)
qed simp

lemma gm_xor_left: "x < 32 \<Longrightarrow> y < 32 \<Longrightarrow> z < 32 \<Longrightarrow> gm (x XOR y) z = gm x z XOR gm y z"
  using gm_xor [of x y z] by (simp add: gm_commute)

section \<open>The field\<close>

typedef gf32 = "{x :: nat. x < 32}"
  by (rule exI [of _ 0]) simp

setup_lifting type_definition_gf32

instantiation gf32 :: field
begin

lift_definition zero_gf32 :: gf32 is 0 by simp
lift_definition one_gf32 :: gf32 is 1 by simp
lift_definition plus_gf32 :: "gf32 \<Rightarrow> gf32 \<Rightarrow> gf32" is "(XOR)" by simp
lift_definition minus_gf32 :: "gf32 \<Rightarrow> gf32 \<Rightarrow> gf32" is "(XOR)" by simp
lift_definition uminus_gf32 :: "gf32 \<Rightarrow> gf32" is "\<lambda>x. x" by simp
lift_definition times_gf32 :: "gf32 \<Rightarrow> gf32 \<Rightarrow> gf32" is gm by simp
lift_definition inverse_gf32 :: "gf32 \<Rightarrow> gf32"
  is "\<lambda>x. if x = 0 then 0 else gexp ! ((31 - golg ! x) mod 31)"
  by (simp add: gexp_less)
definition divide_gf32 :: "gf32 \<Rightarrow> gf32 \<Rightarrow> gf32" where
  "divide_gf32 x y = x * inverse y"

lemma gm_inverse:
  assumes "0 < x" "x < 32"
  shows "gm (gexp ! ((31 - golg ! x) mod 31)) x = 1"
proof -
  have "((31 - golg ! x) mod 31 + golg ! x) mod 31 = 0"
    using golg_less [OF assms] by (simp add: mod_simps)
  moreover have "gexp ! 0 = 1" by (simp add: gexp_def)
  ultimately show ?thesis
    using assms gexp_pos [of "(31 - golg ! x) mod 31"] by (simp add: gm_def golg_gexp)
qed

instance
proof
  fix a b c :: gf32
  show "a + b + c = a + (b + c)" by transfer (simp add: ac_simps)
  show "a + b = b + a" by transfer (simp add: ac_simps)
  show "0 + a = a" by transfer simp
  show "- a + a = 0" by transfer simp
  show "a - b = a + - b" by transfer simp
  show "a * b * c = a * (b * c)" by transfer (rule gm_assoc)
  show "a * b = b * a" by transfer (rule gm_commute)
  show "1 * a = a" by transfer (rule gm_one)
  show "(a + b) * c = a * c + b * c"
    by transfer (rule gm_xor_left)
  show "(0::gf32) \<noteq> 1" by transfer simp
  show "a \<noteq> 0 \<Longrightarrow> inverse a * a = 1" by transfer (simp add: gm_inverse [simplified])
  show "a div b = a * inverse b" by (simp add: divide_gf32_def)
  show "inverse (0::gf32) = 0" by transfer simp
qed

end

lemma gf32_add_self [simp]: "(a::gf32) + a = 0"
  by transfer simp

lemma gf32_minus [simp]: "- (a::gf32) = a"
  by transfer simp

lemma gf32_diff: "(a::gf32) - b = a + b"
  by transfer simp

lemma gf32_add_eq_0_iff: "(a::gf32) + b = 0 \<longleftrightarrow> a = b"
  by (metis gf32_diff right_minus_eq)

section \<open>Numbers below 32 as field elements\<close>

lift_definition sym :: "nat \<Rightarrow> gf32" is "\<lambda>x. x mod 32"
  by simp

lemma sym_0 [simp]: "sym 0 = 0"
  by transfer simp

lemma sym_eq_iff: "x < 32 \<Longrightarrow> y < 32 \<Longrightarrow> sym x = sym y \<longleftrightarrow> x = y"
  by transfer simp

lemma sym_eq_0_iff: "x < 32 \<Longrightarrow> sym x = 0 \<longleftrightarrow> x = 0"
  by transfer simp

lemma sym_xor: "x < 32 \<Longrightarrow> y < 32 \<Longrightarrow> sym (x XOR y) = sym x + sym y"
  by transfer simp

lemma sym_gm: "x < 32 \<Longrightarrow> y < 32 \<Longrightarrow> sym (gm x y) = sym x * sym y"
  by transfer simp

definition alpha :: gf32 where
  "alpha = sym 2"

lemma sym_gexp: "sym (gexp ! (k mod 31)) = alpha ^ k"
proof (induction k)
  case 0
  have "gexp ! 0 = 1" by (simp add: gexp_def)
  then show ?case by simp (transfer, simp)
next
  case (Suc k)
  have "gexp ! (Suc k mod 31) = gm 2 (gexp ! (k mod 31))"
    using gm_gexp_Suc [of k 1] by (simp add: gm_commute [of _ "Suc 0"] gm_one [simplified] gexp_less)
  then show ?case using Suc.IH by (simp add: sym_gm alpha_def gexp_less)
qed

lemma alpha_31 [simp]: "alpha ^ 31 = 1"
  using sym_gexp [of 31] sym_gexp [of 0] by simp

lemma alpha_nonzero [simp]: "alpha \<noteq> 0"
  by (simp add: alpha_def sym_eq_0_iff)

lemma alpha_power_inj: "i < 31 \<Longrightarrow> j < 31 \<Longrightarrow> alpha ^ i = alpha ^ j \<longleftrightarrow> i = j"
  using sym_gexp [of i] sym_gexp [of j] golg_gexp [of i] golg_gexp [of j]
  by (metis gexp_less mod_less sym_eq_iff)

end
