(* ===== verification/RSConvert.thy ===== *)
theory RSConvert
  imports GF32
begin

text \<open>
  Correctness of the two in-place base conversions of \<^verbatim>\<open>pkg/rsencoding\<close>: decimal to base 32 in
  \<open>Encode\<close>, base 32 to decimal in \<open>Decode\<close>.
\<close>

section \<open>Base conversion by repeated division in place\<close>

text \<open>
  Both conversion loops are instances of one pass that divides a number in base \<open>b\<close> by \<open>m\<close>.
\<close>

function gpass :: "nat \<Rightarrow> nat \<Rightarrow> nat list \<Rightarrow> nat \<Rightarrow> nat \<Rightarrow> nat \<Rightarrow> nat \<Rightarrow> (nat list \<times> nat \<times> nat) option" where
  "gpass b m p len i nl r =
     (if i < len then do {
        d \<leftarrow> idx p i;
        let r = r * b + d;
        if m \<le> r then do {
          p \<leftarrow> upd p nl (r div m);
          gpass b m p len (Suc i) (Suc nl) (r mod m) }
        else if 0 < nl then do {
          p \<leftarrow> upd p nl 0;
          gpass b m p len (Suc i) (Suc nl) r }
        else gpass b m p len (Suc i) nl r }
      else Some (p, nl, r))"
  by pat_completeness auto
termination
  by (relation "measure (\<lambda>(b, m, p, len, i, nl, r). len - i)") auto

declare gpass.simps [simp del]

lemma drop_bit_5: "drop_bit 5 (x::nat) = x div 32"
  by (simp add: drop_bit_eq_div)

lemma and_31: "(x::nat) AND 31 = x mod 32"
  using take_bit_eq_mask [of 5 x] by (simp add: mask_eq_exp_minus_1 take_bit_eq_mod)

lemma dec_pass_gpass: "dec_pass cs len j nl r = gpass 32 10 cs len j nl r"
proof (induction "len - j" arbitrary: cs j nl r)
  case 0
  then show ?case by (simp add: dec_pass.simps gpass.simps)
next
  case (Suc n)
  then have "n = len - Suc j" by simp
  note IH = Suc.hyps(1) [OF this]
  show ?case
    by (simp add: dec_pass.simps [of cs len j nl r] gpass.simps [of 32 10 cs len j nl r] IH Let_def
        cong: if_cong)
qed

lemma enc_pass_gpass: "enc_pass p len i nl r = gpass 10 32 p len i nl r"
proof (induction "len - i" arbitrary: p i nl r)
  case 0
  then show ?case by (simp add: enc_pass.simps gpass.simps)
next
  case (Suc n)
  then have "n = len - Suc i" by simp
  note IH = Suc.hyps(1) [OF this]
  show ?case
    by (simp add: enc_pass.simps [of p len i nl r] gpass.simps [of 10 32 p len i nl r] IH
        drop_bit_5 and_31 Let_def cong: if_cong)
qed

text \<open>
  The loop invariant: the first \<open>nl\<close> cells hold the quotient of the digits read so far, without
  leading zeros, and \<open>r\<close> is the remainder; the cells from \<open>i\<close> on are still the input.
\<close>

definition pass_inv :: "nat \<Rightarrow> nat \<Rightarrow> nat list \<Rightarrow> nat list \<Rightarrow> nat \<Rightarrow> nat \<Rightarrow> nat \<Rightarrow> bool" where
  "pass_inv b m ds p i nl r \<longleftrightarrow>
     nl \<le> i \<and> i \<le> length ds \<and> length ds \<le> length p \<and>
     (\<forall>k. i \<le> k \<and> k < length ds \<longrightarrow> p ! k = ds ! k) \<and>
     val_of b (take i ds) = m * val_of b (take nl p) + r \<and> r < m \<and>
     (\<forall>d \<in> set (take nl p). d < b) \<and> (0 < nl \<longrightarrow> p ! 0 \<noteq> 0)"

lemma pass_inv_push:
  assumes inv: "pass_inv b m ds p i nl r" and i: "i < length ds" and d: "ds ! i < b"
    and q: "r * b + ds ! i = m * q + r'" and r': "r' < m" and nz: "nl = 0 \<longrightarrow> q \<noteq> 0"
  shows "pass_inv b m ds (p[nl := q]) (Suc i) (Suc nl) r'"
proof -
  note I = inv [unfolded pass_inv_def]
  have nl: "nl < length p" using I i by simp
  have tk: "take (Suc nl) (p[nl := q]) = take nl p @ [q]"
    using nl by (simp add: take_Suc_conv_app_nth)
  have "r + 1 \<le> m" using I by simp
  then have "(r + 1) * b \<le> m * b" by (rule mult_right_mono) simp
  then have "r * b + ds ! i < m * b" using d by simp
  with q have "m * q < m * b" by linarith
  then have qb: "q < b" by simp
  have "val_of b (take (Suc i) ds) = (m * val_of b (take nl p) + r) * b + ds ! i"
    using I i by (simp add: val_of_take_Suc)
  also have "\<dots> = m * (val_of b (take nl p) * b + q) + r'"
    using q by (simp add: algebra_simps)
  finally have v: "val_of b (take (Suc i) ds) = m * val_of b (take (Suc nl) (p[nl := q])) + r'"
    by (simp add: tk)
  have "(p[nl := q]) ! 0 \<noteq> 0" using I nz nl by (cases "nl = 0") auto
  moreover have "\<forall>d \<in> set (take (Suc nl) (p[nl := q])). d < b"
    using I qb by (auto simp: tk)
  ultimately show ?thesis using I i r' v unfolding pass_inv_def by auto
qed

lemma pass_inv_skip:
  assumes inv: "pass_inv b m ds p i 0 r" and i: "i < length ds" and "r * b + ds ! i < m"
  shows "pass_inv b m ds p (Suc i) 0 (r * b + ds ! i)"
  using assms by (auto simp: pass_inv_def val_of_take_Suc)

lemma gpass_correct:
  assumes "pass_inv b m ds p i nl r" and "\<forall>d \<in> set ds. d < b" and "0 < m"
  shows "\<exists>p' nl' r'. gpass b m p (length ds) i nl r = Some (p', nl', r') \<and>
    length p' = length p \<and> pass_inv b m ds p' (length ds) nl' r'"
  using assms
proof (induction "length ds - i" arbitrary: p i nl r)
  case 0
  then have "i = length ds" by (simp add: pass_inv_def)
  with 0 show ?case by (auto simp: gpass.simps)
next
  case (Suc n)
  note inv = Suc.prems(1)
  have i: "i < length ds" using Suc.hyps by simp
  then have "i < length p" "nl < length p" "p ! i = ds ! i"
    using inv by (auto simp: pass_inv_def)
  note u = this
  have d: "ds ! i < b" using Suc.prems i by simp
  let ?r = "r * b + ds ! i"
  have n: "n = length ds - Suc i" using Suc.hyps by simp
  consider "m \<le> ?r" | "?r < m" "0 < nl" | "?r < m" "nl = 0" by linarith
  then show ?case
  proof cases
    case 1
    have "?r div m \<noteq> 0" using 1 \<open>0 < m\<close> by (simp add: div_eq_0_iff)
    then have "pass_inv b m ds (p[nl := ?r div m]) (Suc i) (Suc nl) (?r mod m)"
      using inv i d \<open>0 < m\<close> by (intro pass_inv_push [where r = r]) auto
    from Suc.hyps(1) [OF n this Suc.prems(2,3)] 1 i show ?thesis
      by (subst gpass.simps) (simp add: u Let_def)
  next
    case 2
    then have "pass_inv b m ds (p[nl := 0]) (Suc i) (Suc nl) ?r"
      using inv i d by (intro pass_inv_push [where r = r]) auto
    from Suc.hyps(1) [OF n this Suc.prems(2,3)] 2 i show ?thesis
      by (subst gpass.simps) (simp add: u Let_def)
  next
    case 3
    then have "pass_inv b m ds p (Suc i) 0 ?r"
      using inv i by (intro pass_inv_skip) auto
    from Suc.hyps(1) [OF n this Suc.prems(2,3)] 3 i show ?thesis
      by (subst gpass.simps) (simp add: u Let_def)
  qed
qed

text \<open>A whole pass computes quotient and remainder.\<close>

lemma gpass_divmod:
  assumes "len \<le> length p" "\<forall>d \<in> set (take len p). d < b" "0 < m"
  shows "\<exists>p' nl'. gpass b m p len 0 0 0 = Some (p', nl', val_of b (take len p) mod m) \<and>
    length p' = length p \<and> nl' \<le> len \<and> (\<forall>d \<in> set (take nl' p'). d < b) \<and>
    val_of b (take nl' p') = val_of b (take len p) div m \<and>
    (nl' = 0 \<longleftrightarrow> val_of b (take len p) div m = 0)"
proof -
  let ?ds = "take len p"
  have l: "length ?ds = len" using assms by simp
  have "pass_inv b m ?ds p 0 0 0" using assms by (simp add: pass_inv_def)
  from gpass_correct [OF this assms(2,3)] obtain p' nl' r' where
    g: "gpass b m p len 0 0 0 = Some (p', nl', r')" "length p' = length p"
    and inv: "pass_inv b m ?ds p' len nl' r'" unfolding l by blast
  note I = inv [unfolded pass_inv_def]
  have v: "val_of b ?ds = m * val_of b (take nl' p') + r'" and "r' < m" using I by auto
  then have q: "val_of b ?ds div m = val_of b (take nl' p')" and r: "val_of b ?ds mod m = r'"
    using assms by simp_all
  have nl: "nl' \<le> len" "len \<le> length p'" using I l by auto
  have "nl' \<noteq> 0 \<Longrightarrow> val_of b (take nl' p') \<noteq> 0"
  proof -
    assume "nl' \<noteq> 0"
    moreover have "p' ! 0 \<noteq> 0" using I \<open>nl' \<noteq> 0\<close> by simp
    moreover have "0 < b"
      using assms(2) nl \<open>nl' \<noteq> 0\<close> g(2) by (cases p; cases len) auto
    moreover have "p' \<noteq> []" using nl \<open>nl' \<noteq> 0\<close> by auto
    ultimately have "b ^ (nl' - 1) \<le> val_of b (take nl' p')" "0 < b ^ (nl' - 1)"
      using val_of_hd_pos [of "take nl' p'" b] nl by (auto simp: min_absorb2)
    then show ?thesis by linarith
  qed
  then have "nl' = 0 \<longleftrightarrow> val_of b ?ds div m = 0" unfolding q by (cases "nl' = 0") auto
  with g nl I q r show ?thesis by auto
qed

section \<open>The two conversions\<close>

lemma div_power_Suc: "(N::nat) div b div b ^ j = N div b ^ Suc j"
  by (simp add: div_mult2_eq)

text \<open>\<open>Encode\<close> fills the codeword with the base-32 digits, least significant first.\<close>

lemma enc_convert_correct:
  assumes "len \<le> length p" "\<forall>d \<in> set (take len p). d < 10"
    and "val_of 10 (take len p) = N" "N < 32 ^ (length cw - k)" "k < length cw"
    and "\<forall>j. k \<le> j \<and> j < length cw \<longrightarrow> cw ! j = 0"
  shows "\<exists>cw'. enc_convert p len cw k = Some cw' \<and> length cw' = length cw \<and>
    (\<forall>j < k. cw' ! j = cw ! j) \<and>
    (\<forall>j. k + j < length cw \<longrightarrow> cw' ! (k + j) = N div 32 ^ j mod 32)"
  using assms
proof (induction "length cw - k" arbitrary: p len cw k N)
  case 0
  then show ?case by simp
next
  case (Suc n)
  let ?cw = "cw[k := N mod 32]"
  from gpass_divmod [OF Suc.prems(1,2), of 32] Suc.prems(3) obtain p' nl where
    g: "enc_pass p len 0 0 0 = Some (p', nl, N mod 32)" and
    p': "length p' = length p" "nl \<le> len" "\<forall>d \<in> set (take nl p'). d < 10"
      "val_of 10 (take nl p') = N div 32" "nl = 0 \<longleftrightarrow> N div 32 = 0"
    unfolding enc_pass_gpass by auto
  have u: "enc_convert p len cw k =
      (if nl \<le> 0 then Some ?cw else enc_convert p' nl ?cw (Suc k))"
    using g Suc.prems(5) by (subst enc_convert.simps) simp
  show ?case
  proof (cases "nl = 0")
    case True
    with p' have "N < 32" by (simp add: div_eq_0_iff)
    then have "N div 32 ^ j mod 32 = (if j = 0 then N else 0)" for j
      by (cases j) (simp_all add: div_mult2_eq)
    moreover have "N mod 32 = N" using \<open>N < 32\<close> by simp
    ultimately show ?thesis using u True Suc.prems(5,6) by (auto simp: nth_list_update)
  next
    case False
    with p' have "\<not> N < 32" by (simp add: div_eq_0_iff)
    with Suc.prems(4) have "length cw - k \<noteq> 1" by auto
    then have k: "Suc k < length cw" using Suc.prems(5) by simp
    have "N < 32 * 32 ^ (length ?cw - Suc k)"
      using Suc.prems(4,5) by (simp add: Suc_diff_Suc flip: power_Suc)
    then have N: "N div 32 < 32 ^ (length ?cw - Suc k)" by (simp add: div_less_iff_less_mult mult.commute)
    have "\<exists>cw'. enc_convert p' nl ?cw (Suc k) = Some cw' \<and> length cw' = length ?cw \<and>
      (\<forall>j < Suc k. cw' ! j = ?cw ! j) \<and>
      (\<forall>j. Suc k + j < length ?cw \<longrightarrow> cw' ! (Suc k + j) = N div 32 div 32 ^ j mod 32)"
      using Suc.hyps(2) p' Suc.prems N k by (intro Suc.hyps(1)) (auto simp: nth_list_update)
    then obtain cw' where c: "enc_convert p' nl ?cw (Suc k) = Some cw'" "length cw' = length cw"
      "\<forall>j < Suc k. cw' ! j = ?cw ! j"
      "\<forall>j. Suc k + j < length cw \<longrightarrow> cw' ! (Suc k + j) = N div 32 div 32 ^ j mod 32" by auto
    have "cw' ! (k + j) = N div 32 ^ j mod 32" if "k + j < length cw" for j
      using c(3,4) that k by (cases j) (auto simp: div_power_Suc)
    then show ?thesis using u False c by auto
  qed
qed

text \<open>\<open>Decode\<close> writes the decimal digits into the end of \<open>plainParts\<close>.\<close>

lemma drop_update_hd: "i < length xs \<Longrightarrow> drop i (xs[i := v]) = v # drop (Suc i) xs"
  by (simp add: drop_update_swap Cons_nth_drop_Suc [symmetric])

lemma dec_convert_correct:
  assumes "len \<le> length cs" "\<forall>d \<in> set (take len cs). d < 32"
    and "val_of 32 (take len cs) = N" "N < 10 ^ (20 - k)" "k \<le> 19" "length pp = 20"
  shows "\<exists>pp' k'. dec_convert cs len pp k = Some (pp', k') \<and> k' \<le> 19 \<and> length pp' = 20 \<and>
    drop (19 - k') pp' = map digit_char (digits10 N) @ drop (20 - k) pp"
  using assms
proof (induction "20 - k" arbitrary: cs len pp k N)
  case 0
  then show ?case by simp
next
  case (Suc n)
  let ?pp = "pp[19 - k := digit_char (N mod 10)]"
  from gpass_divmod [OF Suc.prems(1,2), of 10] Suc.prems(3) obtain cs' nl where
    g: "dec_pass cs len 0 0 0 = Some (cs', nl, N mod 10)" and
    cs': "length cs' = length cs" "nl \<le> len" "\<forall>d \<in> set (take nl cs'). d < 32"
      "val_of 32 (take nl cs') = N div 10" "nl = 0 \<longleftrightarrow> N div 10 = 0"
    unfolding dec_pass_gpass by auto
  have u: "dec_convert cs len pp k =
      (if nl \<le> 0 then Some (?pp, k) else dec_convert cs' nl ?pp (Suc k))"
    using g Suc.prems(5,6) by (subst dec_convert.simps) simp
  have d: "drop (19 - k) ?pp = digit_char (N mod 10) # drop (20 - k) pp"
    using Suc.prems(5,6) drop_update_hd [of "19 - k" pp] by (simp add: Suc_diff_le [symmetric])
  show ?case
  proof (cases "nl = 0")
    case True
    with cs' have "N < 10" by (simp add: div_eq_0_iff)
    then show ?thesis using u True d Suc.prems by simp
  next
    case False
    with cs' have N10: "10 \<le> N" by (simp add: div_eq_0_iff)
    have "k \<noteq> 19" using N10 Suc.prems(4) by auto
    then have k: "Suc k \<le> 19" using Suc.prems(5) by simp
    have "20 - k = Suc (20 - Suc k)" using Suc.prems(5) by simp
    then have "N < 10 * 10 ^ (20 - Suc k)" using Suc.prems(4) by (simp flip: power_Suc)
    then have "N div 10 < 10 ^ (20 - Suc k)" by (simp add: div_less_iff_less_mult mult.commute)
    then have "\<exists>pp' k'. dec_convert cs' nl ?pp (Suc k) = Some (pp', k') \<and> k' \<le> 19 \<and> length pp' = 20 \<and>
      drop (19 - k') pp' = map digit_char (digits10 (N div 10)) @ drop (20 - Suc k) ?pp"
      using Suc.hyps(2) cs' Suc.prems k by (intro Suc.hyps(1)) auto
    moreover have "drop (20 - Suc k) ?pp = digit_char (N mod 10) # drop (20 - k) pp"
      using d k by simp
    ultimately show ?thesis using u False digits10_step [OF N10] by auto
  qed
qed

lemma val_of_digits: "val_of b (rev (map (\<lambda>j. N div b ^ j mod b) [0..<n])) = N mod b ^ n"
proof (induction n)
  case 0
  show ?case by simp
next
  case (Suc n)
  have "N mod b ^ Suc n = b ^ n * (N div b ^ n mod b) + N mod b ^ n"
    by (simp only: power_Suc2 mod_mult2_eq)
  with Suc.IH show ?case by (simp add: val_of_Cons mult.commute)
qed

end
