(* ===== verification/RSCorrect.thy ===== *)
theory RSCorrect
  imports RSConvert
begin

text \<open>
  Correctness of \<^verbatim>\<open>pkg/rsencoding\<close>: the check symbols cancel the syndromes, decoding inverts
  encoding, and no array access of either function is out of range.
\<close>

section \<open>Syndromes\<close>

definition is_codeword :: "nat list \<Rightarrow> bool" where
  "is_codeword cw \<longleftrightarrow> length cw = 17 \<and> (\<forall>c \<in> set cw. c < 32)"

lemma is_codeword_nth [bounds]: "is_codeword cw \<Longrightarrow> j < 17 \<Longrightarrow> cw ! j < 32"
  by (auto simp: is_codeword_def)

text \<open>The exponents \<open>j\<close> that the syndrome loop visits, and the position it reads for each.\<close>

definition visited :: "nat \<Rightarrow> bool" where
  "visited j \<longleftrightarrow> \<not> (12 < j \<and> j < 27)"

definition read_pos :: "nat \<Rightarrow> nat" where
  "read_pos j = (if 26 < j then j - 14 else j)"

definition synd :: "nat list \<Rightarrow> nat \<Rightarrow> gf32" where
  "synd cw i = (\<Sum>j \<in> {j. j < 31 \<and> visited j}. sym (cw ! read_pos j) * alpha ^ (i * j))"

lemma read_pos_less [bounds]: "j < 31 \<Longrightarrow> visited j \<Longrightarrow> read_pos j < 17"
  by (auto simp: visited_def read_pos_def)

lemma syndrome_correct:
  assumes "is_codeword cw" "\<forall>j \<in> set js. j < 31" "t < 32"
  shows "\<exists>t'. syndrome cw i js t = Some t' \<and> t' < 32 \<and>
    sym t' = sym t + (\<Sum>j\<leftarrow>filter visited js. sym (cw ! read_pos j) * alpha ^ (i * j))"
  using assms
proof (induction js arbitrary: t)
  case Nil
  then show ?case by simp
next
  case (Cons j js)
  show ?case
  proof (cases "visited j")
    case False
    then show ?thesis using Cons by (simp add: visited_def)
  next
    case True
    have j: "j < 31" "read_pos j < 17" using Cons.prems True read_pos_less by auto
    have e: "(i * j) mod 31 < length gexp" by (rule less_trans [of _ 31]) simp_all
    have c: "cw ! read_pos j < 32" using Cons.prems(1) j by (simp add: is_codeword_nth)
    let ?g = "gm (cw ! read_pos j) (gexp ! ((i * j) mod 31))"
    have u: "syndrome cw i (j # js) t = syndrome cw i js (t XOR ?g)"
      using True j c e Cons.prems(1)
      by (auto simp: is_codeword_def visited_def read_pos_def [symmetric] gexp_less)
    have "t XOR ?g < 32" using Cons.prems(3) by simp
    moreover have "sym (t XOR ?g) = sym t + sym (cw ! read_pos j) * alpha ^ (i * j)"
      using Cons.prems(3) c by (simp add: sym_xor sym_gm gexp_less sym_gexp)
    ultimately show ?thesis
      using Cons.IH [of "t XOR ?g"] Cons.prems u True by (auto simp: add.assoc)
  qed
qed

lemma sum_list_visited:
  "(\<Sum>j\<leftarrow>filter visited [0..<31]. f j) = (\<Sum>j \<in> {j. j < 31 \<and> visited j}. f j)"
proof -
  have "set (filter visited [0..<31]) = {j. j < 31 \<and> visited j}" by auto
  moreover have "distinct (filter visited [0..<31])" by simp
  ultimately show ?thesis using sum_list_distinct_conv_sum_set [of "filter visited [0..<31]" f] by simp
qed

lemma syndrome_synd:
  assumes "is_codeword cw"
  shows "\<exists>t. syndrome cw i [0..<31] 0 = Some t \<and> (t = 0 \<longleftrightarrow> synd cw i = 0)"
  using syndrome_correct [OF assms, of "[0..<31]" 0 i]
  by (auto simp: sum_list_visited synd_def [symmetric]) (metis sym_eq_0_iff)+

lemma syndrome_sum_correct:
  assumes "is_codeword cw"
  shows "\<exists>s'. syndrome_sum cw is s = Some s' \<and> (s' = 0 \<longleftrightarrow> s = 0 \<and> (\<forall>i \<in> set is. synd cw i = 0))"
proof (induction "is" arbitrary: s)
  case Nil
  show ?case by simp
next
  case (Cons i "is")
  obtain t where t: "syndrome cw i [0..<31] 0 = Some t" "t = 0 \<longleftrightarrow> synd cw i = 0"
    using syndrome_synd [OF assms] by blast
  show ?case using Cons.IH [of "s OR t"] t by (auto simp: or_eq_0_iff)
qed

lemma isCodewordValid_synd:
  assumes "is_codeword cw"
  shows "isCodewordValid cw = Some (\<forall>i \<in> {1..4}. synd cw i = 0)"
proof -
  have "set [1..<5] = {1..4::nat}" by auto
  then show ?thesis
    using syndrome_sum_correct [OF assms, of "[1..<5]" 0] by (auto simp: isCodewordValid_def)
qed

lemma visited_set: "{j. j < 31 \<and> visited j} = {..<13} \<union> {27..<31}"
  by (auto simp: visited_def)

lemma synd_split:
  "synd cw i = (\<Sum>j<13. sym (cw ! j) * alpha ^ (i * j)) +
     (\<Sum>k<4. sym (cw ! (13 + k)) * alpha ^ (i * (27 + k)))"
proof -
  let ?f = "\<lambda>j. sym (cw ! read_pos j) * alpha ^ (i * j)"
  have "synd cw i = (\<Sum>j<13. ?f j) + (\<Sum>j \<in> {27..<31}. ?f j)"
    unfolding synd_def visited_set by (subst sum.union_disjoint) auto
  also have "(\<Sum>j \<in> {27..<31}. ?f j) = (\<Sum>k<4. ?f (27 + k))"
    by (rule sum.reindex_bij_witness [of _ "\<lambda>k. 27 + k" "\<lambda>j. j - 27"]) auto
  finally show ?thesis by (simp add: read_pos_def)
qed

section \<open>The check symbols\<close>

definition ev :: "nat \<Rightarrow> nat \<times> nat \<times> nat \<times> nat \<Rightarrow> gf32" where
  "ev i p = (case p of (p0, p1, p2, p3) \<Rightarrow>
     sym p0 + sym p1 * alpha ^ i + sym p2 * alpha ^ (2 * i) + sym p3 * alpha ^ (3 * i))"

definition par_ok :: "nat \<times> nat \<times> nat \<times> nat \<Rightarrow> bool" where
  "par_ok p = (case p of (p0, p1, p2, p3) \<Rightarrow> p0 < 32 \<and> p1 < 32 \<and> p2 < 32 \<and> p3 < 32)"

text \<open>The generator polynomial vanishes at the first four powers of \<open>alpha\<close>.\<close>

lemma generator_table:
  "list_all (\<lambda>i. (17 XOR gm 9 (gexp ! i)) XOR
       (gm 6 (gexp ! (2 * i)) XOR gm 30 (gexp ! (3 * i))) = gexp ! (4 * i)) [1..<5]"
  by code_simp

lemma generator_roots:
  assumes "i \<in> {1..4}"
  shows "sym 17 + sym 9 * alpha ^ i + sym 6 * alpha ^ (2 * i) + sym 30 * alpha ^ (3 * i)
    = alpha ^ (4 * i)"
proof -
  have m: "i mod 31 = i" "(2 * i) mod 31 = 2 * i" "(3 * i) mod 31 = 3 * i" "(4 * i) mod 31 = 4 * i"
    using assms by auto
  have l: "gexp ! i < 32" "gexp ! (2 * i) < 32" "gexp ! (3 * i) < 32" "gexp ! (4 * i) < 32"
    using assms by (auto intro!: gexp_less)
  have "sym ((17 XOR gm 9 (gexp ! i)) XOR (gm 6 (gexp ! (2 * i)) XOR gm 30 (gexp ! (3 * i)))) =
      sym (gexp ! (4 * i))"
    using generator_table assms by (auto simp: list_all_iff)
  then show ?thesis
    using l sym_gexp [of i] sym_gexp [of "2 * i"] sym_gexp [of "3 * i"] sym_gexp [of "4 * i"]
    unfolding m by (simp add: sym_xor sym_gm add.assoc)
qed

lemma ev_step:
  assumes "par_ok (p0, p1, p2, p3)" "c < 32" "i \<in> {1..4}"
  defines "fb \<equiv> c XOR p3"
  shows "ev i (gm 17 fb, p0 XOR gm 9 fb, p1 XOR gm 6 fb, p2 XOR gm 30 fb) =
    alpha ^ i * ev i (p0, p1, p2, p3) + sym c * alpha ^ (4 * i)"
proof -
  have b: "p0 < 32" "p1 < 32" "p2 < 32" "p3 < 32" "fb < 32"
    using assms by (auto simp: par_ok_def)
  have fb: "sym fb = sym c + sym p3" using assms(2) b by (simp add: fb_def sym_xor)
  have pw: "alpha ^ (2 * i) = alpha ^ i * alpha ^ i"
    "alpha ^ (3 * i) = alpha ^ i * (alpha ^ i * alpha ^ i)"
    "alpha ^ (4 * i) = alpha ^ i * (alpha ^ i * (alpha ^ i * alpha ^ i))"
    by (simp_all add: eval_nat_numeral power_add)
  let ?a = "alpha ^ i"
  have "ev i (gm 17 fb, p0 XOR gm 9 fb, p1 XOR gm 6 fb, p2 XOR gm 30 fb) =
      sym p0 * ?a + sym p1 * alpha ^ (2 * i) + sym p2 * alpha ^ (3 * i) +
      (sym 17 + sym 9 * ?a + sym 6 * alpha ^ (2 * i) + sym 30 * alpha ^ (3 * i)) * sym fb"
    using b by (simp add: ev_def sym_xor sym_gm algebra_simps)
  also have "\<dots> = sym p0 * ?a + sym p1 * alpha ^ (2 * i) + sym p2 * alpha ^ (3 * i) +
      alpha ^ (4 * i) * (sym c + sym p3)"
    using generator_roots [OF assms(3)] fb by simp
  also have "\<dots> = ?a * ev i (p0, p1, p2, p3) + sym c * alpha ^ (4 * i)"
    unfolding ev_def pw prod.case by (simp add: algebra_simps)
  finally show ?thesis .
qed

lemma enc_parity_correct:
  assumes "length cw = 17" "\<forall>j < n. cw ! j < 32" "n \<le> 17" "par_ok p"
  shows "\<exists>p'. enc_parity cw (rev [0..<n]) p = Some p' \<and> par_ok p' \<and>
    (\<forall>i \<in> {1..4}. ev i p' = alpha ^ (i * n) * ev i p + (\<Sum>j<n. sym (cw ! j) * alpha ^ (i * (j + 4))))"
  using assms
proof (induction n arbitrary: p)
  case 0
  then show ?case by simp
next
  case (Suc n)
  obtain p0 p1 p2 p3 where p: "p = (p0, p1, p2, p3)" by (cases p)
  let ?fb = "cw ! n XOR p3"
  let ?q = "(gm 17 ?fb, p0 XOR gm 9 ?fb, p1 XOR gm 6 ?fb, p2 XOR gm 30 ?fb)"
  have b: "cw ! n < 32" "?fb < 32" "par_ok ?q" using Suc.prems by (auto simp: p par_ok_def)
  have u: "enc_parity cw (rev [0..<Suc n]) p = enc_parity cw (rev [0..<n]) ?q"
    using Suc.prems b by (simp add: p Let_def)
  have "ev i ?q = alpha ^ i * ev i p + sym (cw ! n) * alpha ^ (4 * i)" if "i \<in> {1..4}" for i
    using ev_step [OF _ b(1) that] Suc.prems(4) by (simp add: p)
  then have e: "alpha ^ (i * n) * ev i ?q =
      alpha ^ (i * Suc n) * ev i p + sym (cw ! n) * alpha ^ (i * (n + 4))" if "i \<in> {1..4}" for i
    using that by (simp add: algebra_simps power_add)
  obtain p' where p': "enc_parity cw (rev [0..<n]) ?q = Some p'" "par_ok p'"
    "\<forall>i \<in> {1..4}. ev i p' = alpha ^ (i * n) * ev i ?q + (\<Sum>j<n. sym (cw ! j) * alpha ^ (i * (j + 4)))"
    using Suc.IH [of ?q] Suc.prems b by auto
  then show ?case using u e by (auto simp: add.assoc add.commute)
qed

lemma alpha_wrap: "alpha ^ (i * 27) * alpha ^ (i * (j + 4)) = alpha ^ (i * j)"
proof -
  have "i * 27 + i * (j + 4) = 31 * i + i * j" by (simp add: algebra_simps)
  then have "alpha ^ (i * 27) * alpha ^ (i * (j + 4)) = (alpha ^ 31) ^ i * alpha ^ (i * j)"
    unfolding power_add [symmetric] power_mult [symmetric] by simp
  then show ?thesis by (simp only: alpha_31 power_one mult_1)
qed

lemma parity_valid:
  assumes "length cw = 17" "\<forall>c \<in> set cw. c < 32"
  shows "\<exists>p0 p1 p2 p3. enc_parity cw (rev [0..<13]) (0, 0, 0, 0) = Some (p0, p1, p2, p3) \<and>
    is_codeword (take 13 cw @ [p0, p1, p2, p3]) \<and>
    isCodewordValid (take 13 cw @ [p0, p1, p2, p3]) = Some True"
proof -
  have "\<exists>p'. enc_parity cw (rev [0..<13]) (0, 0, 0, 0) = Some p' \<and> par_ok p' \<and>
    (\<forall>i \<in> {1..4}. ev i p' = alpha ^ (i * 13) * ev i (0, 0, 0, 0) +
      (\<Sum>j<13. sym (cw ! j) * alpha ^ (i * (j + 4))))"
    using assms by (intro enc_parity_correct) (auto simp: par_ok_def)
  then obtain p0 p1 p2 p3 where p: "enc_parity cw (rev [0..<13]) (0, 0, 0, 0) = Some (p0, p1, p2, p3)"
    "par_ok (p0, p1, p2, p3)"
    and e: "\<And>i. i \<in> {1..4} \<Longrightarrow> ev i (p0, p1, p2, p3) = (\<Sum>j<13. sym (cw ! j) * alpha ^ (i * (j + 4)))"
    by (fastforce simp: ev_def)
  let ?cw = "take 13 cw @ [p0, p1, p2, p3]"
  have ok: "is_codeword ?cw"
    using assms p(2) by (auto simp: is_codeword_def par_ok_def dest: in_set_takeD)
  have "synd ?cw i = 0" if i: "i \<in> {1..4}" for i
  proof -
    have "(\<Sum>k<4. sym (?cw ! (13 + k)) * alpha ^ (i * (27 + k))) = alpha ^ (i * 27) * ev i (p0, p1, p2, p3)"
      using assms by (simp add: ev_def lessThan_nat_numeral lessThan_Suc nth_append algebra_simps power_add
          flip: power_mult)
    also have "\<dots> = (\<Sum>j<13. sym (cw ! j) * alpha ^ (i * j))"
      by (simp add: e [OF i] sum_distrib_left mult.left_commute [of "alpha ^ _" "sym _"] alpha_wrap)
    also have "\<dots> = (\<Sum>j<13. sym (?cw ! j) * alpha ^ (i * j))"
      using assms by (intro sum.cong) (auto simp: nth_append)
    finally show ?thesis by (simp add: synd_split)
  qed
  then show ?thesis using p(1) ok by (simp add: isCodewordValid_synd)
qed

section \<open>The text of an address\<close>

lemma alphabet_table:
  "list_all (\<lambda>c. alphabet_pos alphabet 0 (alphabet ! c) = Some c) [0..<32]"
  by code_simp

lemma alphabet_pos_nth [simp]: "c < 32 \<Longrightarrow> alphabet_pos alphabet 0 (alphabet ! c) = Some c"
  using alphabet_table by (simp add: list_all_iff)

lemma alphabet_pos_dash [simp]: "alphabet_pos alphabet 0 CHR ''-'' = None"
  by code_simp

lemma alphabet_pos_bound: "alphabet_pos as j ch = Some k \<Longrightarrow> j \<le> k \<and> k < j + length as"
proof (induction as arbitrary: j)
  case Nil
  then show ?case by simp
next
  case (Cons a as)
  then show ?case by (fastforce split: if_splits)
qed

lemma alphabet_pos_less [bounds]: "alphabet_pos alphabet 0 ch = Some k \<Longrightarrow> k < 32"
  using alphabet_pos_bound [of alphabet 0 ch k] by simp

definition address_text :: "nat list \<Rightarrow> string" where
  "address_text cw =
     (let s = (\<lambda>i. alphabet ! (cw ! (codewordMap ! i)))
      in [s 0, s 1, s 2, s 3, CHR ''-'', s 4, s 5, s 6, s 7, CHR ''-'',
          s 8, s 9, s 10, s 11, CHR ''-'', s 12, s 13, s 14, s 15, s 16])"

lemma length_17: "length xs = 17 \<longleftrightarrow> (\<exists>c0 c1 c2 c3 c4 c5 c6 c7 c8 c9 c10 c11 c12 c13 c14 c15 c16.
  xs = [c0, c1, c2, c3, c4, c5, c6, c7, c8, c9, c10, c11, c12, c13, c14, c15, c16])"
  by (auto simp: eval_nat_numeral length_Suc_conv)

lemma and_3: "(x::nat) AND 3 = x mod 4"
  using take_bit_eq_mask [of 2 x] by (simp add: mask_eq_exp_minus_1 take_bit_eq_mod)

lemma enc_buff_step:
  assumes "is_codeword cw" "i < 17" "j + 1 < length buff \<or> (j < length buff \<and> \<not> (i mod 4 = 3 \<and> i < 13))"
  shows "enc_buff cw i j buff =
    (let buff' = buff[j := alphabet ! (cw ! (codewordMap ! i))]
     in if i mod 4 = 3 \<and> i < 13 then enc_buff cw (i + 1) (j + 2) (buff'[j + 1 := CHR ''-''])
        else enc_buff cw (i + 1) (j + 1) buff')"
proof -
  have "list_all (\<lambda>i. codewordMap ! i < 17) [0..<17]" by code_simp
  then have m: "codewordMap ! i < 17" using assms(2) by (simp add: list_all_iff)
  then have "cw ! (codewordMap ! i) < 32" using assms(1) by (rule is_codeword_nth [rotated])
  then show ?thesis
    using assms m by (subst enc_buff.simps) (auto simp: initialCodewordLen_def is_codeword_def Let_def and_3)
qed

lemma enc_buff_done: "enc_buff cw 17 j buff = Some buff"
  by (simp add: enc_buff.simps initialCodewordLen_def)

lemma enc_buff_text:
  assumes "is_codeword cw"
  shows "enc_buff cw 0 0 (replicate 20 z) = Some (address_text cw)"
proof -
  have r: "replicate 20 z = [z, z, z, z, z, z, z, z, z, z, z, z, z, z, z, z, z, z, z, z]"
    by (simp add: eval_nat_numeral)
  have one: "(case (1::nat) of 0 \<Rightarrow> a | Suc j \<Rightarrow> f j) = f 0" for a :: string and f by simp
  show ?thesis unfolding r
    by (simp add: enc_buff_step [OF assms] enc_buff_done address_text_def Let_def one del: One_nat_def)
qed

lemma dec_scan_text:
  assumes "is_codeword cw"
  shows "dec_scan (address_text cw) initialCodeword 0 = Some (Inr (cw, 17))"
proof -
  obtain c0 c1 c2 c3 c4 c5 c6 c7 c8 c9 c10 c11 c12 c13 c14 c15 c16 where
    c: "cw = [c0, c1, c2, c3, c4, c5, c6, c7, c8, c9, c10, c11, c12, c13, c14, c15, c16]"
    using assms by (auto simp: is_codeword_def length_17)
  show ?thesis using assms unfolding c is_codeword_def
    by (simp add: address_text_def initialCodeword_def codewordMap_def Let_def)
qed

section \<open>Encode and Decode\<close>

definition id_digits :: "nat \<Rightarrow> nat list" where
  "id_digits N = map (\<lambda>j. N div 32 ^ j mod 32) [0..<13]"

lemma length_id_digits [simp]: "length (id_digits N) = 13"
  by (simp add: id_digits_def)

lemma id_digits_value: "N < 2 ^ 65 \<Longrightarrow> val_of 32 (rev (id_digits N)) = N"
  using val_of_digits [of 32 N 13] by (simp add: id_digits_def)

lemma plain_digits_FormatUint:
  "\<exists>p. plain_digits (FormatUint n) = Some p \<and> length p = 20 \<and>
     take (length (FormatUint n)) p = digits10 (unat n)"
proof -
  have "map (\<lambda>c. of_char c - 48) (FormatUint n) = digits10 (unat n)"
    by (auto simp: FormatUint_def digit_char_code digits10_less intro!: map_idI)
  moreover have "length (FormatUint n) = length (digits10 (unat n))" by (simp add: FormatUint_def)
  ultimately show ?thesis using FormatUint_length [of n] by (simp add: plain_digits_def base10Len_def)
qed

lemma Encode_correct:
  "\<exists>cw. Encode n = Some (address_text cw) \<and> is_codeword cw \<and>
     isCodewordValid cw = Some True \<and> take 13 cw = id_digits (unat n)"
proof -
  let ?s = "FormatUint n" and ?cw0 = "replicate 17 (0::nat)"
  obtain p where p: "plain_digits ?s = Some p" "length p = 20" "take (length ?s) p = digits10 (unat n)"
    using plain_digits_FormatUint by blast
  have "\<exists>cw'. enc_convert p (length ?s) ?cw0 0 = Some cw' \<and> length cw' = length ?cw0 \<and>
    (\<forall>j < 0. cw' ! j = ?cw0 ! j) \<and>
    (\<forall>j. 0 + j < length ?cw0 \<longrightarrow> cw' ! (0 + j) = unat n div 32 ^ j mod 32)"
    using p FormatUint_length [of n] unat_uint64_less [of n]
    by (intro enc_convert_correct) (auto simp: digits10_less)
  then obtain cw where cw: "enc_convert p (length ?s) ?cw0 0 = Some cw" "length cw = 17"
    "\<forall>j < 17. cw ! j = unat n div 32 ^ j mod 32" by auto
  then have "\<forall>c \<in> set cw. c < 32" by (auto simp: in_set_conv_nth)
  from parity_valid [OF cw(2) this] obtain p0 p1 p2 p3 where
    q: "enc_parity cw (rev [0..<13]) (0, 0, 0, 0) = Some (p0, p1, p2, p3)"
    "is_codeword (take 13 cw @ [p0, p1, p2, p3])"
    "isCodewordValid (take 13 cw @ [p0, p1, p2, p3]) = Some True" by blast
  have "take 13 cw = id_digits (unat n)"
    using cw by (intro nth_equalityI) (auto simp: id_digits_def)
  moreover have "Encode n = Some (address_text (take 13 cw @ [p0, p1, p2, p3]))"
    using p cw q(1) enc_buff_text [OF q(2)]
    by (simp add: Encode_def initialCodewordLen_def base32Len_def Let_def del: replicate.simps)
  ultimately show ?thesis using q cw(2) by (intro exI [of _ "take 13 cw @ [p0, p1, p2, p3]"]) simp
qed

lemma dec_convert_total:
  assumes "is_codeword cw"
  defines "N \<equiv> val_of 32 (rev (take 13 cw))"
  shows "\<exists>pp k. dec_convert (rev (take 13 cw)) 13 (replicate 20 z) 0 = Some (pp, k) \<and>
    drop (19 - k) pp = map digit_char (digits10 N)"
proof -
  have d: "\<forall>c \<in> set (rev (take 13 cw)). c < 32" and l: "length (rev (take 13 cw)) = 13"
    using assms(1) by (auto simp: is_codeword_def dest: in_set_takeD)
  have "N < 10 ^ 20" using val_of_less [OF d] l by (simp add: N_def)
  then have "\<exists>pp k. dec_convert (rev (take 13 cw)) 13 (replicate 20 z) 0 = Some (pp, k) \<and> k \<le> 19 \<and>
    length pp = 20 \<and> drop (19 - k) pp = map digit_char (digits10 N) @ drop (20 - 0) (replicate 20 z)"
    using d l by (intro dec_convert_correct) (simp_all add: N_def)
  then show ?thesis by auto
qed

text \<open>What \<open>Decode\<close> does with a scanned codeword.\<close>

lemma Decode_codeword:
  assumes "dec_scan s initialCodeword 0 = Some (Inr (cw, 17))" "is_codeword cw"
  shows "Decode s = Some
    (if isCodewordValid cw = Some True
     then let N = val_of 32 (rev (take 13 cw)) in
       if N < 2 ^ 64 then Inr (of_nat N) else Inl (PlainPartsError ErrRange)
     else Inl CodewordInvalid)"
proof -
  obtain v where v: "isCodewordValid cw = Some v" using isCodewordValid_synd [OF assms(2)] by blast
  obtain pp k where pp: "dec_convert (rev (take 13 cw)) 13 (replicate 20 (char_of (0::nat))) 0 = Some (pp, k)"
    "drop (19 - k) pp = map digit_char (digits10 (val_of 32 (rev (take 13 cw))))"
    using dec_convert_total [OF assms(2)] by blast
  have "ParseUint (drop (19 - k) pp) = (let N = val_of 32 (rev (take 13 cw)) in
      if N < 2 ^ 64 then Inr (of_nat N) else Inl ErrRange)"
    unfolding pp(2) by (subst ParseUint_digits) (simp_all add: digits10_less Let_def)
  then show ?thesis using assms v pp(1)
    by (cases v) (simp_all add: Decode_def initialCodewordLen_def base32Len_def Let_def del: replicate.simps)
qed

lemma Decode_Encode: "\<exists>s. Encode n = Some s \<and> Decode s = Some (Inr n)"
proof -
  obtain cw where cw: "Encode n = Some (address_text cw)" "is_codeword cw"
    "isCodewordValid cw = Some True" "take 13 cw = id_digits (unat n)"
    using Encode_correct by blast
  have "val_of 32 (rev (take 13 cw)) = unat n"
    using cw(4) unat_uint64_less [of n] by (simp add: id_digits_value)
  then have "Decode (address_text cw) = Some (Inr n)"
    using Decode_codeword [OF dec_scan_text cw(2)] cw unat_uint64_less [of n] by simp
  then show ?thesis using cw(1) by blast
qed

text \<open>No input makes \<open>Decode\<close> panic: a scan keeps the codeword well formed.\<close>

lemma is_codeword_upd: "is_codeword cw \<Longrightarrow> v < 32 \<Longrightarrow> is_codeword (cw[i := v])"
  using set_update_subset_insert [of cw i v] by (auto simp: is_codeword_def)

lemma codewordMap_less [bounds]: "i < 17 \<Longrightarrow> codewordMap ! i < 17"
proof -
  have "list_all (\<lambda>i. codewordMap ! i < 17) [0..<17]" by code_simp
  then show "i < 17 \<Longrightarrow> codewordMap ! i < 17" by (simp add: list_all_iff)
qed

lemma dec_scan_total:
  assumes "is_codeword cw" "n \<le> 17"
  shows "dec_scan s cw n = Some (Inl CodewordTooLong) \<or>
    (\<exists>cw' n'. dec_scan s cw n = Some (Inr (cw', n')) \<and> is_codeword cw' \<and> n' \<le> 17)"
  using assms
proof (induction s arbitrary: cw n)
  case Nil
  then show ?case by simp
next
  case (Cons ch s)
  show ?case
  proof (cases "alphabet_pos alphabet 0 ch")
    case None
    then show ?thesis using Cons by simp
  next
    case (Some pos)
    show ?thesis
    proof (cases "16 < n")
      case True
      then show ?thesis using Some by simp
    next
      case False
      then have "codewordMap ! n < length cw"
        using codewordMap_less [of n] Cons.prems by (simp add: is_codeword_def)
      moreover have "is_codeword (cw[codewordMap ! n := pos])"
        using Cons.prems Some by (intro is_codeword_upd) (simp_all add: alphabet_pos_less)
      ultimately show ?thesis using Some False Cons.IH by simp
    qed
  qed
qed

lemma is_codeword_initial: "is_codeword initialCodeword"
  by (simp add: is_codeword_def initialCodeword_def)

lemma Decode_total_aux: "\<exists>r. Decode s = Some r"
proof -
  consider "dec_scan s initialCodeword 0 = Some (Inl CodewordTooLong)"
    | cw n where "dec_scan s initialCodeword 0 = Some (Inr (cw, n))" "is_codeword cw" "n \<le> 17"
    using dec_scan_total [OF is_codeword_initial, of 0 s] by auto
  then show ?thesis
  proof cases
    case 1
    then show ?thesis by (simp add: Decode_def)
  next
    case 2
    then show ?thesis using Decode_codeword [of s cw]
      by (cases "n = 17") (auto simp: Decode_def initialCodewordLen_def)
  qed
qed

section \<open>Syndromes as sums over the codeword positions\<close>

text \<open>The exponent at which the syndrome sums weigh a codeword position.\<close>

definition weight_pos :: "nat \<Rightarrow> nat" where
  "weight_pos k = (if k < 13 then k else k + 14)"

lemma weight_pos_less [bounds]: "k < 17 \<Longrightarrow> weight_pos k < 31"
  by (simp add: weight_pos_def)

lemma weight_pos_inj: "j < 17 \<Longrightarrow> k < 17 \<Longrightarrow> weight_pos j = weight_pos k \<longleftrightarrow> j = k"
  by (simp add: weight_pos_def)

lemma synd_positions: "synd cw i = (\<Sum>k<17. sym (cw ! k) * alpha ^ (i * weight_pos k))"
proof -
  have u: "{..<17::nat} = {..<13} \<union> {13..<17}" by auto
  have "(\<Sum>k<17. sym (cw ! k) * alpha ^ (i * weight_pos k)) =
      (\<Sum>k<13. sym (cw ! k) * alpha ^ (i * weight_pos k)) +
      (\<Sum>k \<in> {13..<17}. sym (cw ! k) * alpha ^ (i * weight_pos k))"
    unfolding u by (rule sum.union_disjoint) auto
  also have "(\<Sum>k \<in> {13..<17}. sym (cw ! k) * alpha ^ (i * weight_pos k)) =
      (\<Sum>k<4. sym (cw ! (13 + k)) * alpha ^ (i * weight_pos (13 + k)))"
    by (rule sum.reindex_bij_witness [of _ "\<lambda>k. 13 + k" "\<lambda>k. k - 13"]) auto
  finally show ?thesis by (simp add: synd_split weight_pos_def add.commute)
qed

interpretation address: codec "\<lambda>n. the (Encode n)"
    "\<lambda>s. case Decode s of Some (Inr n) \<Rightarrow> Some n | _ \<Rightarrow> None"
proof
  fix n
  obtain s where "Encode n = Some s" "Decode s = Some (Inr n)" using Decode_Encode by blast
  then show "(case Decode (the (Encode n)) of Some (Inr n) \<Rightarrow> Some n | _ \<Rightarrow> None) = Some n" by simp
qed

end
