(* ===== verification/RSDistance.thy ===== *)
theory RSDistance
  imports RSCorrect
begin

text \<open>
  Error detection of the address format. Four vanishing syndromes force two different codewords
  to differ in at least five of their seventeen symbols, so up to four mistyped symbols of an
  address are always noticed, and an accepted address is determined by its account id.
\<close>

section \<open>A Vandermonde argument\<close>

lemma power_sums_zero:
  fixes e x :: "'k \<Rightarrow> 'f :: field"
  assumes "finite S" "inj_on x S" "\<forall>k \<in> S. x k \<noteq> 0"
    and "\<forall>i \<in> {1..card S}. (\<Sum>k\<in>S. e k * x k ^ i) = 0"
  shows "\<forall>k \<in> S. e k = 0"
  using assms
proof (induction S arbitrary: e rule: finite_induct)
  case empty
  show ?case by simp
next
  case (insert m S)
  let ?s = "\<lambda>i. \<Sum>k\<in>insert m S. e k * x k ^ i"
  have x: "x k \<noteq> x m" if "k \<in> S" for k
    using insert.prems(1) insert.hyps that by (auto simp: inj_on_def)
  have "(\<Sum>k\<in>S. (e k * (x k - x m)) * x k ^ i) = 0" if i: "i \<in> {1..card S}" for i
  proof -
    have "?s (Suc i) - x m * ?s i = (\<Sum>k\<in>insert m S. (e k * (x k - x m)) * x k ^ i)"
      by (simp only: sum_distrib_left sum_subtractf [symmetric]) (simp add: algebra_simps)
    moreover have "i \<in> {1..card (insert m S)}" "Suc i \<in> {1..card (insert m S)}"
      using insert.hyps i by auto
    then have "?s (Suc i) = 0" "?s i = 0" using insert.prems(3) by blast+
    ultimately show ?thesis using insert.hyps by simp
  qed
  moreover have "inj_on x S" "\<forall>k \<in> S. x k \<noteq> 0" using insert.prems by auto
  ultimately have "\<forall>k \<in> S. e k * (x k - x m) = 0" by (intro insert.IH) blast+
  then have S: "\<forall>k \<in> S. e k = 0" using x by auto
  have "1 \<in> {1..card (insert m S)}" using insert.hyps by simp
  then have "?s 1 = 0" using insert.prems(3) by blast
  then have "e m * x m = 0" using insert.hyps S by simp
  then show ?case using S insert.prems(2) by simp
qed

section \<open>The minimum distance of the code\<close>

definition diffs :: "nat list \<Rightarrow> nat list \<Rightarrow> nat set" where
  "diffs xs ys = {k. k < 17 \<and> xs ! k \<noteq> ys ! k}"

lemma finite_diffs [simp]: "finite (diffs xs ys)"
  by (simp add: diffs_def)

lemma synd_diff:
  "synd a i + synd b i = (\<Sum>k \<in> diffs a b. (sym (a ! k) + sym (b ! k)) * (alpha ^ weight_pos k) ^ i)"
proof -
  have "synd a i + synd b i = (\<Sum>k<17. (sym (a ! k) + sym (b ! k)) * (alpha ^ weight_pos k) ^ i)"
    by (simp add: synd_positions distrib_right mult.commute [of i] power_mult flip: sum.distrib)
  also have "\<dots> = (\<Sum>k \<in> diffs a b. (sym (a ! k) + sym (b ! k)) * (alpha ^ weight_pos k) ^ i)"
    by (rule sum.mono_neutral_right) (auto simp: diffs_def)
  finally show ?thesis .
qed

lemma min_distance:
  assumes "is_codeword a" "is_codeword b"
    and "isCodewordValid a = Some True" "isCodewordValid b = Some True" "a \<noteq> b"
  shows "5 \<le> card (diffs a b)"
proof (rule ccontr)
  assume "\<not> 5 \<le> card (diffs a b)"
  then have c: "{1..card (diffs a b)} \<subseteq> {1..4}" by auto
  have z: "synd a i = 0" "synd b i = 0" if "i \<in> {1..4}" for i
    using assms that by (auto simp: isCodewordValid_synd)
  have "\<forall>k \<in> diffs a b. sym (a ! k) + sym (b ! k) = 0"
  proof (rule power_sums_zero)
    show "inj_on (\<lambda>k. alpha ^ weight_pos k) (diffs a b)"
      by (rule inj_onI) (simp add: diffs_def alpha_power_inj weight_pos_less weight_pos_inj)
    show "\<forall>i \<in> {1..card (diffs a b)}.
        (\<Sum>k \<in> diffs a b. (sym (a ! k) + sym (b ! k)) * (alpha ^ weight_pos k) ^ i) = 0"
      using c z by (auto simp: synd_diff [symmetric] subset_iff)
  qed simp_all
  then have "diffs a b = {}"
    using assms(1,2) by (fastforce simp: gf32_add_eq_0_iff diffs_def sym_eq_iff is_codeword_nth)
  then have "a = b" using assms(1,2)
    by (intro nth_equalityI) (auto simp: diffs_def is_codeword_def)
  then show False using assms(5) by simp
qed

section \<open>The symbols of an address\<close>

definition symbols :: "string \<Rightarrow> nat list" where
  "symbols s = List.map_filter (alphabet_pos alphabet 0) s"

fun place :: "nat list \<Rightarrow> nat \<Rightarrow> nat list \<Rightarrow> nat list" where
  "place cw n [] = cw"
| "place cw n (x # xs) = place (cw[codewordMap ! n := x]) (Suc n) xs"

lemma symbols_simps [simp]:
  "symbols [] = []"
  "symbols (ch # s) =
     (case alphabet_pos alphabet 0 ch of None \<Rightarrow> symbols s | Some c \<Rightarrow> c # symbols s)"
  by (simp_all add: symbols_def map_filter_simps split: option.splits)

lemma dec_scan_symbols:
  assumes "length cw = 17" "n \<le> 17"
  shows "dec_scan s cw n =
    (if n + length (symbols s) \<le> 17
     then Some (Inr (place cw n (symbols s), n + length (symbols s)))
     else Some (Inl CodewordTooLong))"
  using assms
proof (induction s arbitrary: cw n)
  case Nil
  then show ?case by simp
next
  case (Cons ch s)
  show ?case
  proof (cases "alphabet_pos alphabet 0 ch")
    case None
    then show ?thesis using Cons by simp
  next
    case (Some c)
    then show ?thesis
      using Cons.prems Cons.IH [of "cw[codewordMap ! n := c]" "Suc n"] codewordMap_less [of n]
      by (cases "16 < n") auto
  qed
qed

lemma codewordMap_distinct: "distinct codewordMap"
  by code_simp

lemma codewordMap_inj: "i < 17 \<Longrightarrow> j < 17 \<Longrightarrow> codewordMap ! i = codewordMap ! j \<longleftrightarrow> i = j"
  using codewordMap_distinct by (simp add: nth_eq_iff_index_eq)

lemma place_nth:
  assumes "length cw = 17" "n + length xs \<le> 17" "j < 17"
  shows "place cw n xs ! (codewordMap ! j) =
    (if n \<le> j \<and> j < n + length xs then xs ! (j - n) else cw ! (codewordMap ! j))"
  using assms
proof (induction xs arbitrary: cw n)
  case Nil
  then show ?case by simp
next
  case (Cons x xs)
  have "codewordMap ! n < length cw" using Cons.prems codewordMap_less [of n] by simp
  then have "cw[codewordMap ! n := x] ! (codewordMap ! j) =
      (if j = n then x else cw ! (codewordMap ! j))"
    using Cons.prems codewordMap_inj [of n j] by (auto simp: nth_list_update)
  then show ?case
    using Cons.IH [of "cw[codewordMap ! n := x]" "Suc n"] Cons.prems
    by (auto simp: nth_Cons' Suc_diff_Suc)
qed

lemma codewordMap_surj: "k < 17 \<Longrightarrow> \<exists>i < 17. codewordMap ! i = k"
proof -
  have "list_all (\<lambda>k. k \<in> set codewordMap) [0..<17]" by code_simp
  then show "k < 17 \<Longrightarrow> \<exists>i < 17. codewordMap ! i = k"
    by (auto simp: list_all_iff in_set_conv_nth)
qed

text \<open>An accepted address and the codeword it denotes.\<close>

lemma Decode_accepted:
  assumes "Decode s = Some (Inr n)"
  obtains cw where "length (symbols s) = 17" "is_codeword cw" "isCodewordValid cw = Some True"
    "\<And>i. i < 17 \<Longrightarrow> cw ! (codewordMap ! i) = symbols s ! i"
    "unat n = val_of 32 (rev (take 13 cw))"
proof -
  let ?cw = "place initialCodeword 0 (symbols s)"
  have ini: "length initialCodeword = 17" by (simp add: initialCodeword_def)
  have scan: "dec_scan s initialCodeword 0 =
      (if length (symbols s) \<le> 17 then Some (Inr (?cw, length (symbols s)))
       else Some (Inl CodewordTooLong))"
    using dec_scan_symbols [OF ini, of 0 s] by simp
  have l: "length (symbols s) = 17"
    using assms by (auto simp: Decode_def scan initialCodewordLen_def split: if_splits)
  with scan dec_scan_total [OF is_codeword_initial, of 0 s] have cw: "is_codeword ?cw"
    and sc: "dec_scan s initialCodeword 0 = Some (Inr (?cw, 17))" by auto
  have "isCodewordValid ?cw = Some True \<and> unat n = val_of 32 (rev (take 13 ?cw))"
    using assms Decode_codeword [OF sc cw]
    by (auto simp: Let_def unat_of_nat split: if_splits)
  moreover have "?cw ! (codewordMap ! i) = symbols s ! i" if "i < 17" for i
    using place_nth [OF ini, of 0 "symbols s" i] l that by simp
  ultimately show thesis using that l cw by blast
qed

lemma address_distance:
  assumes "Decode a = Some (Inr m)" "Decode b = Some (Inr n)" "symbols a \<noteq> symbols b"
  shows "5 \<le> card (diffs (symbols a) (symbols b))"
proof -
  obtain ca where a: "length (symbols a) = 17" "is_codeword ca" "isCodewordValid ca = Some True"
    "\<And>i. i < 17 \<Longrightarrow> ca ! (codewordMap ! i) = symbols a ! i" using Decode_accepted [OF assms(1)] by metis
  obtain cb where b: "length (symbols b) = 17" "is_codeword cb" "isCodewordValid cb = Some True"
    "\<And>i. i < 17 \<Longrightarrow> cb ! (codewordMap ! i) = symbols b ! i" using Decode_accepted [OF assms(2)] by metis
  have "ca \<noteq> cb"
  proof
    assume "ca = cb"
    then have "symbols a = symbols b" using a b by (intro nth_equalityI) auto
    then show False using assms(3) by simp
  qed
  then have "5 \<le> card (diffs ca cb)" using min_distance a b by blast
  also have "diffs ca cb = (\<lambda>i. codewordMap ! i) ` diffs (symbols a) (symbols b)"
  proof (intro equalityI subsetI)
    fix k assume "k \<in> diffs ca cb"
    moreover from this obtain i where "i < 17" "codewordMap ! i = k"
      using codewordMap_surj [of k] by (auto simp: diffs_def)
    ultimately show "k \<in> (\<lambda>i. codewordMap ! i) ` diffs (symbols a) (symbols b)"
      using a(4) b(4) by (force simp: diffs_def)
  next
    fix k assume "k \<in> (\<lambda>i. codewordMap ! i) ` diffs (symbols a) (symbols b)"
    then show "k \<in> diffs ca cb"
      using a(4) b(4) by (auto simp: diffs_def codewordMap_less)
  qed
  also have "card \<dots> \<le> card (diffs (symbols a) (symbols b))" by (simp add: card_image_le)
  finally show ?thesis .
qed

text \<open>Two accepted addresses of the same account carry the same symbols.\<close>

lemma Decode_symbols_unique:
  assumes "Decode a = Some (Inr n)" "Decode b = Some (Inr n)"
  shows "symbols a = symbols b"
proof (rule ccontr)
  assume ne: "symbols a \<noteq> symbols b"
  obtain ca where a: "is_codeword ca" "\<And>i. i < 17 \<Longrightarrow> ca ! (codewordMap ! i) = symbols a ! i"
    "unat n = val_of 32 (rev (take 13 ca))" using Decode_accepted [OF assms(1)] by metis
  obtain cb where b: "is_codeword cb" "\<And>i. i < 17 \<Longrightarrow> cb ! (codewordMap ! i) = symbols b ! i"
    "unat n = val_of 32 (rev (take 13 cb))" using Decode_accepted [OF assms(2)] by metis
  have "rev (take 13 ca) = rev (take 13 cb)"
    using a b by (intro val_of_inj [where b = 32]) (auto simp: is_codeword_def dest: in_set_takeD)
  then have t: "ca ! k = cb ! k" if "k < 13" for k using that by (metis nth_take rev_rev_ident)
  have "diffs (symbols a) (symbols b) \<subseteq> {i. i < 17 \<and> 13 \<le> codewordMap ! i}"
  proof
    fix i assume i: "i \<in> diffs (symbols a) (symbols b)"
    then have "ca ! (codewordMap ! i) \<noteq> cb ! (codewordMap ! i)" using a(2) b(2) by (simp add: diffs_def)
    then have "\<not> codewordMap ! i < 13" using t by blast
    then show "i \<in> {i. i < 17 \<and> 13 \<le> codewordMap ! i}" using i by (simp add: diffs_def)
  qed
  moreover have "{i. i < 17 \<and> 13 \<le> codewordMap ! i} = {8..<12}"
  proof -
    have "list_all (\<lambda>i. 13 \<le> codewordMap ! i \<longleftrightarrow> i \<in> {8..<12}) [0..<17]" by code_simp
    then show ?thesis by (fastforce simp: list_all_iff)
  qed
  ultimately have "card (diffs (symbols a) (symbols b)) \<le> card {8..<12::nat}"
    by (intro card_mono) auto
  with address_distance [OF assms ne] show False by simp
qed

section \<open>Multiplication by shifting and reducing\<close>

text \<open>
  A reference for \<^verbatim>\<open>gmult\<close> without tables: the product of two polynomials over two elements, reduced
  modulo \<open>x^5 + x^2 + 1\<close> while the second factor is consumed bit by bit.
\<close>

fun poly_mult :: "nat \<Rightarrow> nat \<Rightarrow> nat" where
  "poly_mult x y = (if y = 0 then 0
     else (if odd y then x else 0) XOR poly_mult (xtime x) (y div 2))"

declare poly_mult.simps [simp del]

lemma xtime_double: "z < 16 \<Longrightarrow> xtime z = 2 * z"
  by (simp add: xtime_def bit_iff_odd)

lemma xtime_less [bounds]: "x < 32 \<Longrightarrow> xtime x < 32"
  by (simp flip: gm_2)

lemma even_xor_bit: "(y::nat) = (2 * (y div 2)) XOR (y mod 2)"
proof (cases "odd y")
  case True
  then have "y = 2 * (y div 2) + 1" "y mod 2 = 1" by presburger+
  moreover have "(2 * (y div 2)) XOR 1 = 2 * (y div 2) + 1" by (simp only: xor_one_eq) simp
  ultimately show ?thesis by metis
next
  case False
  then show ?thesis by simp
qed

lemma gm_poly_mult: "x < 32 \<Longrightarrow> y < 32 \<Longrightarrow> gm x y = poly_mult x y"
proof (induction y arbitrary: x rule: less_induct)
  case (less y)
  show ?case
  proof (cases "y = 0")
    case True
    then show ?thesis by (simp add: poly_mult.simps)
  next
    case False
    have h: "y div 2 < y" "y div 2 < 32" "y div 2 < 16" using False less.prems by simp_all
    have "gm x y = gm x (2 * (y div 2)) XOR gm x (y mod 2)"
      using less.prems h by (subst even_xor_bit) (rule gm_xor, auto)
    also have "gm x (2 * (y div 2)) = gm (xtime x) (y div 2)"
      using h less.prems by (simp flip: xtime_double gm_2) (metis gm_assoc gm_commute)
    also have "\<dots> = poly_mult (xtime x) (y div 2)"
      using less.IH [OF h(1) xtime_less] less.prems h by simp
    also have "gm x (y mod 2) = (if odd y then x else 0)"
      using less.prems gm_one [of x] by (auto simp: gm_commute [of x] odd_iff_mod_2_eq_one)
    finally show ?thesis using False by (subst poly_mult.simps) (simp add: xor.commute)
  qed
qed

section \<open>Properties of the address format\<close>

text \<open>C22. Encoding never panics and yields an address of 20 characters; decoding that address gives the
  account id back without an error, for every 64-bit account id.\<close>

theorem address_roundtrip:
  "\<exists>s. Encode n = Some s \<and> length s = 20 \<and> Decode s = Some (Inr n)"
proof -
  obtain cw where "Encode n = Some (address_text cw)" using Encode_correct by blast
  moreover have "length (address_text cw) = 20" by (simp add: address_text_def)
  ultimately show ?thesis using Decode_Encode [of n] by auto
qed

text \<open>C23. Whatever text a client sends, decoding returns an id or an error: no index of the scan, of the
  syndrome loops or of the base conversion is ever out of range.\<close>

theorem Decode_never_panics: "\<exists>r. Decode s = Some r"
  by (rule Decode_total_aux)

text \<open>C9. Error detection: if an address is accepted and at least one and at most four of its seventeen
  symbols are replaced by other symbols, the altered address is rejected.\<close>

theorem address_error_detection:
  assumes "Decode a = Some (Inr m)" and "length (symbols b) = 17"
    and "symbols a \<noteq> symbols b" and "card (diffs (symbols a) (symbols b)) \<le> 4"
  shows "\<exists>e. Decode b = Some (Inl e)"
proof -
  obtain r where r: "Decode b = Some r" using Decode_total_aux by blast
  show ?thesis
  proof (cases r)
    case (Inl e)
    with r show ?thesis by blast
  next
    case (Inr n)
    then have "5 \<le> card (diffs (symbols a) (symbols b))"
      using address_distance [OF assms(1) _ assms(3)] r by blast
    then show ?thesis using assms(4) by simp
  qed
qed

text \<open>An accepted address is the canonical one of its account: its symbols are those that encoding the
  decoded id produces, so only separators and characters outside the alphabet can differ.\<close>

theorem accepted_address_canonical:
  assumes "Decode s = Some (Inr n)"
  shows "\<exists>t. Encode n = Some t \<and> symbols t = symbols s"
  using Decode_Encode [of n] Decode_symbols_unique [OF _ assms] by blast

text \<open> The table-driven multiplication equals polynomial multiplication modulo \<open>x^5 + x^2 + 1\<close> on all
  five-bit values.\<close>

theorem gmult_is_field_multiplication:
  assumes "x < 32" and "y < 32"
  shows "gmult x y = Some (poly_mult x y)"
  using assms by (simp add: gm_poly_mult)

lemma zero_address: "Decode ''2222-2222-2222-22222'' = Some (Inr 0)"
proof -
  let ?cw = "replicate 17 (0::nat)"
  have ok: "is_codeword ?cw" by (simp add: is_codeword_def)
  have "alphabet ! (?cw ! (codewordMap ! i)) = CHR ''2''" if "i < 17" for i
    using codewordMap_less [OF that] by (simp add: alphabet_def)
  then have t: "address_text ?cw = ''2222-2222-2222-22222''"
    by (simp add: address_text_def del: replicate.simps)
  have "synd ?cw i = 0" for i by (simp add: synd_positions)
  then have "isCodewordValid ?cw = Some True" using isCodewordValid_synd [OF ok] by simp
  then show ?thesis
    using Decode_codeword [OF dec_scan_text [OF ok] ok] by (simp add: t del: replicate.simps)
qed

theorem address_error_detection_witness:
  "\<exists>e. Decode ''2222-2222-2222-22223'' = Some (Inl e)"
proof (rule address_error_detection [OF zero_address])
  show "length (symbols ''2222-2222-2222-22223'') = 17" by code_simp
  show "symbols ''2222-2222-2222-22222'' \<noteq> symbols ''2222-2222-2222-22223''" by code_simp
  have "diffs (symbols ''2222-2222-2222-22222'') (symbols ''2222-2222-2222-22223'') \<subseteq> {16}"
  proof
    fix k assume "k \<in> diffs (symbols ''2222-2222-2222-22222'') (symbols ''2222-2222-2222-22223'')"
    moreover have "list_all (\<lambda>k. symbols ''2222-2222-2222-22222'' ! k =
        symbols ''2222-2222-2222-22223'' ! k \<or> k = 16) [0..<17]" by code_simp
    ultimately show "k \<in> {16}" by (auto simp: diffs_def list_all_iff)
  qed
  then have "card (diffs (symbols ''2222-2222-2222-22222'') (symbols ''2222-2222-2222-22223'')) \<le> card {16::nat}"
    by (rule card_mono [rotated]) simp
  then show "card (diffs (symbols ''2222-2222-2222-22222'') (symbols ''2222-2222-2222-22223'')) \<le> 4"
    by simp
qed

theorem accepted_address_canonical_witness:
  "\<exists>t. Encode 0 = Some t \<and> symbols t = symbols ''2222-2222-2222-22222''"
  by (rule accepted_address_canonical [OF zero_address])

theorem gmult_is_field_multiplication_witness: "gmult 30 17 = Some (poly_mult 30 17)"
  by (rule gmult_is_field_multiplication) simp_all

end
