(* ===== verification/Float64.thy ===== *)
theory Float64
  imports Prelude "HOL-Library.Log_Nat"
begin

text \<open>
  Go's \<^verbatim>\<open>float64\<close>: IEEE 754 binary64 with rounding to nearest, ties to even. A finite value is the
  rational number it denotes; the sign of a zero is not represented, because no operation of the
  pool observes it (every divisor that can be zero is compared with \<open>0\<close> first, or is the
  conversion of an integer). Conversions to integers truncate; a value out of range gives the
  smallest integer, as the amd64 instructions do (the package \<^verbatim>\<open>burstmath\<close> requires SSE4 or AVX2, so
  the program runs on amd64 only).
\<close>

datatype float64 = F_NaN | F_PInf | F_NInf | F rat

section \<open>Rounding\<close>

text \<open>Rounding of a rational to an integer, ties to even.\<close>

definition rne :: "rat \<Rightarrow> int" where
  "rne x = (let f = \<lfloor>x\<rfloor>; d = x - of_int f in
     if d < 1/2 then f else if 1/2 < d then f + 1 else if even f then f else f + 1)"

text \<open>The binary exponent of a positive rational.\<close>

definition ilog2 :: "rat \<Rightarrow> int" where
  "ilog2 x = (case quotient_of x of (n, d) \<Rightarrow>
     let e = bitlen n - bitlen d in if 2 powi e \<le> x then e else e - 1)"

text \<open>The exponent of the last place of the binary64 numbers around \<open>x\<close>.\<close>

definition ulp_exp :: "rat \<Rightarrow> int" where
  "ulp_exp x = max (ilog2 \<bar>x\<bar> - 52) (- 1074)"

definition rnd :: "rat \<Rightarrow> rat" where
  "rnd x = (if x = 0 then 0 else let u = 2 powi ulp_exp x in of_int (rne (x / u)) * u)"

definition fl :: "rat \<Rightarrow> float64" where
  "fl x = (let r = rnd x in
     if 2 ^ 1024 \<le> r then F_PInf else if r \<le> - (2 ^ 1024) then F_NInf else F r)"

section \<open>Arithmetic\<close>

fun fadd :: "float64 \<Rightarrow> float64 \<Rightarrow> float64" where
  "fadd (F x) (F y) = fl (x + y)"
| "fadd F_NaN _ = F_NaN"
| "fadd _ F_NaN = F_NaN"
| "fadd F_PInf F_NInf = F_NaN"
| "fadd F_NInf F_PInf = F_NaN"
| "fadd F_PInf _ = F_PInf"
| "fadd F_NInf _ = F_NInf"
| "fadd (F _) i = i"

fun fneg :: "float64 \<Rightarrow> float64" where
  "fneg (F x) = F (- x)"
| "fneg F_PInf = F_NInf"
| "fneg F_NInf = F_PInf"
| "fneg F_NaN = F_NaN"

definition fsub :: "float64 \<Rightarrow> float64 \<Rightarrow> float64" where
  "fsub a b = fadd a (fneg b)"

fun fsgn :: "float64 \<Rightarrow> int" where
  "fsgn (F x) = (if x = 0 then 0 else if 0 < x then 1 else - 1)"
| "fsgn F_PInf = 1"
| "fsgn F_NInf = - 1"
| "fsgn F_NaN = 0"

definition finf :: "int \<Rightarrow> float64" where
  "finf s = (if s = 0 then F_NaN else if 0 < s then F_PInf else F_NInf)"

fun fmul :: "float64 \<Rightarrow> float64 \<Rightarrow> float64" where
  "fmul (F x) (F y) = fl (x * y)"
| "fmul a b = (if a = F_NaN \<or> b = F_NaN then F_NaN else finf (fsgn a * fsgn b))"

fun fdiv :: "float64 \<Rightarrow> float64 \<Rightarrow> float64" where
  "fdiv (F x) (F y) = (if y = 0 then finf (fsgn (F x)) else fl (x / y))"
| "fdiv F_NaN _ = F_NaN"
| "fdiv _ F_NaN = F_NaN"
| "fdiv (F x) _ = F 0"
| "fdiv a (F y) = finf (fsgn a * (if y < 0 then - 1 else 1))"
| "fdiv _ _ = F_NaN"

section \<open>Comparison and conversion\<close>

fun flt :: "float64 \<Rightarrow> float64 \<Rightarrow> bool" where
  "flt (F x) (F y) = (x < y)"
| "flt (F x) b = (b = F_PInf)"
| "flt F_NInf b = (b \<noteq> F_NInf \<and> b \<noteq> F_NaN)"
| "flt _ _ = False"

fun feq :: "float64 \<Rightarrow> float64 \<Rightarrow> bool" where
  "feq F_NaN _ = False"
| "feq a b = (a = b)"

fun f_abs :: "float64 \<Rightarrow> float64" where
  "f_abs (F x) = F \<bar>x\<bar>"
| "f_abs F_NInf = F_PInf"
| "f_abs a = a"

definition f_of_int :: "int \<Rightarrow> float64" where
  "f_of_int i = fl (of_int i)"

definition f_of_uint64 :: "uint64 \<Rightarrow> float64" where
  "f_of_uint64 w = f_of_int (uint w)"

definition trunc_rat :: "rat \<Rightarrow> int" where
  "trunc_rat x = (if 0 \<le> x then \<lfloor>x\<rfloor> else - \<lfloor>- x\<rfloor>)"

definition f_to_int :: "nat \<Rightarrow> float64 \<Rightarrow> int" where
  "f_to_int w a = (case a of
     F x \<Rightarrow> (let i = trunc_rat x in if - (2 ^ (w - 1)) \<le> i \<and> i < 2 ^ (w - 1) then i else - (2 ^ (w - 1)))
   | _ \<Rightarrow> - (2 ^ (w - 1)))"

end
