(* ===== verification/BurstMath.thy ===== *)
theory BurstMath
  imports Float64 "HOL-Library.Multiset"
begin

text \<open>
  The package \<^verbatim>\<open>pkg/burstmath\<close>: decoding of generation signatures, unit and time conversions, and the
  dispatcher that collects deadline requests into batches for the vectorised C routines. The C
  routine itself is a parameter: the deadline of one native request.
\<close>

unbundle bit_operations_syntax

section \<open>Constants and conversions\<close>

definition GenesisBaseTarget :: int where "GenesisBaseTarget = 18325193796"
definition blockChainStart :: int where "blockChainStart = 1407722400"

definition BurstToPlanck :: "float64 \<Rightarrow> int64" where
  "BurstToPlanck n = f_to_int 64 (fmul n (F 100000000))"

definition PlanckToBurst :: "int64 \<Rightarrow> float64" where
  "PlanckToBurst n = fdiv (f_of_int n) (F 100000000)"

text \<open>\<open>date.Unix()\<close> is the number of whole seconds.\<close>

definition DateToTimeStamp :: "time \<Rightarrow> int64" where
  "DateToTimeStamp date =
     (let ts = i64 (date div 1000000000 - blockChainStart) in if ts < 0 then 0 else ts)"

section \<open>DecodeGeneratorSignature\<close>

datatype gensig_error = GenSigLength | InvalidByteError char | ErrHexLength

definition fromHexChar :: "char \<Rightarrow> byte option" where
  "fromHexChar c = (let n = of_char c :: nat in
     if 48 \<le> n \<and> n \<le> 57 then Some (of_nat (n - 48))
     else if 97 \<le> n \<and> n \<le> 102 then Some (of_nat (n - 97 + 10))
     else if 65 \<le> n \<and> n \<le> 70 then Some (of_nat (n - 65 + 10))
     else None)"

fun hexDecodeString :: "string \<Rightarrow> gensig_error + byte list" where
  "hexDecodeString [] = Inr []"
| "hexDecodeString [c] = (case fromHexChar c of None \<Rightarrow> Inl (InvalidByteError c) | Some _ \<Rightarrow> Inl ErrHexLength)"
| "hexDecodeString (c # d # s) =
     (case fromHexChar c of None \<Rightarrow> Inl (InvalidByteError c)
      | Some a \<Rightarrow> (case fromHexChar d of None \<Rightarrow> Inl (InvalidByteError d)
         | Some b \<Rightarrow> (case hexDecodeString s of Inl e \<Rightarrow> Inl e
            | Inr bs \<Rightarrow> Inr ((push_bit 4 a OR b) # bs))))"

definition DecodeGeneratorSignature :: "string \<Rightarrow> gensig_error + byte list" where
  "DecodeGeneratorSignature genSigStr =
     (if length genSigStr \<noteq> 64 then Inl GenSigLength
      else case hexDecodeString genSigStr of Inl e \<Rightarrow> Inl e | Inr genSig \<Rightarrow> Inr genSig)"

lemma hexDecodeString_length: "hexDecodeString s = Inr bs \<Longrightarrow> length s = 2 * length bs"
  by (induction s arbitrary: bs rule: hexDecodeString.induct) (auto split: option.splits sum.splits)

lemma DecodeGeneratorSignature_length [bounds]:
  "DecodeGeneratorSignature s = Inr bs \<Longrightarrow> length bs = 32"
  by (auto simp: DecodeGeneratorSignature_def dest: hexDecodeString_length split: if_splits sum.splits)

lemma hexDecodeString_accepts:
  "(\<exists>bs. hexDecodeString s = Inr bs) \<longleftrightarrow> even (length s) \<and> (\<forall>c \<in> set s. fromHexChar c \<noteq> None)"
  by (induction s rule: hexDecodeString.induct) (auto split: option.splits sum.splits)

section \<open>Requests and batches\<close>

record native_request =
  account_id :: uint64
  nonce :: uint64
  base_target :: uint64
  scoop_nr :: uint32
  gen_sig :: "byte list"

text \<open>A request; \<open>rid\<close> stands for the identity of its reply channel.\<close>

record CalcDeadlineRequest =
  rid :: nat
  native :: native_request

text \<open>\<open>&genSig[0]\<close> panics on an empty slice.\<close>

definition NewCalcDeadlineRequest ::
  "nat \<Rightarrow> uint64 \<Rightarrow> uint64 \<Rightarrow> uint64 \<Rightarrow> uint32 \<Rightarrow> byte list \<Rightarrow> CalcDeadlineRequest option" where
  "NewCalcDeadlineRequest ch accountID n baseTarget scoop genSig =
     (if genSig = [] then None
      else Some \<lparr>rid = ch, native = \<lparr>account_id = accountID, nonce = n, base_target = baseTarget,
        scoop_nr = scoop, gen_sig = genSig\<rparr>\<rparr>)"

text \<open>
  A cell of the collector's array: a nil pointer, the zero struct with a nil \<open>native\<close> that the
  collectors start with, or a received request.
\<close>

datatype slot = NilPtr | ZeroReq | Req CalcDeadlineRequest

definition avx2Parallel :: nat where "avx2Parallel = 8"
definition sse4Parallel :: nat where "sse4Parallel = 4"

record calcDeadlineRequestBatch =
  batch_pending :: nat
  batch_reqs :: "slot list"

section \<open>The worker\<close>

text \<open>Reading \<open>reqs[i].native\<close>: a nil request panics, a zero request yields a nil pointer.\<close>

fun native_of :: "slot \<Rightarrow> native_request option option" where
  "native_of NilPtr = None"
| "native_of ZeroReq = Some None"
| "native_of (Req r) = Some (Some (native r))"

fun fill_creqs :: "slot list \<Rightarrow> nat list \<Rightarrow> native_request option list \<Rightarrow> native_request option list option" where
  "fill_creqs reqs [] creqs = Some creqs"
| "fill_creqs reqs (i # is) creqs = do {
     s \<leftarrow> idx reqs i;
     n \<leftarrow> native_of s;
     creqs \<leftarrow> upd creqs i n;
     fill_creqs reqs is creqs }"

fun fill_dummies :: "slot list \<Rightarrow> nat list \<Rightarrow> native_request option list \<Rightarrow> native_request option list option" where
  "fill_dummies reqs [] creqs = Some creqs"
| "fill_dummies reqs (i # is) creqs = do {
     s \<leftarrow> idx reqs 0;
     n \<leftarrow> native_of s;
     creqs \<leftarrow> upd creqs i n;
     fill_dummies reqs is creqs }"

text \<open>
  The C routine visits the first \<open>lanes\<close> pointers and stores a deadline through each; a nil
  pointer crashes the process. The result maps a lane to its deadline.
\<close>

definition calculate_deadlines ::
  "(native_request \<Rightarrow> uint64) \<Rightarrow> nat \<Rightarrow> native_request option list \<Rightarrow> (nat \<Rightarrow> uint64) option" where
  "calculate_deadlines calc lanes creqs =
     (if list_all (\<lambda>c. c \<noteq> None) (take lanes creqs)
      then Some (\<lambda>i. if i < lanes then calc (the (creqs ! i)) else 0) else None)"

fun answer_slots :: "slot list \<Rightarrow> (nat \<Rightarrow> uint64) \<Rightarrow> nat list \<Rightarrow> (CalcDeadlineRequest \<times> uint64) list option" where
  "answer_slots reqs dl [] = Some []"
| "answer_slots reqs dl (i # is) = do {
     s \<leftarrow> idx reqs i;
     (case s of
        Req r \<Rightarrow> do { rest \<leftarrow> answer_slots reqs dl is; Some ((r, dl i) # rest) }
      | _ \<Rightarrow> None) }"

definition processReqs ::
  "(native_request \<Rightarrow> uint64) \<Rightarrow> bool \<Rightarrow> native_request option list \<Rightarrow> slot list \<Rightarrow> nat \<Rightarrow>
     (CalcDeadlineRequest \<times> uint64) list option" where
  "processReqs calc avx2 creqs reqs n = do {
     creqs \<leftarrow> fill_creqs reqs [0..<n] creqs;
     creqs \<leftarrow> fill_dummies reqs [n..<avx2Parallel] creqs;
     dl \<leftarrow> calculate_deadlines calc (if avx2 then avx2Parallel else sse4Parallel) creqs;
     answer_slots reqs dl [0..<n] }"

section \<open>The collector\<close>

text \<open>
  The state of a \<open>DeadlineRequestHandler\<close> with its goroutines: the local variables of the collector
  (\<open>pending\<close>, \<open>reqs\<close>, whether the timer channel can still fire), a batch whose send blocks on the
  full channel, the buffered channel \<open>batchReqs\<close>, the batches that workers are processing, and the
  two logs of what came in over \<open>reqHandler.reqs\<close> and went out over the reply channels.
\<close>

record handler_state =
  pending :: nat
  slots :: "slot list"
  timer :: bool
  outbox :: "calcDeadlineRequestBatch option"
  batchReqs :: "calcDeadlineRequestBatch list"
  busy :: "calcDeadlineRequestBatch list"
  received :: "CalcDeadlineRequest list"
  answered :: "(CalcDeadlineRequest \<times> uint64) list"

text \<open>The initial array: \<open>par\<close> zero requests, and nil in the remaining cells.\<close>

definition initial_slots :: "nat \<Rightarrow> slot list" where
  "initial_slots par = replicate par ZeroReq @ replicate (avx2Parallel - par) NilPtr"

definition init_handler :: "nat \<Rightarrow> handler_state" where
  "init_handler par = \<lparr>pending = 0, slots = initial_slots par, timer = False, outbox = None,
     batchReqs = [], busy = [], received = [], answered = []\<rparr>"

text \<open>
  \<open>NewDeadlineRequestHandler\<close>: the timeout in nanoseconds, the collector for the available
  instruction set, and the number of workers. A negative timeout, a negative worker count and a
  missing instruction set panic.
\<close>

record dispatcher =
  d_state :: handler_state
  d_par :: nat
  d_workers :: nat
  d_timeout :: int64

definition NewDeadlineRequestHandler :: "bool \<Rightarrow> bool \<Rightarrow> int \<Rightarrow> int64 list \<Rightarrow> dispatcher option" where
  "NewDeadlineRequestHandler avx2 sse4 workerCount timeoutSeconds = do {
     timeout \<leftarrow> (case timeoutSeconds of
        [] \<Rightarrow> Some (2 * 1000000000)
      | t # _ \<Rightarrow> if t < 0 then None else Some (i64 (t * 1000000000)));
     w \<leftarrow> (if workerCount < 0 then None else Some (nat workerCount));
     par \<leftarrow> (if avx2 then Some avx2Parallel else if sse4 then Some sse4Parallel else None);
     Some \<lparr>d_state = init_handler par, d_par = par, d_workers = w, d_timeout = timeout\<rparr> }"

text \<open>
  \<open>case reqs[pending] = <-reqHandler.reqs\<close>; with \<open>par\<close> equal to 8 this is the AVX2 collector, with 4
  the SSE4 collector. A full batch goes to the outbox; \<open>pending\<close> is reset when the send succeeds.
\<close>

definition collect_recv :: "nat \<Rightarrow> CalcDeadlineRequest \<Rightarrow> handler_state \<Rightarrow> handler_state option" where
  "collect_recv par r s = do {
     sl \<leftarrow> upd (slots s) (pending s) (Req r);
     let s' = s\<lparr>slots := sl, received := received s @ [r]\<rparr>;
     Some (if pending s = 0 then s'\<lparr>timer := True, pending := pending s + 1\<rparr>
           else if pending s = par - 1
             then s'\<lparr>outbox := Some \<lparr>batch_pending = pending s + 1, batch_reqs = sl\<rparr>\<rparr>
           else s'\<lparr>pending := pending s + 1\<rparr>) }"

text \<open>\<open>case <-timeout\<close>: the timer channel fires once.\<close>

definition collect_timeout :: "handler_state \<Rightarrow> handler_state" where
  "collect_timeout s = s\<lparr>timer := False,
     outbox := Some \<lparr>batch_pending = pending s, batch_reqs = slots s\<rparr>\<rparr>"

definition collect_send :: "calcDeadlineRequestBatch \<Rightarrow> handler_state \<Rightarrow> handler_state" where
  "collect_send b s = s\<lparr>outbox := None, batchReqs := batchReqs s @ [b], pending := 0\<rparr>"

text \<open>
  The steps of the goroutines. \<open>w\<close> is the number of workers, which is also the capacity of
  \<open>batchReqs\<close>. The receiving step is driven by clients, the other four are internal.
\<close>

inductive internal_step ::
  "(native_request \<Rightarrow> uint64) \<Rightarrow> nat \<Rightarrow> nat \<Rightarrow> handler_state \<Rightarrow> handler_state \<Rightarrow> bool"
  for calc :: "native_request \<Rightarrow> uint64" and par :: nat and w :: nat where
  timeout: "outbox s = None \<Longrightarrow> timer s \<Longrightarrow> internal_step calc par w s (collect_timeout s)"
| send: "outbox s = Some b \<Longrightarrow> length (batchReqs s) < w \<Longrightarrow>
     internal_step calc par w s (collect_send b s)"
| take: "batchReqs s = b # bs \<Longrightarrow> length (busy s) < w \<Longrightarrow>
     internal_step calc par w s (s\<lparr>batchReqs := bs, busy := busy s @ [b]\<rparr>)"
| finish: "busy s = xs @ b # ys \<Longrightarrow> length creqs = avx2Parallel \<Longrightarrow>
     processReqs calc (par = avx2Parallel) creqs (batch_reqs b) (batch_pending b) = Some out \<Longrightarrow>
     internal_step calc par w s (s\<lparr>busy := xs @ ys, answered := answered s @ out\<rparr>)"

inductive handler_step ::
  "(native_request \<Rightarrow> uint64) \<Rightarrow> nat \<Rightarrow> nat \<Rightarrow> handler_state \<Rightarrow> handler_state \<Rightarrow> bool"
  for calc :: "native_request \<Rightarrow> uint64" and par :: nat and w :: nat where
  recv: "outbox s = None \<Longrightarrow> collect_recv par r s = Some s' \<Longrightarrow> handler_step calc par w s s'"
| internal: "internal_step calc par w s s' \<Longrightarrow> handler_step calc par w s s'"

inductive handler_reachable ::
  "(native_request \<Rightarrow> uint64) \<Rightarrow> nat \<Rightarrow> nat \<Rightarrow> handler_state \<Rightarrow> bool"
  for calc :: "native_request \<Rightarrow> uint64" and par :: nat and w :: nat where
  start: "handler_reachable calc par w (init_handler par)"
| step: "handler_reachable calc par w s \<Longrightarrow> handler_step calc par w s s' \<Longrightarrow>
     handler_reachable calc par w s'"

inductive_cases internal_stepE: "internal_step calc par w s s'"
inductive_cases handler_stepE: "handler_step calc par w s s'"

text \<open>
  The loop bodies of the two collectors, by the event that the \<open>select\<close> statement picked (the
  completed send of a batch counts as an event of its own).
\<close>

datatype collector_event = Received CalcDeadlineRequest | Timeout | BatchSent

fun collector :: "nat \<Rightarrow> collector_event \<Rightarrow> handler_state \<Rightarrow> handler_state option" where
  "collector par (Received r) s = (if outbox s = None then collect_recv par r s else None)"
| "collector par Timeout s = (if outbox s = None \<and> timer s then Some (collect_timeout s) else None)"
| "collector par BatchSent s = (case outbox s of Some b \<Rightarrow> Some (collect_send b s) | None \<Rightarrow> None)"

definition collectDeadlineReqsAVX2 :: "collector_event \<Rightarrow> handler_state \<Rightarrow> handler_state option" where
  "collectDeadlineReqsAVX2 = collector avx2Parallel"

definition collectDeadlineReqsSSE4 :: "collector_event \<Rightarrow> handler_state \<Rightarrow> handler_state option" where
  "collectDeadlineReqsSSE4 = collector sse4Parallel"

lemma collector_is_step:
  assumes "collector par ev s = Some s'" "length (batchReqs s) < w"
  shows "handler_step calc par w s s'"
  using assms by (cases ev)
    (auto intro: handler_step.intros internal_step.intros split: if_splits option.splits)

end
