(* ===== verification/Dispatch.thy ===== *)
theory Dispatch
  imports BurstMath
begin

text \<open>
  Correctness of the deadline dispatcher of \<^verbatim>\<open>pkg/burstmath\<close>: no nil pointer reaches the C routine,
  every request is answered exactly once with its own deadline, and the dispatcher never gets
  stuck with unanswered requests.
\<close>

section \<open>The worker on a well-formed batch\<close>

fun req_of :: "slot \<Rightarrow> CalcDeadlineRequest list" where
  "req_of (Req r) = [r]"
| "req_of _ = []"

definition is_Req :: "slot \<Rightarrow> bool" where
  "is_Req s \<longleftrightarrow> (\<exists>r. s = Req r)"

definition requests_of :: "nat \<Rightarrow> slot list \<Rightarrow> CalcDeadlineRequest list" where
  "requests_of n sl = concat (map req_of (take n sl))"

definition batch_ok :: "nat \<Rightarrow> calcDeadlineRequestBatch \<Rightarrow> bool" where
  "batch_ok par b \<longleftrightarrow> batch_pending b \<le> par \<and> length (batch_reqs b) = avx2Parallel \<and>
     is_Req (batch_reqs b ! 0) \<and> (\<forall>i < batch_pending b. is_Req (batch_reqs b ! i))"

definition batch_requests :: "calcDeadlineRequestBatch \<Rightarrow> CalcDeadlineRequest list" where
  "batch_requests b = requests_of (batch_pending b) (batch_reqs b)"

lemma fill_creqs_ok:
  assumes "\<forall>i \<in> set is. i < length reqs \<and> i < length creqs \<and> is_Req (reqs ! i)"
  shows "\<exists>creqs'. fill_creqs reqs is creqs = Some creqs' \<and> length creqs' = length creqs \<and>
    (\<forall>j < length creqs. creqs' ! j = (if j \<in> set is then Some (native (hd (req_of (reqs ! j)))) else creqs ! j))"
  using assms
proof (induction "is" arbitrary: creqs)
  case Nil
  then show ?case by simp
next
  case (Cons i "is")
  then obtain r where r: "reqs ! i = Req r" by (auto simp: is_Req_def)
  then show ?case
    using Cons.prems Cons.IH [of "creqs[i := Some (native r)]"] by (auto simp: nth_list_update)
qed

lemma fill_dummies_ok:
  assumes "reqs \<noteq> []" "reqs ! 0 = Req r" "\<forall>i \<in> set is. i < length creqs"
  shows "\<exists>creqs'. fill_dummies reqs is creqs = Some creqs' \<and> length creqs' = length creqs \<and>
    (\<forall>j < length creqs. creqs' ! j = (if j \<in> set is then Some (native r) else creqs ! j))"
  using assms
proof (induction "is" arbitrary: creqs)
  case Nil
  then show ?case by simp
next
  case (Cons i "is")
  then show ?case
    using Cons.IH [of "creqs[i := Some (native r)]"] by (auto simp: nth_list_update)
qed

lemma answer_slots_ok:
  assumes "\<forall>i \<in> set is. i < length reqs \<and> is_Req (reqs ! i)"
  shows "answer_slots reqs dl is = Some (map (\<lambda>i. (hd (req_of (reqs ! i)), dl i)) is)"
  using assms by (induction "is") (auto simp: is_Req_def)

lemma requests_of_map:
  assumes "n \<le> length sl" "\<forall>i < n. is_Req (sl ! i)"
  shows "requests_of n sl = map (\<lambda>i. hd (req_of (sl ! i))) [0..<n]"
  using assms
proof (induction n)
  case 0
  show ?case by (simp add: requests_of_def)
next
  case (Suc n)
  then obtain r where "sl ! n = Req r" by (auto simp: is_Req_def)
  with Suc show ?case by (simp add: requests_of_def take_Suc_conv_app_nth)
qed

text \<open>
  On a batch that fits the instruction set, the worker does not crash and answers each request
  with the deadline of its own parameters.
\<close>

lemma processReqs_ok:
  assumes "batch_ok par b" "length creqs = avx2Parallel"
    and "par = (if avx2 then avx2Parallel else sse4Parallel)"
  shows "processReqs calc avx2 creqs (batch_reqs b) (batch_pending b) =
    Some (map (\<lambda>r. (r, calc (native r))) (batch_requests b))"
proof -
  let ?reqs = "batch_reqs b" and ?n = "batch_pending b"
  note B = assms(1) [unfolded batch_ok_def]
  have n: "?n \<le> par" "par \<le> avx2Parallel" "length ?reqs = avx2Parallel"
    using B assms(3) by (auto simp: avx2Parallel_def sse4Parallel_def)
  obtain r0 where r0: "?reqs ! 0 = Req r0" using B by (auto simp: is_Req_def)
  have ne: "?reqs \<noteq> []" using n by (auto simp: avx2Parallel_def)
  obtain c1 where c1: "fill_creqs ?reqs [0..<?n] creqs = Some c1" "length c1 = avx2Parallel"
    "\<forall>j < avx2Parallel. c1 ! j =
       (if j < ?n then Some (native (hd (req_of (?reqs ! j)))) else creqs ! j)"
    using fill_creqs_ok [of "[0..<?n]" ?reqs creqs] B n assms(2) by auto
  obtain c2 where c2: "fill_dummies ?reqs [?n..<avx2Parallel] c1 = Some c2" "length c2 = avx2Parallel"
    "\<forall>j < avx2Parallel. c2 ! j = (if ?n \<le> j then Some (native r0) else c1 ! j)"
    using fill_dummies_ok [OF ne r0, of "[?n..<avx2Parallel]" c1] c1(2) by auto
  have "list_all (\<lambda>c. c \<noteq> None) (take par c2)"
    using c1 c2 n by (auto simp: list_all_length)
  then have "calculate_deadlines calc par c2 = Some (\<lambda>i. if i < par then calc (the (c2 ! i)) else 0)"
    by (simp add: calculate_deadlines_def)
  moreover have "answer_slots ?reqs dl [0..<?n] = Some (map (\<lambda>i. (hd (req_of (?reqs ! i)), dl i)) [0..<?n])" for dl
    using B n by (intro answer_slots_ok) auto
  ultimately have "processReqs calc avx2 creqs ?reqs ?n = Some
      (map (\<lambda>i. (hd (req_of (?reqs ! i)), if i < par then calc (the (c2 ! i)) else 0)) [0..<?n])"
    using c1(1) c2(1) assms(3) by (simp add: processReqs_def)
  also have "\<dots> = Some (map (\<lambda>r. (r, calc (native r))) (batch_requests b))"
    using B n c1(3) c2(3) by (simp add: batch_requests_def requests_of_map)
  finally show ?thesis .
qed

section \<open>The invariant of the collector\<close>

definition collector_requests :: "handler_state \<Rightarrow> CalcDeadlineRequest list" where
  "collector_requests s = (case outbox s of Some b \<Rightarrow> batch_requests b
     | None \<Rightarrow> requests_of (pending s) (slots s))"

definition handler_inv :: "(native_request \<Rightarrow> uint64) \<Rightarrow> nat \<Rightarrow> handler_state \<Rightarrow> bool" where
  "handler_inv calc par s \<longleftrightarrow>
     length (slots s) = avx2Parallel \<and> pending s < par \<and>
     (\<forall>i < pending s. is_Req (slots s ! i)) \<and>
     (timer s \<longrightarrow> is_Req (slots s ! 0)) \<and>
     (outbox s = None \<longrightarrow> 0 < pending s \<longrightarrow> timer s) \<and>
     (\<forall>b \<in> set_option (outbox s) \<union> set (batchReqs s) \<union> set (busy s). batch_ok par b) \<and>
     (\<forall>(r, d) \<in> set (answered s). d = calc (native r)) \<and>
     mset (received s) = mset (map fst (answered s)) + mset (concat (map batch_requests (busy s)))
       + mset (concat (map batch_requests (batchReqs s))) + mset (collector_requests s)"

definition is_par :: "nat \<Rightarrow> bool" where
  "is_par par \<longleftrightarrow> par = avx2Parallel \<or> par = sse4Parallel"

lemma is_par_bounds: "is_par par \<Longrightarrow> 2 \<le> par \<and> par \<le> 8"
  by (auto simp: is_par_def avx2Parallel_def sse4Parallel_def)

lemma init_handler_inv: "is_par par \<Longrightarrow> handler_inv calc par (init_handler par)"
  using is_par_bounds [of par]
  by (simp add: handler_inv_def init_handler_def initial_slots_def avx2Parallel_def
      collector_requests_def requests_of_def)

lemma requests_of_upd:
  assumes "n < length sl"
  shows "requests_of (Suc n) (sl[n := Req r]) = requests_of n sl @ [r]"
  using assms by (simp add: requests_of_def take_Suc_conv_app_nth)

lemma collect_recv_inv:
  assumes "is_par par" "handler_inv calc par s" "outbox s = None"
  shows "\<exists>s'. collect_recv par r s = Some s' \<and> handler_inv calc par s'"
proof -
  note I = assms(2) [unfolded handler_inv_def]
  have p: "pending s < length (slots s)" and par: "2 \<le> par"
    using I is_par_bounds [OF assms(1)] by (auto simp: avx2Parallel_def)
  let ?sl = "(slots s)[pending s := Req r]"
  have sl: "\<forall>i < Suc (pending s). is_Req (?sl ! i)"
    using I p by (auto simp: nth_list_update is_Req_def less_Suc_eq)
  then have sl0: "is_Req (?sl ! 0)" by simp
  have reqs: "requests_of (Suc (pending s)) ?sl = requests_of (pending s) (slots s) @ [r]"
    using p by (rule requests_of_upd)
  show ?thesis
  proof (cases "pending s = par - 1")
    case True
    then show ?thesis using I p par sl sl0 reqs assms(3)
      by (auto simp: collect_recv_def handler_inv_def Let_def batch_ok_def collector_requests_def
          batch_requests_def)
  next
    case False
    then show ?thesis using I p par sl sl0 reqs assms(3)
      by (auto simp: collect_recv_def handler_inv_def Let_def collector_requests_def)
  qed
qed

lemma internal_step_inv:
  assumes "is_par par" "handler_inv calc par s" "internal_step calc par w s s'"
  shows "handler_inv calc par s'"
  using assms(3)
proof cases
  case timeout
  then show ?thesis using assms(2)
    by (auto simp: handler_inv_def collect_timeout_def collector_requests_def batch_ok_def batch_requests_def)
next
  case (send b)
  then show ?thesis using assms is_par_bounds [OF assms(1)]
    by (auto simp: handler_inv_def collect_send_def collector_requests_def requests_of_def)
next
  case (take b bs)
  then show ?thesis using assms(2)
    by (auto simp: handler_inv_def collector_requests_def split: option.splits)
next
  case (finish xs b ys creqs out)
  then have "batch_ok par b" using assms(2) by (auto simp: handler_inv_def)
  then have out: "out = map (\<lambda>r. (r, calc (native r))) (batch_requests b)"
    using processReqs_ok [of par b creqs "par = avx2Parallel" calc] finish assms(1)
    by (auto simp: is_par_def)
  have "map fst out = batch_requests b" by (simp add: out comp_def)
  then show ?thesis using assms(2) finish(1,2)
    by (auto simp: handler_inv_def collector_requests_def out split: option.splits)
qed

lemma handler_step_inv:
  assumes "is_par par" "handler_inv calc par s" "handler_step calc par w s s'"
  shows "handler_inv calc par s'"
  using assms(3)
proof cases
  case (recv r)
  then show ?thesis using collect_recv_inv [OF assms(1,2), of r] by auto
next
  case internal
  then show ?thesis by (rule internal_step_inv [OF assms(1,2)])
qed

lemma handler_reachable_inv:
  assumes "is_par par" "handler_reachable calc par w s"
  shows "handler_inv calc par s"
  using assms(2)
proof induction
  case start
  show ?case by (rule init_handler_inv [OF assms(1)])
next
  case (step s s')
  then show ?case using handler_step_inv [OF assms(1)] by blast
qed

section \<open>Progress\<close>

text \<open>Every internal step brings some batch or the timer closer to its end.\<close>

definition backlog :: "handler_state \<Rightarrow> nat" where
  "backlog s = (if timer s then 5 else 0) + (if outbox s = None then 0 else 4) +
     3 * length (batchReqs s) + 2 * length (busy s)"

lemma internal_step_backlog: "internal_step calc par w s s' \<Longrightarrow> backlog s' < backlog s"
  by (erule internal_stepE) (auto simp: backlog_def collect_timeout_def collect_send_def)

lemma internal_step_received: "internal_step calc par w s s' \<Longrightarrow> received s' = received s"
  by (erule internal_stepE) (auto simp: collect_timeout_def collect_send_def)

lemma internal_step_enabled:
  assumes "is_par par" "handler_inv calc par s" "0 < w" "0 < backlog s"
  shows "\<exists>s'. internal_step calc par w s s'"
proof -
  consider "busy s \<noteq> []" | "busy s = []" "batchReqs s \<noteq> []"
    | "busy s = []" "batchReqs s = []" "outbox s \<noteq> None"
    | "outbox s = None" "timer s"
    using assms(4) by (fastforce simp: backlog_def split: if_splits)
  then show ?thesis
  proof cases
    case 1
    then obtain b bs where b: "busy s = [] @ b # bs" by (cases "busy s") auto
    then have "batch_ok par b" using assms(2) by (auto simp: handler_inv_def)
    then obtain out where "processReqs calc (par = avx2Parallel) (replicate avx2Parallel None)
        (batch_reqs b) (batch_pending b) = Some out"
      using processReqs_ok [of par b "replicate avx2Parallel None" "par = avx2Parallel" calc] assms(1)
      by (auto simp: is_par_def)
    then show ?thesis using internal_step.finish [OF b] by (metis length_replicate)
  next
    case 2
    then show ?thesis using internal_step.take assms(3) by (metis list.exhaust list.size(3))
  next
    case 3
    then show ?thesis using internal_step.send assms(3) by (metis list.size(3) option.exhaust)
  next
    case 4
    then show ?thesis using internal_step.timeout by blast
  qed
qed

lemma drained_answers:
  assumes "handler_inv calc par s" "backlog s = 0"
  shows "mset (received s) = mset (map fst (answered s))"
  using assms by (auto simp: handler_inv_def backlog_def collector_requests_def requests_of_def
      split: if_splits)

lemma drain:
  assumes "is_par par" "0 < w" "handler_inv calc par s"
  shows "\<exists>s'. (internal_step calc par w)\<^sup>*\<^sup>* s s' \<and> backlog s' = 0 \<and> handler_inv calc par s' \<and>
    received s' = received s"
  using assms(3)
proof (induction "backlog s" arbitrary: s rule: less_induct)
  case less
  show ?case
  proof (cases "backlog s = 0")
    case True
    then show ?thesis using less.prems by blast
  next
    case False
    then obtain s1 where s1: "internal_step calc par w s s1"
      using internal_step_enabled [OF assms(1) less.prems assms(2)] by auto
    have "handler_inv calc par s1" by (rule internal_step_inv [OF assms(1) less.prems s1])
    from less.hyps [OF internal_step_backlog [OF s1] this] internal_step_received [OF s1] s1
    show ?thesis by (metis converse_rtranclp_into_rtranclp)
  qed
qed

section \<open>What clients of the dispatcher observe\<close>

definition example_request :: "nat \<Rightarrow> uint64 \<Rightarrow> CalcDeadlineRequest" where
  "example_request i n = \<lparr>rid = i, native = \<lparr>account_id = 7, nonce = n, base_target = 70312,
     scoop_nr = 5, gen_sig = replicate 32 0\<rparr>\<rparr>"

definition example_state :: handler_state where
  "example_state = the (collect_recv 4 (example_request 1 42) (init_handler 4))"

lemma example_recv: "collect_recv 4 (example_request 1 42) (init_handler 4) = Some example_state"
  by (simp add: example_state_def collect_recv_def init_handler_def initial_slots_def avx2Parallel_def)

lemma example_reachable: "handler_reachable calc 4 w example_state"
  by (rule handler_reachable.step [OF handler_reachable.start handler_step.recv [OF _ example_recv]])
    (simp add: init_handler_def)

lemma example_fields:
  "outbox example_state = None" "timer example_state" "received example_state = [example_request 1 42]"
  "slots example_state = Req (example_request 1 42) # replicate 3 ZeroReq @ replicate 4 NilPtr"
  "pending example_state = 1"
  by (simp_all add: example_state_def collect_recv_def init_handler_def initial_slots_def
      avx2Parallel_def numeral_eq_Suc)

text \<open>C10.
  Whatever the interleaving of clients, timer, collector and workers: every deadline that has
  been sent on a reply channel is the deadline of the parameters of that very request, and no
  request is answered twice or without having been received.
\<close>

theorem answers_are_own_deadlines:
  assumes "is_par par" and "handler_reachable calc par w s"
  shows "(\<forall>(r, d) \<in> set (answered s). d = calc (native r)) \<and>
    mset (map fst (answered s)) \<subseteq># mset (received s)"
  using handler_reachable_inv [OF assms] by (auto simp: handler_inv_def)

theorem answers_are_own_deadlines_witness:
  "list_all (\<lambda>(r, d). d = nonce (native r)) (answered example_state) \<and>
    mset (map fst (answered example_state)) \<subseteq># mset [example_request 1 42]"
  using answers_are_own_deadlines [of 4 nonce 1 example_state] example_reachable
  by (simp add: is_par_def sse4Parallel_def example_fields list_all_iff)

text \<open>C24.
  The goroutines of the dispatcher never panic and never hand a nil pointer to the C routine:
  the collector can always store the next request, and a worker finishes every batch it takes,
  also the padded, the stale and the empty ones that the timer produces.
\<close>

theorem dispatcher_never_crashes:
  assumes "is_par par" and "handler_reachable calc par w s"
  shows "(outbox s = None \<longrightarrow> collect_recv par r s \<noteq> None) \<and>
    (\<forall>b \<in> set (busy s). \<forall>creqs. length creqs = avx2Parallel \<longrightarrow>
       processReqs calc (par = avx2Parallel) creqs (batch_reqs b) (batch_pending b) \<noteq> None)"
proof -
  note I = handler_reachable_inv [OF assms]
  have "outbox s = None \<Longrightarrow> collect_recv par r s \<noteq> None"
    using collect_recv_inv [OF assms(1) I] by auto
  moreover have "processReqs calc (par = avx2Parallel) creqs (batch_reqs b) (batch_pending b) \<noteq> None"
    if "b \<in> set (busy s)" "length creqs = avx2Parallel" for b creqs
    using that I assms(1) processReqs_ok [of par b creqs "par = avx2Parallel" calc]
    by (auto simp: handler_inv_def is_par_def)
  ultimately show ?thesis by blast
qed

theorem dispatcher_never_crashes_witness:
  "collect_recv 4 (example_request 2 43) example_state \<noteq> None"
  using dispatcher_never_crashes [of 4 nonce 1 example_state] example_reachable
  by (simp add: is_par_def sse4Parallel_def example_fields)

text \<open>C11.
  With at least one worker the dispatcher cannot leave a client waiting: from every reachable
  state the timer, the collector and the workers can run on until every received request is
  answered, and whenever none of them can make a step any more, every request received so far
  has been answered.
\<close>

theorem every_request_is_answered:
  assumes "is_par par" and "0 < w" and "handler_reachable calc par w s"
  shows "(\<exists>s'. (internal_step calc par w)\<^sup>*\<^sup>* s s' \<and> received s' = received s \<and>
      mset (map fst (answered s')) = mset (received s)) \<and>
    ((\<nexists>s'. internal_step calc par w s s') \<longrightarrow> mset (map fst (answered s)) = mset (received s))"
proof -
  note I = handler_reachable_inv [OF assms(1,3)]
  obtain s' where s': "(internal_step calc par w)\<^sup>*\<^sup>* s s'" "backlog s' = 0" "handler_inv calc par s'"
    "received s' = received s"
    using drain [OF assms(1,2) I] by blast
  moreover have "mset (map fst (answered s)) = mset (received s)"
    if "\<nexists>s'. internal_step calc par w s s'"
    using that internal_step_enabled [OF assms(1) I assms(2)] drained_answers [OF I] by fastforce
  ultimately show ?thesis using drained_answers [OF s'(3,2)] by metis
qed

theorem every_request_is_answered_witness:
  "\<exists>s'. (internal_step nonce 4 1)\<^sup>*\<^sup>* example_state s' \<and>
     mset (map fst (answered s')) = mset [example_request 1 42]"
  using every_request_is_answered [of 4 1 nonce example_state] example_reachable
  by (auto simp: is_par_def sse4Parallel_def example_fields)

end
