(* ===== verification/DispatchStop.thy ===== *)
theory DispatchStop
  imports Dispatch
begin

text \<open>
  \<open>Stop\<close> of the dispatcher: it stops the workers one after the other and then the collector. Each of them stops when
  it is back in its \<open>select\<close> statement, so a worker first finishes its batch; but a collector whose batch nobody takes any
  more never gets there.
\<close>

section \<open>Stopping\<close>

text \<open>The number of workers that still run, and whether the collector does; \<open>w\<close> stays the capacity of the channel.\<close>

record stopping =
  sp_handler :: handler_state
  sp_workers :: nat
  sp_collector :: bool

definition Stop :: "nat \<Rightarrow> handler_state \<Rightarrow> stopping" where
  "Stop w s = \<lparr>sp_handler = s, sp_workers = w, sp_collector = True\<rparr>"

inductive stop_step ::
  "(native_request \<Rightarrow> uint64) \<Rightarrow> nat \<Rightarrow> nat \<Rightarrow> stopping \<Rightarrow> stopping \<Rightarrow> bool"
  for calc :: "native_request \<Rightarrow> uint64" and par :: nat and w :: nat where
  recv: "sp_collector p \<Longrightarrow> outbox (sp_handler p) = None \<Longrightarrow> collect_recv par r (sp_handler p) = Some s \<Longrightarrow>
    stop_step calc par w p (p\<lparr>sp_handler := s\<rparr>)"
| timeout: "sp_collector p \<Longrightarrow> outbox (sp_handler p) = None \<Longrightarrow> timer (sp_handler p) \<Longrightarrow>
    stop_step calc par w p (p\<lparr>sp_handler := collect_timeout (sp_handler p)\<rparr>)"
| send: "outbox (sp_handler p) = Some b \<Longrightarrow> length (batchReqs (sp_handler p)) < w \<Longrightarrow>
    stop_step calc par w p (p\<lparr>sp_handler := collect_send b (sp_handler p)\<rparr>)"
| take: "batchReqs (sp_handler p) = b # bs \<Longrightarrow> length (busy (sp_handler p)) < sp_workers p \<Longrightarrow>
    stop_step calc par w p (p\<lparr>sp_handler := (sp_handler p)\<lparr>batchReqs := bs, busy := busy (sp_handler p) @ [b]\<rparr>\<rparr>)"
| finish: "busy (sp_handler p) = xs @ b # ys \<Longrightarrow> length creqs = avx2Parallel \<Longrightarrow>
    processReqs calc (par = avx2Parallel) creqs (batch_reqs b) (batch_pending b) = Some out \<Longrightarrow>
    stop_step calc par w p (p\<lparr>sp_handler := (sp_handler p)\<lparr>busy := xs @ ys, answered := answered (sp_handler p) @ out\<rparr>\<rparr>)"
| stop_worker: "length (busy (sp_handler p)) < sp_workers p \<Longrightarrow>
    stop_step calc par w p (p\<lparr>sp_workers := sp_workers p - 1\<rparr>)"
| stop_collector: "sp_workers p = 0 \<Longrightarrow> sp_collector p \<Longrightarrow> outbox (sp_handler p) = None \<Longrightarrow>
    stop_step calc par w p (p\<lparr>sp_collector := False\<rparr>)"

inductive_cases stop_stepE: "stop_step calc par w p p'"

section \<open>Where it ends\<close>

text \<open>\<open>Stop\<close> has returned when no worker and no collector runs any more.\<close>

definition stopped :: "stopping \<Rightarrow> bool" where
  "stopped p \<longleftrightarrow> sp_workers p = 0 \<and> \<not> sp_collector p"

text \<open>The only way to get stuck is a batch for which the channel has no room after the last worker is gone.\<close>

definition jammed :: "nat \<Rightarrow> stopping \<Rightarrow> bool" where
  "jammed w p \<longleftrightarrow> sp_workers p = 0 \<and> sp_collector p \<and> outbox (sp_handler p) \<noteq> None \<and> w \<le> length (batchReqs (sp_handler p))"

definition stop_inv :: "(native_request \<Rightarrow> uint64) \<Rightarrow> nat \<Rightarrow> nat \<Rightarrow> stopping \<Rightarrow> bool" where
  "stop_inv calc par w p \<longleftrightarrow> handler_inv calc par (sp_handler p) \<and> length (busy (sp_handler p)) \<le> sp_workers p \<and> sp_workers p \<le> w \<and>
     (\<not> sp_collector p \<longrightarrow> sp_workers p = 0)"

lemma stop_step_inv:
  assumes "is_par par" "stop_inv calc par w p" "stop_step calc par w p p'"
  shows "stop_inv calc par w p'"
proof -
  let ?s = "sp_handler p"
  have inv: "handler_inv calc par ?s" using assms(2) by (simp add: stop_inv_def)
  note step = handler_step_inv [OF assms(1) inv]
  from assms(3) show ?thesis
  proof (cases rule: stop_step.cases)
    case (recv r s)
    then show ?thesis using step [OF handler_step.recv [OF recv(3,4), where w = w]] assms(2)
      by (auto simp: stop_inv_def collect_recv_def bind_eq_Some_conv Let_def split: if_splits)
  next
    case timeout
    then show ?thesis using step [OF handler_step.internal [OF internal_step.timeout [OF timeout(3,4), where w = w]]] assms(2)
      by (simp add: stop_inv_def collect_timeout_def)
  next
    case (send b)
    then show ?thesis using step [OF handler_step.internal [OF internal_step.send [OF send(2,3)]]] assms(2)
      by (simp add: stop_inv_def collect_send_def)
  next
    case (take b bs)
    then have "length (busy ?s) < w" using assms(2) by (simp add: stop_inv_def)
    then show ?thesis using step [OF handler_step.internal [OF internal_step.take [OF take(2)]]] take assms(2) by (simp add: stop_inv_def)
  next
    case (finish xs b ys creqs out)
    then show ?thesis using step [OF handler_step.internal [OF internal_step.finish [OF finish(2-4), where w = w]]] assms(2)
      by (simp add: stop_inv_def)
  qed (use assms(2) in \<open>auto simp: stop_inv_def\<close>)
qed

lemma Stop_stuck:
  assumes "is_par par" "stop_inv calc par w p" "\<nexists>p'. stop_step calc par w p p'"
  shows "stopped p \<or> jammed w p"
proof -
  let ?s = "sp_handler p"
  have inv: "handler_inv calc par ?s" using assms(2) by (simp add: stop_inv_def)
  have idle: "busy ?s = []"
  proof (rule ccontr)
    assume "busy ?s \<noteq> []"
    then obtain b bs where b: "busy ?s = [] @ b # bs" by (cases "busy ?s") auto
    then have "batch_ok par b" using inv by (auto simp: handler_inv_def)
    then obtain out where "processReqs calc (par = avx2Parallel) (replicate avx2Parallel None)
        (batch_reqs b) (batch_pending b) = Some out"
      using processReqs_ok [of par b "replicate avx2Parallel None" "par = avx2Parallel" calc] assms(1) by (auto simp: is_par_def)
    then show False using stop_step.finish [OF b, where w = w] assms(3) by (metis length_replicate)
  qed
  then have "sp_workers p = 0" using stop_step.stop_worker [of p calc par w] assms(3) by (metis gr0I list.size(3))
  moreover have "sp_collector p \<Longrightarrow> outbox ?s \<noteq> None" using calculation stop_step.stop_collector [of p calc par w] assms(3) by blast
  moreover have "outbox ?s = Some b \<Longrightarrow> w \<le> length (batchReqs ?s)" for b using stop_step.send [of p b w calc par] assms(3) not_less by blast
  ultimately show ?thesis by (auto simp: stopped_def jammed_def)
qed

text \<open>A jam is final, and it can be reached: with one worker, two batches of requests are enough.\<close>

lemma jammed_final: "jammed w p \<Longrightarrow> stop_inv calc par w p \<Longrightarrow> \<not> stop_step calc par w p p'"
  by (auto simp: jammed_def stop_inv_def elim!: stop_stepE)

definition filled :: "CalcDeadlineRequest \<Rightarrow> calcDeadlineRequestBatch" where
  "filled r = \<lparr>batch_pending = 4, batch_reqs = replicate 4 (Req r) @ replicate 4 NilPtr\<rparr>"

definition receive_four :: "CalcDeadlineRequest \<Rightarrow> handler_state \<Rightarrow> handler_state" where
  "receive_four r s = s\<lparr>slots := replicate 4 (Req r) @ replicate 4 NilPtr, pending := 3, timer := True, outbox := Some (filled r),
     received := received s @ replicate 4 r\<rparr>"

lemma four_steps: "R a b \<Longrightarrow> R b c \<Longrightarrow> R c d \<Longrightarrow> R d e \<Longrightarrow> R\<^sup>*\<^sup>* a e"
  by (meson converse_rtranclp_into_rtranclp r_into_rtranclp)

lemma receives_four:
  assumes "sp_collector p" "outbox (sp_handler p) = None" "pending (sp_handler p) = 0" "length (slots (sp_handler p)) = 8"
    "drop 4 (slots (sp_handler p)) = replicate 4 NilPtr"
  shows "(stop_step calc 4 w)\<^sup>*\<^sup>* p (p\<lparr>sp_handler := receive_four r (sp_handler p)\<rparr>)"
proof -
  let ?s = "sp_handler p"
  obtain a b c d where sl: "slots ?s = [a, b, c, d] @ replicate 4 NilPtr"
  proof -
    obtain a b c d where "take 4 (slots ?s) = [a, b, c, d]" using assms(4) by (auto simp: numeral_eq_Suc length_Suc_conv)
    then show ?thesis using that assms(5) append_take_drop_id [of 4 "slots ?s"] by metis
  qed
  let ?s1 = "?s\<lparr>slots := [Req r, b, c, d] @ replicate 4 NilPtr, received := received ?s @ [r], timer := True, pending := 1\<rparr>"
  let ?s2 = "?s1\<lparr>slots := [Req r, Req r, c, d] @ replicate 4 NilPtr, received := received ?s1 @ [r], pending := 2\<rparr>"
  let ?s3 = "?s2\<lparr>slots := [Req r, Req r, Req r, d] @ replicate 4 NilPtr, received := received ?s2 @ [r], pending := 3\<rparr>"
  let ?s4 = "?s3\<lparr>slots := replicate 4 (Req r) @ replicate 4 NilPtr, received := received ?s3 @ [r], outbox := Some (filled r)\<rparr>"
  have c: "collect_recv 4 r ?s = Some ?s1" "collect_recv 4 r ?s1 = Some ?s2" "collect_recv 4 r ?s2 = Some ?s3" "collect_recv 4 r ?s3 = Some ?s4"
    using assms by (simp_all add: collect_recv_def sl filled_def upd_def numeral_eq_Suc)
  have "stop_step calc 4 w p (p\<lparr>sp_handler := ?s1\<rparr>)" by (rule stop_step.recv [OF assms(1,2) c(1)])
  moreover have "stop_step calc 4 w (p\<lparr>sp_handler := ?s1\<rparr>) (p\<lparr>sp_handler := ?s2\<rparr>)"
    using stop_step.recv [of "p\<lparr>sp_handler := ?s1\<rparr>" 4 r ?s2] assms(1,2) c(2) by simp
  moreover have "stop_step calc 4 w (p\<lparr>sp_handler := ?s2\<rparr>) (p\<lparr>sp_handler := ?s3\<rparr>)"
    using stop_step.recv [of "p\<lparr>sp_handler := ?s2\<rparr>" 4 r ?s3] assms(1,2) c(3) by simp
  moreover have "stop_step calc 4 w (p\<lparr>sp_handler := ?s3\<rparr>) (p\<lparr>sp_handler := ?s4\<rparr>)"
    using stop_step.recv [of "p\<lparr>sp_handler := ?s3\<rparr>" 4 r ?s4] assms(1,2) c(4) by simp
  moreover have "?s4 = receive_four r ?s" by (simp add: receive_four_def numeral_eq_Suc)
  ultimately show ?thesis by (simp only: four_steps)
qed

lemma Stop_jams:
  "\<exists>p. (stop_step calc 4 1)\<^sup>*\<^sup>* (Stop 1 (init_handler 4)) p \<and> jammed 1 p \<and> (\<forall>p'. \<not> stop_step calc 4 1 p p')"
proof -
  let ?r = "example_request 1 42" and ?R = "stop_step calc 4 1"
  let ?p0 = "Stop 1 (init_handler 4)"
  let ?p1 = "?p0\<lparr>sp_handler := receive_four ?r (sp_handler ?p0)\<rparr>"
  let ?p2 = "?p1\<lparr>sp_handler := collect_send (filled ?r) (sp_handler ?p1)\<rparr>"
  let ?p3 = "?p2\<lparr>sp_workers := 0\<rparr>"
  let ?p4 = "?p3\<lparr>sp_handler := receive_four ?r (sp_handler ?p3)\<rparr>"
  have i: "length (slots (init_handler 4)) = 8" "drop 4 (slots (init_handler 4)) = replicate 4 NilPtr" "pending (init_handler 4) = 0"
    "outbox (init_handler 4) = None" "batchReqs (init_handler 4) = []" "busy (init_handler 4) = []"
    by (simp_all add: init_handler_def initial_slots_def avx2Parallel_def)
  have "?R\<^sup>*\<^sup>* ?p0 ?p1" by (rule receives_four) (simp_all add: Stop_def i)
  moreover have "?R ?p1 ?p2" by (rule stop_step.send) (simp_all add: Stop_def receive_four_def i)
  moreover have "?R ?p2 ?p3" using stop_step.stop_worker [of ?p2 calc 4 1] by (simp add: Stop_def receive_four_def collect_send_def i)
  moreover have "?R\<^sup>*\<^sup>* ?p3 ?p4" by (rule receives_four) (simp_all add: Stop_def receive_four_def collect_send_def i)
  ultimately have r: "?R\<^sup>*\<^sup>* ?p0 ?p4" by (meson rtranclp.rtrancl_into_rtrancl rtranclp_trans)
  have j: "jammed 1 ?p4" by (simp add: jammed_def Stop_def receive_four_def collect_send_def i)
  have "stop_inv calc 4 1 ?p0" using init_handler_inv [of 4 calc] by (simp add: stop_inv_def Stop_def is_par_def sse4Parallel_def i)
  with r have "stop_inv calc 4 1 ?p4"
    by (induction rule: rtranclp_induct) (auto intro: stop_step_inv simp: is_par_def sse4Parallel_def)
  then show ?thesis using r j jammed_final by blast
qed

end
