(* ===== verification/FloatLemmas.thy ===== *)
theory FloatLemmas
  imports Float64
begin

text \<open>
  Facts about rounding to binary64: it is monotone, it leaves representable numbers alone (all
  integers up to \<open>2^53\<close> in particular), and it moves a number by at most half a unit in the last
  place. The sums of deadlines and the shares of a reward rest on them.
\<close>

section \<open>Rounding to an integer\<close>

lemma rne_of_int [simp]: "rne (of_int i) = i"
  by (simp add: rne_def Let_def)

lemma rne_floor_bounds: "\<lfloor>x\<rfloor> \<le> rne x \<and> rne x \<le> \<lfloor>x\<rfloor> + 1"
  by (auto simp: rne_def Let_def)

lemma rne_error: "\<bar>of_int (rne x) - x\<bar> \<le> 1 / 2"
  using of_int_floor_le [of x] floor_less_cancel [of x "of_int \<lfloor>x\<rfloor> + 1"]
    floor_correct [of x] by (auto simp: rne_def Let_def abs_le_iff)

lemma rne_mono:
  assumes "x \<le> y"
  shows "rne x \<le> rne y"
proof (cases "\<lfloor>x\<rfloor> = \<lfloor>y\<rfloor>")
  case True
  then show ?thesis using assms by (auto simp: rne_def Let_def)
next
  case False
  then have "\<lfloor>x\<rfloor> + 1 \<le> \<lfloor>y\<rfloor>" using floor_mono [OF assms] by linarith
  then show ?thesis using rne_floor_bounds [of x] rne_floor_bounds [of y] by linarith
qed

lemma rne_minus: "rne (- x) = - rne x"
proof (cases "x = of_int \<lfloor>x\<rfloor>")
  case True
  then show ?thesis by (metis of_int_minus rne_of_int)
next
  case False
  then have fl: "\<lfloor>- x\<rfloor> = - \<lfloor>x\<rfloor> - 1" by linarith
  show ?thesis by (auto simp: rne_def Let_def fl)
qed

section \<open>The binary exponent\<close>

lemma powi_split:
  assumes "k \<le> e"
  shows "(2 :: rat) powi e = of_int (2 ^ nat (e - k)) * 2 powi k"
proof -
  have "(2 :: rat) powi e = 2 powi (e - k) * 2 powi k" by (simp flip: power_int_add)
  also have "(2 :: rat) powi (e - k) = 2 ^ nat (e - k)" using assms by (simp add: power_int_def)
  finally show ?thesis by simp
qed

lemma ilog2_bounds:
  assumes "0 < x"
  shows "2 powi ilog2 x \<le> x \<and> x < 2 powi (ilog2 x + 1)"
proof -
  obtain n d where q: "quotient_of x = (n, d)" by (cases "quotient_of x")
  have d: "0 < d" using q by (rule quotient_of_denom_pos)
  have x: "x = of_int n / of_int d" using q by (rule quotient_of_div)
  have n: "0 < n" using assms d by (simp add: x zero_less_divide_iff)
  define a where "a = bitlen n"
  define b where "b = bitlen d"
  have a: "1 \<le> a" "2 ^ nat (a - 1) \<le> n" "n < 2 ^ nat a"
    using bitlen_bounds [OF n] n bitlen_le_iff_power [of n 0] by (auto simp: a_def not_le)
  have b: "1 \<le> b" "2 ^ nat (b - 1) \<le> d" "d < 2 ^ nat b"
    using bitlen_bounds [OF d] d bitlen_le_iff_power [of d 0] by (auto simp: b_def not_le)
  have p: "(of_int (2 ^ nat k) :: rat) = 2 powi k" if "0 \<le> k" for k
    using that by (simp add: power_int_def)
  have nl: "2 powi (a - 1) \<le> (of_int n :: rat)"
    using a p [of "a - 1"] by (metis of_int_le_iff diff_ge_0_iff_ge)
  have nu: "of_int n < (2 powi a :: rat)"
    using a p [of a] by (metis of_int_less_iff order.trans zero_le_one)
  have dl: "2 powi (b - 1) \<le> (of_int d :: rat)"
    using b p [of "b - 1"] by (metis of_int_le_iff diff_ge_0_iff_ge)
  have du: "of_int d < (2 powi b :: rat)"
    using b p [of b] by (metis of_int_less_iff order.trans zero_le_one)
  have up: "x < 2 powi (a - b + 1)"
  proof -
    have "x < 2 powi a / 2 powi (b - 1)"
      unfolding x using nu dl d n by (intro frac_less) auto
    then show ?thesis by (simp add: power_int_diff power_int_add field_simps)
  qed
  have lo: "2 powi (a - b - 1) < x"
  proof -
    have "2 powi (a - 1) / 2 powi b < x"
      unfolding x using nl du d n by (intro frac_less2) auto
    then show ?thesis by (simp add: power_int_diff power_int_add field_simps)
  qed
  show ?thesis using up lo by (auto simp: ilog2_def q a_def b_def Let_def)
qed

lemma powi_less_iff: "(2 :: rat) powi a < 2 powi b \<longleftrightarrow> a < b"
  by (metis linorder_not_less one_le_numeral one_less_numeral_iff order_less_irrefl
      power_int_increasing power_int_strict_increasing semiring_norm(76))

lemma ilog2_mono:
  assumes "0 < x" "x \<le> y"
  shows "ilog2 x \<le> ilog2 y"
proof (rule ccontr)
  assume "\<not> ?thesis"
  then have "2 powi (ilog2 y + 1) \<le> (2 powi ilog2 x :: rat)"
    by (intro power_int_increasing) auto
  then show False using ilog2_bounds [of x] ilog2_bounds [of y] assms by linarith
qed

lemma ulp_exp_mono: "x \<noteq> 0 \<Longrightarrow> \<bar>x\<bar> \<le> \<bar>y\<bar> \<Longrightarrow> ulp_exp x \<le> ulp_exp y"
  using ilog2_mono [of "\<bar>x\<bar>" "\<bar>y\<bar>"] by (auto simp: ulp_exp_def)

lemma ulp_exp_minus [simp]: "ulp_exp (- x) = ulp_exp x"
  by (simp add: ulp_exp_def)

section \<open>Rounding to binary64\<close>

lemma rnd_0 [simp]: "rnd 0 = 0"
  by (simp add: rnd_def)

lemma rnd_minus: "rnd (- x) = - rnd x"
  by (simp add: rnd_def Let_def rne_minus flip: minus_divide_left)

text \<open>A number that is a multiple of its own unit in the last place is not changed.\<close>

lemma rnd_multiple:
  assumes "x = of_int k * 2 powi ulp_exp x"
  shows "rnd x = x"
proof (cases "x = 0")
  case False
  have "x / 2 powi ulp_exp x = of_int k" by (subst assms) simp
  then show ?thesis using assms False by (simp add: rnd_def)
qed simp

definition representable :: "rat \<Rightarrow> bool" where
  "representable x \<longleftrightarrow> (\<exists>m e. x = of_int m * 2 powi e \<and> \<bar>m\<bar> \<le> 2 ^ 53 \<and> - 1074 \<le> e)"

lemma representable_multiple:
  assumes "representable x"
  shows "\<exists>k. x = of_int k * 2 powi ulp_exp x"
proof (cases "x = 0")
  case True
  then show ?thesis by (intro exI [of _ 0]) simp
next
  case False
  obtain m e where x: "x = of_int m * 2 powi e" and m: "\<bar>m\<bar> \<le> 2 ^ 53" and e: "- 1074 \<le> e"
    using assms by (auto simp: representable_def)
  let ?u = "ulp_exp x"
  show ?thesis
  proof (cases "?u \<le> e")
    case True
    then have "2 powi e = (of_int (2 ^ nat (e - ?u)) :: rat) * 2 powi ?u"
      by (rule powi_split)
    then have "x = of_int (m * 2 ^ nat (e - ?u)) * 2 powi ?u" by (simp add: x)
    then show ?thesis by blast
  next
    case False
    then have u: "?u = ilog2 \<bar>x\<bar> - 52" "e + 53 \<le> ilog2 \<bar>x\<bar>" using e by (auto simp: ulp_exp_def)
    have "(2 powi (e + 53) :: rat) \<le> 2 powi ilog2 \<bar>x\<bar>"
      using u by (intro power_int_increasing) auto
    also have "\<dots> \<le> \<bar>x\<bar>" using ilog2_bounds [of "\<bar>x\<bar>"] \<open>x \<noteq> 0\<close> by simp
    also have ax: "\<dots> = of_int \<bar>m\<bar> * 2 powi e" by (simp add: x abs_mult)
    finally have "(2 ^ 53 :: rat) \<le> of_int \<bar>m\<bar>" by (simp add: power_int_add)
    then have m': "\<bar>m\<bar> = 2 ^ 53" using m by (metis order_antisym of_int_le_iff of_int_numeral of_int_power)
    then have ax': "\<bar>x\<bar> = 2 powi (e + 53)" by (simp add: ax power_int_add)
    then have "ilog2 \<bar>x\<bar> < e + 53 + 1"
      using ilog2_bounds [of "\<bar>x\<bar>"] \<open>x \<noteq> 0\<close>
      by (metis powi_less_iff zero_less_abs_iff order.strict_trans1 powi_less_iff less_add_one
          order_le_less_trans)
    then have il: "ilog2 \<bar>x\<bar> = e + 53" using u by linarith
    have m2: "m = sgn m * 2 ^ 53" using m' by (metis mult_sgn_abs)
    have "x = of_int (sgn m * 2 ^ 52) * 2 powi (e + 1)"
      by (subst x, subst m2) (simp add: power_int_add)
    moreover have "?u = e + 1" using u il by simp
    ultimately show ?thesis by metis
  qed
qed

lemma rnd_representable: "representable x \<Longrightarrow> rnd x = x"
  using representable_multiple rnd_multiple by blast

lemma representable_of_int: "\<bar>i\<bar> \<le> 2 ^ 53 \<Longrightarrow> representable (of_int i)"
  unfolding representable_def by (intro exI [of _ i] exI [of _ 0]) auto

lemma representable_0 [simp]: "representable 0" and representable_1 [simp]: "representable 1"
  using representable_of_int [of 0] representable_of_int [of 1] by simp_all

lemma representable_half: "\<bar>i\<bar> \<le> 2 ^ 53 \<Longrightarrow> representable (of_int i / 2)"
  unfolding representable_def by (intro exI [of _ i] exI [of _ "- 1"]) (auto simp: power_int_minus)

lemma representable_powi: "- 1074 \<le> e \<Longrightarrow> representable (2 powi e)"
  unfolding representable_def by (intro exI [of _ 1] exI [of _ e]) auto

text \<open>Rounding never crosses a multiple of the unit in the last place.\<close>

lemma rnd_le_multiple:
  assumes "x \<noteq> 0" "x \<le> of_int k * 2 powi ulp_exp x"
  shows "rnd x \<le> of_int k * 2 powi ulp_exp x"
proof -
  let ?u = "2 powi ulp_exp x :: rat"
  have "x / ?u \<le> of_int k" using assms(2) by (simp add: divide_le_eq)
  then have "rne (x / ?u) \<le> k" using rne_mono rne_of_int by metis
  then show ?thesis using assms(1) by (simp add: rnd_def Let_def)
qed

lemma rnd_ge_multiple:
  assumes "x \<noteq> 0" "of_int k * 2 powi ulp_exp x \<le> x"
  shows "of_int k * 2 powi ulp_exp x \<le> rnd x"
proof -
  have "rnd (- x) \<le> of_int (- k) * 2 powi ulp_exp (- x)"
    using assms by (intro rnd_le_multiple) auto
  then show ?thesis by (simp add: rnd_minus)
qed

lemma rnd_nonneg: "0 \<le> x \<Longrightarrow> 0 \<le> rnd x"
  using rnd_ge_multiple [of x 0] by (cases "x = 0") auto

lemma rnd_mono_pos:
  assumes "0 < x" "x \<le> y"
  shows "rnd x \<le> rnd y"
proof (cases "ulp_exp x = ulp_exp y")
  case True
  have "x / 2 powi ulp_exp y \<le> y / 2 powi ulp_exp y" using assms by (simp add: divide_right_mono)
  then show ?thesis using True assms rne_mono by (simp add: rnd_def Let_def)
next
  case False
  let ?a = "ilog2 y"
  have ab: "\<bar>x\<bar> = x" "\<bar>y\<bar> = y" using assms by auto
  have uy: "ulp_exp y = ?a - 52" "ulp_exp x < ?a - 52" "ilog2 x < ?a"
    using False ulp_exp_mono [of x y] assms by (auto simp: ulp_exp_def ab split: if_splits)
  have "x < 2 powi (ilog2 x + 1)" using ilog2_bounds assms by blast
  also have "\<dots> \<le> 2 powi ?a" using uy by (intro power_int_increasing) auto
  finally have xa: "x \<le> 2 powi ?a" by simp
  have "rnd x \<le> 2 powi ?a"
    using rnd_le_multiple [of x "2 ^ nat (?a - ulp_exp x)"] powi_split [of "ulp_exp x" ?a] uy xa assms
    by simp
  also have "2 powi ?a \<le> rnd y"
    using rnd_ge_multiple [of y "2 ^ nat (?a - ulp_exp y)"] powi_split [of "ulp_exp y" ?a] uy
      ilog2_bounds [of y] assms by simp
  finally show ?thesis .
qed

lemma rnd_mono:
  assumes "x \<le> y"
  shows "rnd x \<le> rnd y"
proof -
  consider "0 < x" | "x \<le> 0" "0 \<le> y" | "y < 0" by linarith
  then show ?thesis
  proof cases
    case 1
    then show ?thesis using assms rnd_mono_pos by blast
  next
    case 2
    then show ?thesis using rnd_nonneg [of y] rnd_nonneg [of "- x"] by (simp add: rnd_minus)
  next
    case 3
    then show ?thesis using rnd_mono_pos [of "- y" "- x"] assms by (simp add: rnd_minus)
  qed
qed

lemma rnd_between:
  assumes "representable a" "representable b" "a \<le> x" "x \<le> b"
  shows "a \<le> rnd x \<and> rnd x \<le> b"
  using rnd_mono [OF assms(3)] rnd_mono [OF assms(4)] by (simp add: rnd_representable assms)

section \<open>Exact operations\<close>

text \<open>Below \<open>2^1024\<close> there is no overflow; the pool's numbers are far smaller.\<close>

lemma fl_rnd:
  assumes "\<bar>x\<bar> \<le> 2 ^ 64"
  shows "fl x = F (rnd x)"
proof -
  have r: "representable (2 ^ 64)" using representable_powi [of 64] by (simp add: power_int_def)
  then have "representable (- (2 ^ 64))"
    unfolding representable_def
    by (metis (no_types, opaque_lifting) abs_minus_cancel mult_minus_left of_int_minus)
  then have "\<bar>rnd x\<bar> \<le> 2 ^ 64"
    using rnd_between [of "- (2 ^ 64)" "2 ^ 64" x] r assms by (simp add: abs_le_iff)
  moreover have "(2 :: rat) ^ 64 < 2 ^ 1024" by (intro power_strict_increasing) auto
  ultimately have "\<not> 2 ^ 1024 \<le> rnd x" "\<not> rnd x \<le> - (2 ^ 1024)" by linarith+
  then show ?thesis by (simp only: fl_def Let_def if_False)
qed

lemma fl_representable: "representable x \<Longrightarrow> \<bar>x\<bar> \<le> 2 ^ 64 \<Longrightarrow> fl x = F x"
  by (simp add: fl_rnd rnd_representable)

lemma fl_of_int [simp]: "\<bar>i\<bar> \<le> 2 ^ 53 \<Longrightarrow> fl (of_int i) = F (of_int i)"
proof (rule fl_representable)
  assume i: "\<bar>i\<bar> \<le> 2 ^ 53"
  then show "representable (of_int i)" by (rule representable_of_int)
  have "of_int \<bar>i\<bar> \<le> (of_int (2 ^ 64) :: rat)" using i by (subst of_int_le_iff) simp
  then show "\<bar>of_int i\<bar> \<le> (2 ^ 64 :: rat)" by simp
qed

lemma f_of_int_exact [simp]: "\<bar>i\<bar> \<le> 2 ^ 53 \<Longrightarrow> f_of_int i = F (of_int i)"
  by (simp add: f_of_int_def)

lemma fadd_int:
  assumes "\<bar>i + j\<bar> \<le> 2 ^ 53"
  shows "fadd (F (of_int i)) (F (of_int j)) = F (of_int (i + j))"
  using fl_of_int [OF assms] by simp

lemma fsub_int:
  assumes "\<bar>i - j\<bar> \<le> 2 ^ 53"
  shows "fsub (F (of_int i)) (F (of_int j)) = F (of_int (i - j))"
  using fl_of_int [OF assms] by (simp add: fsub_def)

lemma f_to_int_exact [simp]: "is_i64 i \<Longrightarrow> f_to_int 64 (F (of_int i)) = i"
  by (simp add: f_to_int_def trunc_rat_def is_i64_def flip: of_int_minus)

end
