(* ===== verification/Config.thy ===== *)
theory Config
  imports Strconv FloatLemmas
begin

text \<open>
  The package \<^verbatim>\<open>pkg/config\<close>: the configuration record, its validation with the defaults it fills in,
  and the data source name of a database. \<open>Logger.Fatal\<close> ends the process, so a fatal check is
  the \<open>Inl\<close> of a sum. Reading the file and the YAML decoder are not modelled.
\<close>

section \<open>The records\<close>

record DBConfig =
  dbHost :: string
  dbPort :: uint32
  dbUser :: string
  dbPassword :: string
  dbName :: string

record Config =
  Version :: string
  BlockHeightPayoutDelay :: uint64
  PayoutDelay :: uint64
  SecretPhrase :: string
  WalletUrls :: "string list"
  PoolPublicID :: uint64
  MinimumPayout :: int64
  PoolFeeShare :: float64
  DeadlineLimit :: uint64
  SodiumDeadlines :: bool
  WinnerShare :: float64
  DB :: DBConfig
  WalletDB :: DBConfig
  FeeAccountID :: uint64
  PoolTxFee :: int64
  MinerTxFee :: int64
  InactiveAfterXBlocks :: uint64
  PoolAddress :: string
  PoolListenAddress :: string
  PoolPort :: uint64
  WebServerPort :: uint64
  WebServerListenAddress :: string
  AllowRequestsPerSecond :: int64
  NAVG :: int64
  NMin :: int64
  APIPort :: uint64
  APIListenAddress :: string
  NodePort :: uint64
  NodeListenAddress :: string
  TMin :: int32
  SetNowFee :: int64
  SetWeeklyFee :: int64
  SetDailyFee :: int64
  SetMinPayoutFee :: int64
  WalletTimeout :: int64
  WalletTimeoutDur :: int64
  PayoutInterval :: int64
  PayoutIntervalDur :: int64
  TrustAllWalletCerts :: bool
  NodeComCert :: string
  BlacklistedAccountIDs :: "uint64 list"
  AccountIDBlacklist :: "uint64 set"

section \<open>Validation\<close>

datatype config_error =
    SecretPhraseEmpty | NoWalletUrls | PoolPublicIdEmpty | PoolFeeShareRange | DbNameEmpty
  | DbUserEmpty | FeeAccountIdEmpty | WinnerShareRange | InactiveAfterXBlocksZero | PoolPortZero
  | WebServerPortZero | PoolAddressEmpty | AllowRequestsNegative | NAvgNegative | NMinNegative
  | TMinNegative

type_synonym config_step = "Config \<Rightarrow> config_error + Config"

definition fatal :: "(Config \<Rightarrow> bool) \<Rightarrow> config_error \<Rightarrow> config_step" where
  "fatal b e c = (if b c then Inl e else Inr c)"

definition default_to :: "(Config \<Rightarrow> bool) \<Rightarrow> (Config \<Rightarrow> Config) \<Rightarrow> config_step" where
  "default_to b f c = Inr (if b c then f c else c)"

fun run_steps :: "config_step list \<Rightarrow> config_step" where
  "run_steps [] c = Inr c"
| "run_steps (s # ss) c = (case s c of Inl e \<Rightarrow> Inl e | Inr c' \<Rightarrow> run_steps ss c')"

definition second :: int64 where "second = 1000000000"
definition minute :: int64 where "minute = 60 * second"

definition add_to_blacklist :: "uint64 list \<Rightarrow> uint64 set" where
  "add_to_blacklist ids = fold insert ids {}"

definition config_steps :: "config_step list" where
  "config_steps = [
     fatal (\<lambda>c. SecretPhrase c = []) SecretPhraseEmpty,
     fatal (\<lambda>c. length (WalletUrls c) = 0) NoWalletUrls,
     fatal (\<lambda>c. PoolPublicID c = 0) PoolPublicIdEmpty,
     fatal (\<lambda>c. flt (F 1) (PoolFeeShare c)) PoolFeeShareRange,
     default_to (\<lambda>c. dbHost (DB c) = []) (\<lambda>c. c\<lparr>DB := (DB c)\<lparr>dbHost := ''127.0.0.1''\<rparr>\<rparr>),
     default_to (\<lambda>c. dbPort (DB c) = 0) (\<lambda>c. c\<lparr>DB := (DB c)\<lparr>dbPort := 3306\<rparr>\<rparr>),
     fatal (\<lambda>c. dbName (DB c) = []) DbNameEmpty,
     fatal (\<lambda>c. dbUser (DB c) = []) DbUserEmpty,
     default_to (\<lambda>c. dbHost (WalletDB c) = []) (\<lambda>c. c\<lparr>WalletDB := (WalletDB c)\<lparr>dbHost := ''127.0.0.1''\<rparr>\<rparr>),
     default_to (\<lambda>c. dbPort (WalletDB c) = 0) (\<lambda>c. c\<lparr>WalletDB := (WalletDB c)\<lparr>dbPort := 3306\<rparr>\<rparr>),
     fatal (\<lambda>c. FeeAccountID c = 0 \<and> flt (F 0) (PoolFeeShare c)) FeeAccountIdEmpty,
     fatal (\<lambda>c. flt (WinnerShare c) (F 0) \<or> flt (F 1) (WinnerShare c)) WinnerShareRange,
     fatal (\<lambda>c. InactiveAfterXBlocks c = 0) InactiveAfterXBlocksZero,
     fatal (\<lambda>c. PoolPort c = 0) PoolPortZero,
     fatal (\<lambda>c. WebServerPort c = 0) WebServerPortZero,
     fatal (\<lambda>c. PoolAddress c = []) PoolAddressEmpty,
     fatal (\<lambda>c. AllowRequestsPerSecond c < 0) AllowRequestsNegative,
     default_to (\<lambda>c. AllowRequestsPerSecond c = 0) (\<lambda>c. c\<lparr>AllowRequestsPerSecond := 4\<rparr>),
     fatal (\<lambda>c. NAVG c < 0) NAvgNegative,
     default_to (\<lambda>c. NAVG c = 0) (\<lambda>c. c\<lparr>NAVG := 360\<rparr>),
     fatal (\<lambda>c. NMin c < 0) NMinNegative,
     default_to (\<lambda>c. NMin c = 0) (\<lambda>c. c\<lparr>NMin := 10\<rparr>),
     fatal (\<lambda>c. TMin c < 0) TMinNegative,
     default_to (\<lambda>c. PoolTxFee c = 0) (\<lambda>c. c\<lparr>PoolTxFee := 10000000\<rparr>),
     (\<lambda>c. Inr (if WalletTimeout c \<le> 0 then c\<lparr>WalletTimeoutDur := 5 * second\<rparr>
               else c\<lparr>WalletTimeoutDur := i64 (WalletTimeout c * second)\<rparr>)),
     (\<lambda>c. Inr (if PayoutInterval c \<le> 0 then c\<lparr>PayoutIntervalDur := 10 * minute\<rparr>
               else c\<lparr>PayoutIntervalDur := i64 (PayoutInterval c * minute)\<rparr>)),
     (\<lambda>c. Inr (c\<lparr>AccountIDBlacklist := add_to_blacklist (BlacklistedAccountIDs c)\<rparr>)) ]"

definition validateConfig :: config_step where
  "validateConfig c = run_steps config_steps c"

section \<open>Data source names\<close>

definition DataSourceName :: "DBConfig \<Rightarrow> bool \<Rightarrow> string" where
  "DataSourceName config includeDatabase =
     (let dataSourceName = dbUser config @ '':'' @ dbPassword config @
            ''@tcp('' @ dbHost config @ '':'' @ FormatUint (ucast (dbPort config)) @ '')/''
      in if includeDatabase
         then dataSourceName @ dbName config @ ''?charset=utf8&parseTime=True&loc=Local&multiStatements=true''
         else dataSourceName)"

section \<open>What a validated configuration guarantees\<close>

definition unit_share :: "float64 \<Rightarrow> bool" where
  "unit_share a \<longleftrightarrow> \<not> flt a (F 0) \<and> \<not> flt (F 1) a"

definition config_ok :: "Config \<Rightarrow> bool" where
  "config_ok c \<longleftrightarrow>
     SecretPhrase c \<noteq> [] \<and> WalletUrls c \<noteq> [] \<and> PoolPublicID c \<noteq> 0 \<and>
     \<not> flt (F 1) (PoolFeeShare c) \<and> (FeeAccountID c = 0 \<longrightarrow> \<not> flt (F 0) (PoolFeeShare c)) \<and>
     unit_share (WinnerShare c) \<and> dbHost (DB c) \<noteq> [] \<and> dbPort (DB c) \<noteq> 0 \<and>
     dbName (DB c) \<noteq> [] \<and> dbUser (DB c) \<noteq> [] \<and>
     dbHost (WalletDB c) \<noteq> [] \<and> dbPort (WalletDB c) \<noteq> 0 \<and>
     InactiveAfterXBlocks c \<noteq> 0 \<and> PoolPort c \<noteq> 0 \<and> WebServerPort c \<noteq> 0 \<and> PoolAddress c \<noteq> [] \<and>
     0 < AllowRequestsPerSecond c \<and> 0 < NAVG c \<and> 0 < NMin c \<and> 0 \<le> TMin c \<and> PoolTxFee c \<noteq> 0 \<and>
     AccountIDBlacklist c = set (BlacklistedAccountIDs c)"

lemma add_to_blacklist_set [simp]: "add_to_blacklist ids = set ids"
  by (simp add: add_to_blacklist_def union_set_fold [symmetric])

lemma fatal_Inr [simp]: "fatal b e c = Inr c' \<longleftrightarrow> \<not> b c \<and> c' = c"
  by (auto simp: fatal_def)

lemma run_steps_Inr [simp]:
  "run_steps (s # ss) c = Inr c'' \<longleftrightarrow> (\<exists>c'. s c = Inr c' \<and> run_steps ss c' = Inr c'')"
  by (auto split: sum.splits)

lemmas config_step_simps = validateConfig_def config_steps_def default_to_def
declare run_steps.simps(2) [simp del]

text \<open>
  A specification in one step: which configurations are accepted, and what the accepted one
  looks like after the defaults are filled in.
\<close>

definition db_defaults :: "DBConfig \<Rightarrow> DBConfig" where
  "db_defaults d = d\<lparr>dbHost := (if dbHost d = [] then ''127.0.0.1'' else dbHost d),
     dbPort := (if dbPort d = 0 then 3306 else dbPort d)\<rparr>"

definition with_defaults :: "Config \<Rightarrow> Config" where
  "with_defaults c = c\<lparr>DB := db_defaults (DB c), WalletDB := db_defaults (WalletDB c),
     AllowRequestsPerSecond := (if AllowRequestsPerSecond c = 0 then 4 else AllowRequestsPerSecond c),
     NAVG := (if NAVG c = 0 then 360 else NAVG c), NMin := (if NMin c = 0 then 10 else NMin c),
     PoolTxFee := (if PoolTxFee c = 0 then 10000000 else PoolTxFee c),
     WalletTimeoutDur := (if WalletTimeout c \<le> 0 then 5 * second else i64 (WalletTimeout c * second)),
     PayoutIntervalDur := (if PayoutInterval c \<le> 0 then 10 * minute else i64 (PayoutInterval c * minute)),
     AccountIDBlacklist := set (BlacklistedAccountIDs c)\<rparr>"

definition acceptable :: "Config \<Rightarrow> bool" where
  "acceptable c \<longleftrightarrow>
     SecretPhrase c \<noteq> [] \<and> WalletUrls c \<noteq> [] \<and> PoolPublicID c \<noteq> 0 \<and>
     \<not> flt (F 1) (PoolFeeShare c) \<and> dbName (DB c) \<noteq> [] \<and> dbUser (DB c) \<noteq> [] \<and>
     \<not> (FeeAccountID c = 0 \<and> flt (F 0) (PoolFeeShare c)) \<and> unit_share (WinnerShare c) \<and>
     InactiveAfterXBlocks c \<noteq> 0 \<and> PoolPort c \<noteq> 0 \<and> WebServerPort c \<noteq> 0 \<and> PoolAddress c \<noteq> [] \<and>
     0 \<le> AllowRequestsPerSecond c \<and> 0 \<le> NAVG c \<and> 0 \<le> NMin c \<and> 0 \<le> TMin c"

lemma default_steps:
  "default_to (\<lambda>c. dbHost (DB c) = []) (\<lambda>c. c\<lparr>DB := (DB c)\<lparr>dbHost := h\<rparr>\<rparr>) c =
     Inr (c\<lparr>DB := (DB c)\<lparr>dbHost := if dbHost (DB c) = [] then h else dbHost (DB c)\<rparr>\<rparr>)"
  "default_to (\<lambda>c. dbPort (DB c) = 0) (\<lambda>c. c\<lparr>DB := (DB c)\<lparr>dbPort := p\<rparr>\<rparr>) c =
     Inr (c\<lparr>DB := (DB c)\<lparr>dbPort := if dbPort (DB c) = 0 then p else dbPort (DB c)\<rparr>\<rparr>)"
  "default_to (\<lambda>c. dbHost (WalletDB c) = []) (\<lambda>c. c\<lparr>WalletDB := (WalletDB c)\<lparr>dbHost := h\<rparr>\<rparr>) c =
     Inr (c\<lparr>WalletDB := (WalletDB c)\<lparr>dbHost := if dbHost (WalletDB c) = [] then h else dbHost (WalletDB c)\<rparr>\<rparr>)"
  "default_to (\<lambda>c. dbPort (WalletDB c) = 0) (\<lambda>c. c\<lparr>WalletDB := (WalletDB c)\<lparr>dbPort := p\<rparr>\<rparr>) c =
     Inr (c\<lparr>WalletDB := (WalletDB c)\<lparr>dbPort := if dbPort (WalletDB c) = 0 then p else dbPort (WalletDB c)\<rparr>\<rparr>)"
  "default_to (\<lambda>c. AllowRequestsPerSecond c = 0) (\<lambda>c. c\<lparr>AllowRequestsPerSecond := n\<rparr>) c =
     Inr (c\<lparr>AllowRequestsPerSecond := if AllowRequestsPerSecond c = 0 then n else AllowRequestsPerSecond c\<rparr>)"
  "default_to (\<lambda>c. NAVG c = 0) (\<lambda>c. c\<lparr>NAVG := n\<rparr>) c = Inr (c\<lparr>NAVG := if NAVG c = 0 then n else NAVG c\<rparr>)"
  "default_to (\<lambda>c. NMin c = 0) (\<lambda>c. c\<lparr>NMin := n\<rparr>) c = Inr (c\<lparr>NMin := if NMin c = 0 then n else NMin c\<rparr>)"
  "default_to (\<lambda>c. PoolTxFee c = 0) (\<lambda>c. c\<lparr>PoolTxFee := n\<rparr>) c =
     Inr (c\<lparr>PoolTxFee := if PoolTxFee c = 0 then n else PoolTxFee c\<rparr>)"
  by (simp_all add: default_to_def)

lemma duration_steps:
  "(if b then c\<lparr>WalletTimeoutDur := u\<rparr> else c\<lparr>WalletTimeoutDur := v\<rparr>) =
     c\<lparr>WalletTimeoutDur := if b then u else v\<rparr>"
  "(if b then c\<lparr>PayoutIntervalDur := u\<rparr> else c\<lparr>PayoutIntervalDur := v\<rparr>) =
     c\<lparr>PayoutIntervalDur := if b then u else v\<rparr>"
  by simp_all

lemma run_fatal: "run_steps (fatal b e # ss) c = (if b c then Inl e else run_steps ss c)"
  by (simp add: fatal_def run_steps.simps(2))

lemma run_Inr: "s c = Inr c' \<Longrightarrow> run_steps (s # ss) c = run_steps ss c'"
  by (simp add: run_steps.simps(2))

lemmas run_defaults = default_steps [THEN run_Inr]

text \<open>The checks and the defaults do not interfere, so they can be done one after the other.\<close>

lemma validateConfig_cases:
  "validateConfig c = (
     if SecretPhrase c = [] then Inl SecretPhraseEmpty
     else if WalletUrls c = [] then Inl NoWalletUrls
     else if PoolPublicID c = 0 then Inl PoolPublicIdEmpty
     else if flt (F 1) (PoolFeeShare c) then Inl PoolFeeShareRange
     else if dbName (DB c) = [] then Inl DbNameEmpty
     else if dbUser (DB c) = [] then Inl DbUserEmpty
     else if FeeAccountID c = 0 \<and> flt (F 0) (PoolFeeShare c) then Inl FeeAccountIdEmpty
     else if flt (WinnerShare c) (F 0) \<or> flt (F 1) (WinnerShare c) then Inl WinnerShareRange
     else if InactiveAfterXBlocks c = 0 then Inl InactiveAfterXBlocksZero
     else if PoolPort c = 0 then Inl PoolPortZero
     else if WebServerPort c = 0 then Inl WebServerPortZero
     else if PoolAddress c = [] then Inl PoolAddressEmpty
     else if AllowRequestsPerSecond c < 0 then Inl AllowRequestsNegative
     else if NAVG c < 0 then Inl NAvgNegative
     else if NMin c < 0 then Inl NMinNegative
     else if TMin c < 0 then Inl TMinNegative
     else Inr (with_defaults c))"
  unfolding validateConfig_def config_steps_def
  by (simp add: run_fatal run_defaults duration_steps run_Inr with_defaults_def db_defaults_def
      del: run_steps_Inr split del: if_split cong: if_cong)

lemma validateConfig_iff: "validateConfig c = Inr c' \<longleftrightarrow> acceptable c \<and> c' = with_defaults c"
  unfolding validateConfig_cases acceptable_def unit_share_def by (simp, blast)

definition example_config :: Config where
  "example_config = \<lparr>Version = ''v1.4.3'', BlockHeightPayoutDelay = 10, PayoutDelay = 600,
     SecretPhrase = ''secret'', WalletUrls = [''http://127.0.0.1:8125''], PoolPublicID = 42,
     MinimumPayout = 25000000000, PoolFeeShare = F (1/50), DeadlineLimit = 10000000,
     SodiumDeadlines = False, WinnerShare = F (1/5),
     DB = \<lparr>dbHost = [], dbPort = 0, dbUser = ''pool'', dbPassword = ''pw'', dbName = ''pooldb''\<rparr>,
     WalletDB = \<lparr>dbHost = [], dbPort = 0, dbUser = [], dbPassword = [], dbName = []\<rparr>,
     FeeAccountID = 7, PoolTxFee = 0, MinerTxFee = 5000000, InactiveAfterXBlocks = 10,
     PoolAddress = ''http://pool'', PoolListenAddress = ''0.0.0.0'', PoolPort = 8124,
     WebServerPort = 8080, WebServerListenAddress = ''0.0.0.0'', AllowRequestsPerSecond = 0,
     NAVG = 0, NMin = 0, APIPort = 0, APIListenAddress = [], NodePort = 0, NodeListenAddress = [],
     TMin = 20, SetNowFee = 100, SetWeeklyFee = 200, SetDailyFee = 300, SetMinPayoutFee = 400,
     WalletTimeout = 0, WalletTimeoutDur = 0, PayoutInterval = 30, PayoutIntervalDur = 0,
     TrustAllWalletCerts = False, NodeComCert = [], BlacklistedAccountIDs = [5, 6, 5],
     AccountIDBlacklist = {}\<rparr>"

lemma example_config_accepted: "validateConfig example_config = Inr (with_defaults example_config)"
  unfolding validateConfig_iff by (simp add: acceptable_def unit_share_def example_config_def)

lemma validateConfig_ok: "validateConfig c = Inr c' \<Longrightarrow> config_ok c'"
  by (auto simp: validateConfig_iff config_ok_def acceptable_def with_defaults_def db_defaults_def)

text \<open>C39.
  A configuration that passes validation satisfies everything the other components rely on
  without checking it again: the averaging window, the confirmation minimum, the request rate
  and the transaction fee are set, the winner's share lies between 0 and 1, a pool fee has an
  account to go to, the blacklist holds exactly the configured ids, and both durations are
  positive unless the configured number of seconds or minutes overflows \<open>time.Duration\<close>.
\<close>

theorem validated_config_ok:
  assumes "validateConfig c = Inr c'"
  shows "config_ok c' \<and>
    (WalletTimeout c * second < 2 ^ 63 \<longrightarrow> 0 < WalletTimeoutDur c') \<and>
    (PayoutInterval c * minute < 2 ^ 63 \<longrightarrow> 0 < PayoutIntervalDur c')"
proof -
  have a: "acceptable c" and c': "c' = with_defaults c"
    using assms by (simp_all add: validateConfig_iff)
  have "config_ok (with_defaults c)" using validateConfig_ok [OF assms] by (simp add: c')
  moreover have "WalletTimeout c * second < 2 ^ 63 \<Longrightarrow> 0 < WalletTimeoutDur (with_defaults c)"
    by (simp add: with_defaults_def second_def is_i64_def)
  moreover have "PayoutInterval c * minute < 2 ^ 63 \<Longrightarrow> 0 < PayoutIntervalDur (with_defaults c)"
    by (simp add: with_defaults_def minute_def second_def is_i64_def)
  ultimately show ?thesis by (simp add: c')
qed

theorem validated_config_ok_witness:
  "config_ok (with_defaults example_config) \<and> 0 < PayoutIntervalDur (with_defaults example_config)"
  using validated_config_ok [OF example_config_accepted]
  by (simp add: example_config_def minute_def second_def)

text \<open>
  Validation is idempotent: the defaults it fills in are accepted as they are, so a configuration
  that has been validated once is a fixed point.
\<close>

theorem validateConfig_idempotent:
  assumes "validateConfig c = Inr c'"
  shows "validateConfig c' = Inr c'"
proof -
  have a: "acceptable c" and c': "c' = with_defaults c"
    using assms by (simp_all add: validateConfig_iff)
  have "acceptable (with_defaults c)"
    using a by (simp add: acceptable_def with_defaults_def db_defaults_def)
  moreover have "with_defaults (with_defaults c) = with_defaults c"
    by (simp add: with_defaults_def db_defaults_def)
  ultimately show ?thesis by (simp add: validateConfig_iff c')
qed

theorem validateConfig_idempotent_witness:
  "validateConfig (with_defaults example_config) = Inr (with_defaults example_config)"
  by (rule validateConfig_idempotent [OF example_config_accepted])

text \<open>
  The check of \<open>poolFeeShare\<close> has no lower bound, although its message asks for a value between
  0.0 and 1.0.
\<close>

lemma negative_pool_fee_accepted:
  "\<exists>c. validateConfig (example_config\<lparr>PoolFeeShare := F (- 1/2)\<rparr>) = Inr c \<and> flt (PoolFeeShare c) (F 0)"
  unfolding validateConfig_iff
  by (simp add: acceptable_def unit_share_def example_config_def with_defaults_def)

end
