(* ===== verification/Capacity.thy ===== *)
theory Capacity
  imports FloatLemmas BurstMath
begin

text \<open>
  The estimate of a miner's plot size (\<open>eeps\<close>) and the numeric helpers of \<^verbatim>\<open>pkg/modelx\<close>: the
  confidence factors \<open>alpha\<close> kept in the cache, the weight of a deadline and the rounding of
  amounts. The natural logarithm of the Go library is a parameter.
\<close>

section \<open>Definitions\<close>

text \<open>The factors of \<open>computeAlphas\<close>; a window that is not positive makes Go panic.\<close>

definition alpha_at :: "(float64 \<Rightarrow> float64) \<Rightarrow> int \<Rightarrow> int \<Rightarrow> int \<Rightarrow> float64" where
  "alpha_at mlog nAvg nMin i =
     (if i < nMin - 1 then F 0
      else let nConf = f_of_int (i + 1) in
        fsub (F 1) (fmul (fdiv (fsub (f_of_int nAvg) nConf) nConf)
          (mlog (fdiv (f_of_int nAvg) (fsub (f_of_int nAvg) nConf)))))"

definition computeAlphas :: "(float64 \<Rightarrow> float64) \<Rightarrow> int \<Rightarrow> int \<Rightarrow> float64 list option" where
  "computeAlphas mlog nAvg nMin =
     (if nAvg < 0 then None
      else let alphas = map (\<lambda>i. alpha_at mlog nAvg nMin (int i)) [0..<nat nAvg] in
        if nAvg = 0 then None else upd alphas (nat (nAvg - 1)) (F 1))"

definition alpha :: "float64 list \<Rightarrow> nat \<Rightarrow> float64" where
  "alpha alphas nConf =
     (if nConf = 0 then F 0 else if length alphas < nConf then F 1 else alphas ! (nConf - 1))"

definition weightDeadline :: "uint64 \<Rightarrow> uint64 \<Rightarrow> float64" where
  "weightDeadline deadline baseTarget = f_of_uint64 (deadline * baseTarget)"

definition eeps :: "float64 list \<Rightarrow> nat \<Rightarrow> float64 \<Rightarrow> float64" where
  "eeps alphas nConf weightedDeadlineSum =
     (if feq weightedDeadlineSum (F 0) then F 0
      else fdiv (fmul (fmul (alpha alphas nConf) (F 240)) (f_of_int (int nConf - 1)))
             (fdiv weightedDeadlineSum (f_of_int GenesisBaseTarget)))"

definition round_planck :: "float64 \<Rightarrow> int64" where
  "round_planck f =
     (if flt (f_abs f) (F (1/2)) then 0
      else f_to_int 64 (fadd f (if flt f (F 0) then F (- (1/2)) else F (1/2))))"

section \<open>Rounding of amounts\<close>

lemma rat_le_of_int: "x \<le> of_int n \<Longrightarrow> n \<le> m \<Longrightarrow> x \<le> (of_int m :: rat)"
  by (metis of_int_le_iff order_trans)

lemma round_planck_bounds [bounds]:
  assumes "0 \<le> x" "x \<le> of_int n" "n < 2 ^ 52"
  shows "0 \<le> round_planck (F x) \<and> round_planck (F x) \<le> n"
proof (cases "x < 1/2")
  case True
  have "0 \<le> n" using assms by (metis of_int_0_le_iff order_trans)
  then show ?thesis using True assms by (simp add: round_planck_def)
next
  case False
  have n: "0 \<le> n" using assms by (metis of_int_0_le_iff order_trans)
  have r: "representable (of_int (2 * n + 1) / 2)"
    using assms n by (intro representable_half) simp
  have "x + 1/2 \<le> of_int (2 * n + 1) / 2" using assms(2) by simp
  then have rb: "0 \<le> rnd (x + 1/2)" "rnd (x + 1/2) \<le> of_int n + 1/2"
    using rnd_between [OF representable_0 r, of "x + 1/2"] assms(1) by (simp_all add: add_divide_distrib)
  have "x \<le> of_int (2 ^ 52)" using assms rat_le_of_int [of x n "2 ^ 52"] by simp
  then have "\<bar>x + 1/2\<bar> \<le> 2 ^ 64" using assms(1) by simp
  then have "fadd (F x) (F (1/2)) = F (rnd (x + 1/2))" by (simp add: fl_rnd)
  moreover have "0 \<le> \<lfloor>rnd (x + 1/2)\<rfloor>" "\<lfloor>rnd (x + 1/2)\<rfloor> \<le> n"
    using rb by (auto simp: floor_le_iff)
  moreover have "rnd (x + 1/2) < 2 ^ 63"
    using rb(2) assms(3) of_int_le_iff [of n "2 ^ 52", where ?'a = rat] by simp
  moreover have "- (2 ^ 63) \<le> rnd (x + 1/2)" using rb(1) by simp
  ultimately show ?thesis using False assms
    by (simp add: round_planck_def f_to_int_def trunc_rat_def Let_def rb)
qed

text \<open>The share \<open>s\<close> of a non-negative amount is a non-negative amount that does not exceed it.\<close>

lemma fmul_share:
  assumes "0 \<le> s" "s \<le> 1" "0 \<le> n" "n < 2 ^ 52"
  shows "\<exists>x. fmul (f_of_int n) (F s) = F x \<and> 0 \<le> x \<and> x \<le> of_int n"
proof -
  have n: "(of_int n :: rat) \<le> of_int (2 ^ 52)" using assms by (subst of_int_le_iff) simp
  have m: "0 \<le> of_int n * s" "of_int n * s \<le> of_int n"
    using assms by (auto intro: mult_left_le)
  then have "\<bar>of_int n * s\<bar> \<le> 2 ^ 64" using n by simp
  then have "fmul (f_of_int n) (F s) = F (rnd (of_int n * s))" using assms by (simp add: fl_rnd)
  moreover have "0 \<le> rnd (of_int n * s) \<and> rnd (of_int n * s) \<le> of_int n"
    using rnd_between [of 0 "of_int n"] m assms by (simp add: representable_of_int)
  ultimately show ?thesis by blast
qed

lemma round_share [bounds]:
  assumes "0 \<le> s" "s \<le> 1" "0 \<le> n" "n < 2 ^ 52"
  shows "0 \<le> round_planck (fmul (f_of_int n) (F s)) \<and> round_planck (fmul (f_of_int n) (F s)) \<le> n"
  using fmul_share [OF assms] round_planck_bounds assms(4) by metis

lemma fmul_commute: "fmul a b = fmul b a"
  by (cases a; cases b) (simp_all add: mult.commute)

section \<open>The confidence factors\<close>

text \<open>What is used of \<open>math.Log\<close>: on numbers from 1 on it is finite, not negative and below its argument.\<close>

definition log_ok :: "(float64 \<Rightarrow> float64) \<Rightarrow> bool" where
  "log_ok mlog \<longleftrightarrow> (\<forall>x \<ge> 1. \<exists>y. mlog (F x) = F y \<and> 0 \<le> y \<and> y \<le> x)"

lemma fl_between:
  assumes "representable a" "representable b" "a \<le> x" "x \<le> b" "- (2 ^ 64) \<le> a" "b \<le> 2 ^ 64"
  shows "\<exists>y. fl x = F y \<and> a \<le> y \<and> y \<le> b"
proof -
  have "\<bar>x\<bar> \<le> 2 ^ 64" using assms by (simp add: abs_le_iff)
  then show ?thesis using fl_rnd rnd_between [OF assms(1-4)] by blast
qed

lemma alpha_at_le_1:
  assumes "log_ok mlog" "0 \<le> i" "i < n - 1" "n < 2 ^ 31"
  shows "\<exists>y. alpha_at mlog n m i = F y \<and> y \<le> 1"
proof (cases "i < m - 1")
  case True
  then show ?thesis by (simp add: alpha_at_def)
next
  case False
  define c where "c = i + 1"
  have c: "1 \<le> c" "c < n" "c \<le> 2 ^ 53" "n \<le> 2 ^ 53" using assms by (auto simp: c_def)
  have n31: "(of_int n :: rat) \<le> 2 ^ 31"
    using assms(4) of_int_le_iff [of n "2 ^ 31", where ?'a = rat] by simp
  have rn: "representable (of_int n)" using c by (intro representable_of_int) auto
  have rc: "(1 :: rat) \<le> of_int c" "(of_int c :: rat) < of_int n" "(1 :: rat) \<le> of_int (n - c)"
    using c by (auto simp del: of_int_diff)
  have sub: "fsub (f_of_int n) (f_of_int c) = F (of_int (n - c))"
    using fsub_int [of n c] c by simp
  have "of_int (n - c) / of_int c \<le> (of_int n :: rat)"
  proof -
    have "(of_int (n - c) :: rat) / of_int c \<le> of_int (n - c) / 1"
      using rc by (intro divide_left_mono) auto
    then show ?thesis using rc by simp
  qed
  moreover have "0 \<le> (of_int (n - c) :: rat) / of_int c" using rc by simp
  ultimately obtain q where q: "fl (of_int (n - c) / of_int c) = F q" "0 \<le> q" "q \<le> of_int n"
    using fl_between [OF representable_0 rn, of "of_int (n - c) / of_int c"] n31 by auto
  have "1 \<le> (of_int n :: rat) / of_int (n - c)" "(of_int n :: rat) / of_int (n - c) \<le> of_int n"
    using rc by (simp_all add: divide_le_eq)
  then obtain x where x: "fl (of_int n / of_int (n - c)) = F x" "1 \<le> x" "x \<le> of_int n"
    using fl_between [OF representable_1 rn, of "of_int n / of_int (n - c)"] n31 by auto
  obtain y where y: "mlog (F x) = F y" "0 \<le> y" "y \<le> of_int n"
    using assms(1) x by (metis log_ok_def order_trans)
  have "q * y \<le> of_int n * of_int n" using q y by (intro mult_mono) auto
  also have "\<dots> \<le> 2 ^ 31 * 2 ^ 31" using n31 rc by (intro mult_mono) auto
  finally have "q * y \<le> 2 powi 62" by (simp add: power_int_def)
  then obtain p where p: "fl (q * y) = F p" "0 \<le> p" "p \<le> 2 powi 62"
    using fl_between [OF representable_0 representable_powi [of 62], of "q * y"] q y
    by (auto simp: power_int_def)
  have "fl (1 - p) = F (rnd (1 - p))" using p by (intro fl_rnd) (auto simp: power_int_def abs_le_iff)
  moreover have "rnd (1 - p) \<le> 1" using rnd_mono [of "1 - p" 1] p rnd_representable by simp
  moreover have "alpha_at mlog n m i = fl (1 - p)"
  proof -
    have "f_of_int c = F (of_int c)" "f_of_int n = F (of_int n)" using c by simp_all
    moreover have "(of_int (n - c) :: rat) \<noteq> 0" "(of_int c :: rat) \<noteq> 0" using rc by linarith+
    ultimately show ?thesis
      using False q(1) x(1) y(1) p(1) sub unfolding alpha_at_def c_def [symmetric] Let_def
      by (simp only: if_False fdiv.simps fmul.simps fsub_def fneg.simps fadd.simps) simp
  qed
  ultimately show ?thesis by simp
qed

lemma computeAlphas_Some:
  "computeAlphas mlog n m = Some as \<longleftrightarrow>
     0 < n \<and> as = (map (\<lambda>i. alpha_at mlog n m (int i)) [0..<nat n])[nat (n - 1) := F 1]"
  by (auto simp: computeAlphas_def upd_eq_Some nat_less_iff)

definition sample_log :: "float64 \<Rightarrow> float64" where
  "sample_log a = (case a of F x \<Rightarrow> F ((x - 1) / x) | _ \<Rightarrow> a)"

text \<open>C38.
  For every positive averaging window the confidence factors can be computed, and they behave as
  the payout scheme needs: with fewer than \<open>nMin\<close> confirmed deadlines a miner counts nothing, with
  a full window or more it counts fully, and in between the factor is a number of at most 1.
\<close>

theorem alpha_factors:
  assumes "log_ok mlog" and "0 < nAvg" and "nAvg < 2 ^ 31"
  shows "\<exists>alphas. computeAlphas mlog nAvg nMin = Some alphas \<and>
    (\<forall>n. int n < nMin \<and> int n < nAvg \<longrightarrow> alpha alphas n = F 0) \<and>
    (\<forall>n. nAvg \<le> int n \<longrightarrow> alpha alphas n = F 1) \<and>
    (\<forall>n. \<exists>y. alpha alphas n = F y \<and> y \<le> 1)"
proof -
  let ?as = "(map (\<lambda>i. alpha_at mlog nAvg nMin (int i)) [0..<nat nAvg])[nat (nAvg - 1) := F 1]"
  have nth: "alpha ?as n = alpha_at mlog nAvg nMin (int n - 1)" if "0 < n" "int n < nAvg" for n
    using that by (auto simp: alpha_def nth_list_update nat_diff_distrib of_nat_diff)
  have full: "alpha ?as n = F 1" if "nAvg \<le> int n" for n
    using that assms(2) by (auto simp: alpha_def nth_list_update nat_diff_distrib nat_eq_iff)
  have zero: "alpha ?as n = F 0" if "int n < nMin" "int n < nAvg" for n
    using nth [of n] that by (cases "n = 0") (auto simp: alpha_def alpha_at_def)
  have "\<exists>y. alpha ?as n = F y \<and> y \<le> 1" for n
  proof (cases "0 < n \<and> int n < nAvg")
    case True
    then show ?thesis using nth [of n] alpha_at_le_1 [OF assms(1), of "int n - 1" nAvg nMin] assms(3) by auto
  next
    case False
    then show ?thesis using full [of n] by (cases "n = 0") (auto simp: alpha_def)
  qed
  then show ?thesis using zero full assms(2) by (intro exI [of _ ?as]) (simp add: computeAlphas_Some)
qed

theorem alpha_factors_witness:
  "\<exists>alphas. computeAlphas sample_log 360 10 = Some alphas \<and> alpha alphas 9 = F 0 \<and>
     alpha alphas 360 = F 1"
proof -
  have "(x :: rat) - 1 \<le> x * x" if "1 \<le> x" for x
    using that mult_mono [of 1 x x x] by linarith
  then have "log_ok sample_log" by (auto simp: log_ok_def sample_log_def divide_le_eq)
  then show ?thesis using alpha_factors [of sample_log 360 10] by force
qed

end
