(* ===== verification/Miner.thy ===== *)
theory Miner
  imports Capacity "HOL-Library.AList"
begin

text \<open>
  The cached miner of \<^verbatim>\<open>pkg/modelx\<close>: the deadlines it has submitted, the window of confirmed
  deadlines and the running sum of their weights. \<open>DeadlineParams\<close> values live behind pointers in
  Go, and the pointer of the current deadline may also be stored in the window; the model keeps
  the values in a store of the miner and refers to them by index, so that this sharing is visible.
\<close>

record DeadlineParams =
  dpDeadline :: uint64
  dpBaseTarget :: uint64
  dpHeight :: uint64

record Miner =
  mID :: uint64
  mAddress :: string
  mName :: string
  mPending :: int64
  mStore :: "DeadlineParams list"
  CurrentDeadlineParams :: "nat option"
  DeadlinesParams :: "(uint64 \<times> nat) list"
  WeightedDeadlineSum :: float64
  PayoutDetail :: string
  UserAgent :: string

definition newMiner :: "uint64 \<Rightarrow> string \<Rightarrow> string \<Rightarrow> int64 \<Rightarrow> Miner" where
  "newMiner i address name pend = \<lparr>mID = i, mAddress = address, mName = name, mPending = pend,
     mStore = [], CurrentDeadlineParams = None, DeadlinesParams = [], WeightedDeadlineSum = F 0,
     PayoutDetail = [], UserAgent = []\<rparr>"

section \<open>Operations\<close>

definition dp_at :: "Miner \<Rightarrow> nat \<Rightarrow> DeadlineParams" where
  "dp_at m r = mStore m ! r"

definition weight_at :: "Miner \<Rightarrow> nat \<Rightarrow> float64" where
  "weight_at m r = weightDeadline (dpDeadline (dp_at m r)) (dpBaseTarget (dp_at m r))"

definition removeDeadlineParams :: "uint64 \<Rightarrow> Miner \<Rightarrow> Miner" where
  "removeDeadlineParams height m = (case map_of (DeadlinesParams m) height of
     Some r \<Rightarrow> m\<lparr>WeightedDeadlineSum := fsub (WeightedDeadlineSum m) (weight_at m r),
       DeadlinesParams := AList.delete height (DeadlinesParams m)\<rparr>
   | None \<Rightarrow> m)"

definition addDeadlineParams :: "Miner \<Rightarrow> Miner" where
  "addDeadlineParams m = (case CurrentDeadlineParams m of
     None \<Rightarrow> m
   | Some r \<Rightarrow>
       (case map_of (DeadlinesParams m) (dpHeight (dp_at m r)) of
          Some _ \<Rightarrow> m
        | None \<Rightarrow> m\<lparr>DeadlinesParams := AList.update (dpHeight (dp_at m r)) r (DeadlinesParams m),
            WeightedDeadlineSum := fadd (WeightedDeadlineSum m) (weight_at m r)\<rparr>))"

definition CurrentBlockHeight :: "Miner \<Rightarrow> uint64" where
  "CurrentBlockHeight m = (case CurrentDeadlineParams m of Some r \<Rightarrow> dpHeight (dp_at m r) | None \<Rightarrow> 0)"

definition CurrentDeadline :: "Miner \<Rightarrow> uint64" where
  "CurrentDeadline m = (case CurrentDeadlineParams m of None \<Rightarrow> - 1 | Some r \<Rightarrow> dpDeadline (dp_at m r))"

definition CalculateEEPS :: "float64 list \<Rightarrow> Miner \<Rightarrow> float64" where
  "CalculateEEPS alphas m = eeps alphas (length (DeadlinesParams m)) (WeightedDeadlineSum m)"

text \<open>
  The three ways in which \<open>UpdateOrCreateNonceSubmission\<close> changes the miner once the database
  statement has succeeded: a better deadline on the miner's current block, a better deadline on
  a confirmed block, and a first deadline on a block.
\<close>

definition better_current :: "uint64 \<Rightarrow> Miner \<Rightarrow> Miner" where
  "better_current deadline m = (case CurrentDeadlineParams m of
     Some r \<Rightarrow> m\<lparr>mStore := (mStore m)[r := (dp_at m r)\<lparr>dpDeadline := deadline\<rparr>]\<rparr>
   | None \<Rightarrow> m)"

definition better_confirmed :: "nat \<Rightarrow> uint64 \<Rightarrow> uint64 \<Rightarrow> uint64 \<Rightarrow> Miner \<Rightarrow> Miner" where
  "better_confirmed r height deadline baseTarget m =
     m\<lparr>WeightedDeadlineSum := fadd (WeightedDeadlineSum m)
          (fsub (weightDeadline deadline baseTarget) (weight_at m r)),
       mStore := (mStore m)[r := \<lparr>dpDeadline = deadline, dpBaseTarget = baseTarget, dpHeight = height\<rparr>]\<rparr>"

definition first_deadline :: "uint64 \<Rightarrow> uint64 \<Rightarrow> uint64 \<Rightarrow> Miner \<Rightarrow> Miner" where
  "first_deadline height deadline baseTarget m =
     (let r = length (mStore m);
          m' = m\<lparr>mStore := mStore m @ [\<lparr>dpDeadline = deadline, dpBaseTarget = baseTarget, dpHeight = height\<rparr>]\<rparr>
      in if CurrentBlockHeight m < height then m'\<lparr>CurrentDeadlineParams := Some r\<rparr>
         else m'\<lparr>WeightedDeadlineSum := fadd (WeightedDeadlineSum m') (weightDeadline deadline baseTarget),
                DeadlinesParams := AList.update height r (DeadlinesParams m')\<rparr>)"

lemma better_sel [simp]:
  "DeadlinesParams (better_confirmed r h d b m) = DeadlinesParams m"
  "WeightedDeadlineSum (better_confirmed r h d b m) =
     fadd (WeightedDeadlineSum m) (fsub (weightDeadline d b) (weight_at m r))"
  "DeadlinesParams (better_current d m) = DeadlinesParams m"
  "WeightedDeadlineSum (better_current d m) = WeightedDeadlineSum m"
  by (auto simp: better_confirmed_def better_current_def split: option.splits)

section \<open>Well-formedness\<close>

definition miner_wf :: "Miner \<Rightarrow> bool" where
  "miner_wf m \<longleftrightarrow> distinct (map fst (DeadlinesParams m)) \<and>
     (\<forall>h r. (h, r) \<in> set (DeadlinesParams m) \<longrightarrow> r < length (mStore m) \<and> dpHeight (mStore m ! r) = h) \<and>
     (\<forall>r \<in> set_option (CurrentDeadlineParams m). r < length (mStore m))"

lemma newMiner_wf [inv_intros]: "miner_wf (newMiner i a n p)"
  by (simp add: miner_wf_def newMiner_def)

lemma update_new:
  assumes "map_of al k = None"
  shows "AList.update k v al = al @ [(k, v)]"
  using assms by (induction al) (auto split: if_splits)

lemma delete_subset: "set (AList.delete k al) \<subseteq> set al"
  by (auto simp: AList.delete_eq)

lemma removeDeadlineParams_wf [inv_intros]: "miner_wf m \<Longrightarrow> miner_wf (removeDeadlineParams h m)"
  using delete_subset [of h "DeadlinesParams m"]
  by (auto simp: miner_wf_def removeDeadlineParams_def distinct_delete split: option.splits)

lemma addDeadlineParams_wf [inv_intros]: "miner_wf m \<Longrightarrow> miner_wf (addDeadlineParams m)"
  by (auto simp: miner_wf_def addDeadlineParams_def update_new dp_at_def map_of_eq_None_iff image_iff
      split: option.splits)

lemma better_current_wf [inv_intros]: "miner_wf m \<Longrightarrow> miner_wf (better_current d m)"
  by (auto simp: miner_wf_def better_current_def dp_at_def nth_list_update split: option.splits)

lemma better_confirmed_wf [inv_intros]:
  assumes "miner_wf m" "(h, r) \<in> set (DeadlinesParams m)"
  shows "miner_wf (better_confirmed r h d b m)"
  using assms by (auto simp: miner_wf_def better_confirmed_def nth_list_update) metis

lemma first_deadline_wf [inv_intros]:
  assumes "miner_wf m" "map_of (DeadlinesParams m) h = None"
  shows "miner_wf (first_deadline h d b m)"
proof (cases "CurrentBlockHeight m < h")
  case True
  then show ?thesis using assms by (auto simp: miner_wf_def first_deadline_def nth_append less_Suc_eq)
next
  case False
  then show ?thesis using assms
    by (auto simp: miner_wf_def first_deadline_def Let_def update_new nth_append map_of_eq_None_iff
        less_Suc_eq)
qed

section \<open>The running sum of weights\<close>

definition weight_int :: "Miner \<Rightarrow> nat \<Rightarrow> int" where
  "weight_int m r = uint (dpDeadline (dp_at m r) * dpBaseTarget (dp_at m r))"

definition deadline_total :: "Miner \<Rightarrow> int" where
  "deadline_total m = (\<Sum>p\<leftarrow>DeadlinesParams m. weight_int m (snd p))"

definition sum_exact :: "Miner \<Rightarrow> bool" where
  "sum_exact m \<longleftrightarrow> WeightedDeadlineSum m = F (of_int (deadline_total m)) \<and> deadline_total m \<le> 2 ^ 53"

lemma weight_int_nonneg [simp]: "0 \<le> weight_int m r"
  by (simp add: weight_int_def)

lemma weight_at_exact: "weight_int m r \<le> 2 ^ 53 \<Longrightarrow> weight_at m r = F (of_int (weight_int m r))"
  by (simp add: weight_at_def weightDeadline_def f_of_uint64_def weight_int_def)

lemma weightDeadline_exact: "uint (d * b) \<le> 2 ^ 53 \<Longrightarrow> weightDeadline d b = F (of_int (uint (d * b)))"
  by (simp add: weightDeadline_def f_of_uint64_def)

lemma deadline_total_nonneg [simp]: "0 \<le> deadline_total m"
  unfolding deadline_total_def by (rule sum_list_nonneg) auto

lemma delete_sum:
  assumes "distinct (map fst al)" "map_of al k = Some r"
  shows "(\<Sum>p\<leftarrow>AList.delete k al. f (snd p)) = (\<Sum>p\<leftarrow>al. f (snd p)) - (f r :: int)"
  using assms
proof (induction al)
  case (Cons p al)
  have "AList.delete (fst p) al = al" using Cons.prems(1) by simp
  then show ?case using Cons by (cases p) auto
qed simp

lemma weight_le_total:
  assumes "(h, r) \<in> set (DeadlinesParams m)"
  shows "weight_int m r \<le> deadline_total m"
  unfolding deadline_total_def
  using assms member_le_sum_list [of "weight_int m r" "map (\<lambda>p. weight_int m (snd p)) (DeadlinesParams m)"]
  by (force simp: image_iff)

lemma removeDeadlineParams_total:
  assumes "miner_wf m" "map_of (DeadlinesParams m) h = Some r"
  shows "deadline_total (removeDeadlineParams h m) = deadline_total m - weight_int m r"
  using delete_sum [of "DeadlinesParams m" h r "weight_int m"] assms
  by (simp add: miner_wf_def removeDeadlineParams_def deadline_total_def weight_int_def dp_at_def)

lemma removeDeadlineParams_exact [inv_intros]:
  assumes "miner_wf m" "sum_exact m"
  shows "sum_exact (removeDeadlineParams h m)"
proof (cases "map_of (DeadlinesParams m) h")
  case None
  then show ?thesis using assms by (simp add: removeDeadlineParams_def)
next
  case (Some r)
  have w: "weight_int m r \<le> deadline_total m"
    using Some by (intro weight_le_total) (rule map_of_SomeD)
  have "fsub (F (of_int (deadline_total m))) (F (of_int (weight_int m r))) =
      F (of_int (deadline_total m - weight_int m r))"
    using w assms(2) weight_int_nonneg [of m r] unfolding sum_exact_def by (intro fsub_int) linarith
  moreover have "deadline_total m - weight_int m r \<le> 2 ^ 53" "weight_int m r \<le> 2 ^ 53"
    using w assms(2) weight_int_nonneg [of m r] unfolding sum_exact_def by linarith+
  moreover have "WeightedDeadlineSum (removeDeadlineParams h m) = fsub (WeightedDeadlineSum m) (weight_at m r)"
    using Some by (simp add: removeDeadlineParams_def)
  ultimately show ?thesis
    using assms(2) removeDeadlineParams_total [OF assms(1) Some] by (simp add: sum_exact_def weight_at_exact)
qed

lemma fadd_total:
  assumes "0 \<le> i" "0 \<le> j" "i + j \<le> 2 ^ 53"
  shows "fadd (F (of_int i)) (F (of_int j)) = F (of_int (i + j))"
  using assms by (intro fadd_int) simp

lemma addDeadlineParams_exact [inv_intros]:
  assumes "miner_wf m" "sum_exact m" "deadline_total (addDeadlineParams m) \<le> 2 ^ 53"
  shows "sum_exact (addDeadlineParams m)"
proof (cases "addDeadlineParams m = m")
  case False
  then obtain r where r: "CurrentDeadlineParams m = Some r"
    "map_of (DeadlinesParams m) (dpHeight (dp_at m r)) = None"
    by (auto simp: addDeadlineParams_def split: option.splits)
  then have t: "deadline_total (addDeadlineParams m) = deadline_total m + weight_int m r"
    by (simp add: addDeadlineParams_def deadline_total_def update_new weight_int_def dp_at_def)
  then have "weight_int m r \<le> 2 ^ 53" using assms(3) deadline_total_nonneg [of m] by linarith
  then show ?thesis using r assms t fadd_total [of "deadline_total m" "weight_int m r"]
    by (simp add: sum_exact_def) (simp add: addDeadlineParams_def weight_at_exact)
qed (use assms in simp)

text \<open>A pointer is stored under one height only, so changing it changes one summand.\<close>

lemma better_confirmed_total:
  assumes "miner_wf m" "map_of (DeadlinesParams m) h = Some r"
  shows "deadline_total (better_confirmed r h d b m) = deadline_total m - weight_int m r + uint (d * b)"
proof -
  let ?al = "DeadlinesParams m" and ?m = "better_confirmed r h d b m"
  have d: "distinct (map fst ?al)" using assms(1) by (simp add: miner_wf_def)
  have r: "r < length (mStore m)" "dpHeight (mStore m ! r) = h"
    using assms by (auto simp: miner_wf_def dest: map_of_SomeD)
  have other: "weight_int ?m (snd p) = weight_int m (snd p)" if "p \<in> set (AList.delete h ?al)" for p
  proof -
    obtain k q where p: "p = (k, q)" by (cases p)
    then have "(k, q) \<in> set ?al" "k \<noteq> h" using that by (auto simp: AList.delete_eq)
    then have "q \<noteq> r" using assms(1) r by (auto simp: miner_wf_def)
    then show ?thesis by (simp add: p weight_int_def dp_at_def better_confirmed_def)
  qed
  have "(\<Sum>p\<leftarrow>AList.delete h ?al. weight_int ?m (snd p)) = (\<Sum>p\<leftarrow>AList.delete h ?al. weight_int m (snd p))"
    using other by (simp cong: map_cong)
  then have "deadline_total m - weight_int m r = deadline_total ?m - weight_int ?m r"
    using delete_sum [OF d assms(2), of "weight_int m"] delete_sum [OF d assms(2), of "weight_int ?m"]
    by (simp add: deadline_total_def)
  moreover have "weight_int ?m r = uint (d * b)"
    using r by (simp add: weight_int_def dp_at_def better_confirmed_def)
  ultimately show ?thesis by simp
qed

lemma better_confirmed_exact:
  assumes "miner_wf m" "sum_exact m" "map_of (DeadlinesParams m) h = Some r"
    and "deadline_total (better_confirmed r h d b m) \<le> 2 ^ 53"
  shows "sum_exact (better_confirmed r h d b m)"
proof -
  let ?t = "deadline_total m" and ?w = "weight_int m r" and ?n = "uint (d * b)"
  have w: "?w \<le> ?t" using assms(3) by (intro weight_le_total) (rule map_of_SomeD)
  have t: "deadline_total (better_confirmed r h d b m) = ?t - ?w + ?n"
    using assms by (intro better_confirmed_total)
  have le: "?t \<le> 2 ^ 53" "?w \<le> 2 ^ 53" "?n \<le> 2 ^ 53" "?t - ?w + ?n \<le> 2 ^ 53" "0 \<le> ?n" "0 \<le> ?w"
    using assms(2,4) w t weight_int_nonneg [of m r] by (simp_all add: sum_exact_def)
  have "fsub (weightDeadline d b) (weight_at m r) = F (of_int (?n - ?w))"
    using le by (subst weightDeadline_exact, simp, subst weight_at_exact, simp, intro fsub_int) linarith
  moreover have "fadd (F (of_int ?t)) (F (of_int (?n - ?w))) = F (of_int (?t + (?n - ?w)))"
    using le w by (intro fadd_int) linarith
  ultimately have "WeightedDeadlineSum (better_confirmed r h d b m) = F (of_int (?t + (?n - ?w)))"
    using assms(2) by (simp only: better_sel sum_exact_def)
  moreover have "?t + (?n - ?w) = deadline_total (better_confirmed r h d b m)" using t by simp
  ultimately show ?thesis using assms(4) unfolding sum_exact_def by metis
qed

lemma first_deadline_exact:
  assumes "miner_wf m" "sum_exact m" "map_of (DeadlinesParams m) h = None"
    and "deadline_total (first_deadline h d b m) \<le> 2 ^ 53"
  shows "sum_exact (first_deadline h d b m)"
proof -
  let ?m = "first_deadline h d b m"
  have old: "weight_int ?m (snd p) = weight_int m (snd p)" if "p \<in> set (DeadlinesParams m)" for p
  proof -
    have "snd p < length (mStore m)" using that assms(1) unfolding miner_wf_def by (metis prod.collapse)
    then show ?thesis by (simp add: weight_int_def dp_at_def first_deadline_def Let_def nth_append)
  qed
  then have old': "(\<Sum>p\<leftarrow>DeadlinesParams m. weight_int ?m (snd p)) =
      (\<Sum>p\<leftarrow>DeadlinesParams m. weight_int m (snd p))" by (simp cong: map_cong)
  show ?thesis
  proof (cases "CurrentBlockHeight m < h")
    case True
    then have "DeadlinesParams ?m = DeadlinesParams m" "WeightedDeadlineSum ?m = WeightedDeadlineSum m"
      by (simp_all add: first_deadline_def)
    then show ?thesis using assms(2) old' by (simp add: sum_exact_def deadline_total_def)
  next
    case False
    then have m: "DeadlinesParams ?m = DeadlinesParams m @ [(h, length (mStore m))]"
      "WeightedDeadlineSum ?m = fadd (WeightedDeadlineSum m) (weightDeadline d b)"
      "weight_int ?m (length (mStore m)) = uint (d * b)"
      using assms(3) by (simp_all add: first_deadline_def Let_def update_new weight_int_def dp_at_def)
    have t: "deadline_total ?m = deadline_total m + uint (d * b)"
      unfolding deadline_total_def m(1) by (simp add: old' m(3))
    then have "uint (d * b) \<le> 2 ^ 53" using assms(4) deadline_total_nonneg [of m] by linarith
    then show ?thesis using assms(2,4) t fadd_total [of "deadline_total m" "uint (d * b)"]
      by (simp add: sum_exact_def m(2) weightDeadline_exact)
  qed
qed

lemma better_current_exact:
  assumes "sum_exact m" "\<forall>r \<in> set_option (CurrentDeadlineParams m). r \<notin> snd ` set (DeadlinesParams m)"
  shows "sum_exact (better_current d m)"
proof (cases "CurrentDeadlineParams m")
  case None
  then show ?thesis using assms by (simp add: better_current_def)
next
  case (Some r)
  have "weight_int (better_current d m) (snd p) = weight_int m (snd p)" if "p \<in> set (DeadlinesParams m)" for p
    using that assms(2) Some by (auto simp: weight_int_def dp_at_def better_current_def image_iff)
  then have "(\<Sum>p\<leftarrow>DeadlinesParams m. weight_int (better_current d m) (snd p)) =
      (\<Sum>p\<leftarrow>DeadlinesParams m. weight_int m (snd p))" by (simp cong: map_cong)
  then show ?thesis using assms(1) by (simp add: sum_exact_def deadline_total_def)
qed

section \<open>The life of a cached miner\<close>

text \<open>
  The changes a cached miner goes through. \<open>confirm\<close> and \<open>expire\<close> come with new blocks, the other
  three with submissions, under the conditions that \<open>UpdateOrCreateNonceSubmission\<close> checks. A better
  deadline on the current block is taken here only while that block is not yet confirmed.
\<close>

inductive miner_step :: "Miner \<Rightarrow> Miner \<Rightarrow> bool" where
  confirm: "miner_step m (addDeadlineParams m)"
| expire: "miner_step m (removeDeadlineParams h m)"
| improve_confirmed: "CurrentBlockHeight m \<noteq> h \<Longrightarrow> map_of (DeadlinesParams m) h = Some r \<Longrightarrow>
    d < dpDeadline (dp_at m r) \<Longrightarrow> miner_step m (better_confirmed r h d b m)"
| first: "CurrentBlockHeight m \<noteq> h \<Longrightarrow> map_of (DeadlinesParams m) h = None \<Longrightarrow>
    miner_step m (first_deadline h d b m)"
| improve_current: "d < CurrentDeadline m \<Longrightarrow>
    \<forall>r \<in> set_option (CurrentDeadlineParams m). r \<notin> snd ` set (DeadlinesParams m) \<Longrightarrow>
    miner_step m (better_current d m)"

text \<open>Runs in which the weights in the window never add up to more than \<open>2^53\<close>.\<close>

inductive miner_run :: "Miner \<Rightarrow> Miner \<Rightarrow> bool" where
  refl: "miner_run m m"
| snoc: "miner_run m m' \<Longrightarrow> miner_step m' m'' \<Longrightarrow> deadline_total m'' \<le> 2 ^ 53 \<Longrightarrow> miner_run m m''"

lemma miner_step_preserves:
  assumes "miner_step m m'" "miner_wf m" "sum_exact m" "deadline_total m' \<le> 2 ^ 53"
  shows "miner_wf m' \<and> sum_exact m'"
  using assms
proof cases
  case (improve_confirmed h r d b)
  then show ?thesis using assms better_confirmed_exact [of m h r d b]
    by (auto intro: inv_intros dest: map_of_SomeD)
next
  case (first h d b)
  then show ?thesis using assms first_deadline_exact [of m h d b] by (auto intro: inv_intros)
next
  case (improve_current d)
  then show ?thesis using assms better_current_exact [of m d] by (auto intro: inv_intros)
qed (use assms in \<open>auto intro: inv_intros\<close>)

definition sample_miner :: Miner where
  "sample_miner = newMiner 77 ''77'' ''miner'' 0"

lemma sample_miner_exact: "miner_wf sample_miner \<and> sum_exact sample_miner"
  by (simp add: sample_miner_def miner_wf_def sum_exact_def deadline_total_def newMiner_def)


lemma sample_run:
  "miner_run sample_miner (addDeadlineParams (first_deadline 100 5000 70312 sample_miner))"
  by (rule miner_run.snoc [OF miner_run.snoc [OF miner_run.refl miner_step.first] miner_step.confirm])
    (simp_all add: sample_miner_def newMiner_def CurrentBlockHeight_def first_deadline_def
      addDeadlineParams_def dp_at_def deadline_total_def weight_int_def)


text \<open>
  The sharing of pointers breaks this for one case: once the current block of the miner is
  confirmed, its deadline is in the window, and a better deadline on that block changes the
  summand without changing the sum.
\<close>

lemma late_improvement_breaks_sum:
  "\<exists>m d. miner_wf m \<and> sum_exact m \<and> d < CurrentDeadline m \<and> \<not> sum_exact (better_current d m)"
proof (intro exI conjI)
  let ?m = "addDeadlineParams (first_deadline 100 5000 70312 sample_miner)"
  have m: "?m = sample_miner\<lparr>mStore := [\<lparr>dpDeadline = 5000, dpBaseTarget = 70312, dpHeight = 100\<rparr>],
      CurrentDeadlineParams := Some 0, DeadlinesParams := [(100, 0)], WeightedDeadlineSum := F 351560000\<rparr>"
  proof -
    have "f_of_int 351560000 = F 351560000" using f_of_int_exact [of 351560000] by simp
    moreover have "fl 351560000 = F 351560000" using fl_of_int [of 351560000] by simp
    ultimately show ?thesis
      by (simp add: first_deadline_def CurrentBlockHeight_def sample_miner_def newMiner_def
          addDeadlineParams_def dp_at_def weight_at_def weightDeadline_def f_of_uint64_def)
  qed
  show "miner_wf ?m" by (simp add: m miner_wf_def)
  show "sum_exact ?m" by (simp add: m sum_exact_def deadline_total_def weight_int_def dp_at_def)
  show "1000 < CurrentDeadline ?m" by (simp add: m CurrentDeadline_def dp_at_def)
  show "\<not> sum_exact (better_current 1000 ?m)"
    by (simp add: m sum_exact_def better_current_def deadline_total_def weight_int_def dp_at_def)
qed

end
