(* ===== verification/Blocks.thy ===== *)
theory Blocks
  imports Prelude
begin

text \<open>
  The height window \<^verbatim>\<open>blocks\<close> of \<^verbatim>\<open>pkg/modelx/cache.go\<close>: a doubly linked list of heights in
  ascending order together with an index, bounded by \<open>maxLen\<close>. Its contract is the locale
  \<open>height_window\<close>; the refinement shows that the window always holds the \<open>maxLen\<close> greatest of
  all heights that were ever added.
\<close>

section \<open>The data structure\<close>

text \<open>An index entry is a pointer to a list element, represented by the element's value.\<close>

record blocks =
  heights :: "uint64 list"
  index :: "uint64 \<rightharpoonup> uint64"
  maxLen :: int

definition newBlocks :: "int \<Rightarrow> blocks option" where
  "newBlocks n =
     (if n \<le> 0 then None
      else Some \<lparr>heights = [], index = Map.empty, maxLen = n\<rparr>)"

text \<open>
  The loop from \<open>Back()\<close> over \<open>Prev()\<close>: the first list holds the elements still to be visited,
  last one first, the second the elements already passed.
\<close>

fun insertAfterSmaller :: "uint64 \<Rightarrow> uint64 list \<Rightarrow> uint64 list \<Rightarrow> uint64 list option" where
  "insertAfterSmaller height [] passed = None"
| "insertAfterSmaller height (curHeight # before) passed =
     (if curHeight < height then Some (rev before @ [curHeight, height] @ passed)
      else insertAfterSmaller height before (curHeight # passed))"

definition add :: "uint64 \<Rightarrow> blocks \<Rightarrow> blocks \<times> uint64" where
  "add height b =
     (if index b height \<noteq> None then (b, 0)
      else case insertAfterSmaller height (rev (heights b)) [] of
        Some hs \<Rightarrow>
          (let b' = b\<lparr>heights := hs, index := (index b)(height \<mapsto> height)\<rparr> in
           if maxLen b < int (length hs)
           then (let oldHeight = hd hs in
             (b'\<lparr>heights := tl hs, index := (index b')(oldHeight := None)\<rparr>, oldHeight))
           else (b', 0))
      | None \<Rightarrow>
          (if int (length (heights b)) < maxLen b
           then (b\<lparr>heights := height # heights b, index := (index b)(height \<mapsto> height)\<rparr>, 0)
           else (b, 0)))"

definition exists_height :: "blocks \<Rightarrow> uint64 \<Rightarrow> bool" where
  "exists_height b height \<longleftrightarrow> index b height \<noteq> None"

section \<open>Invariant\<close>

definition blocks_inv :: "blocks \<Rightarrow> bool" where
  "blocks_inv b \<longleftrightarrow>
     sorted_wrt (<) (heights b) \<and> 0 < maxLen b \<and> int (length (heights b)) \<le> maxLen b \<and>
     (\<forall>h. index b h = (if h \<in> set (heights b) then Some h else None))"

lemma newBlocks_inv: "newBlocks n = Some b \<Longrightarrow> blocks_inv b"
  by (auto simp: newBlocks_def blocks_inv_def split: if_splits)

lemma exists_height_iff: "blocks_inv b \<Longrightarrow> exists_height b h \<longleftrightarrow> h \<in> set (heights b)"
  by (simp add: exists_height_def blocks_inv_def)

text \<open>The scan inserts the new height at its place in the ascending list.\<close>

lemma insertAfterSmaller_None:
  "insertAfterSmaller h ws passed = None \<longleftrightarrow> (\<forall>w \<in> set ws. h \<le> w)"
  by (induction ws arbitrary: passed) auto

lemma insort_skip: "\<forall>y \<in> set ys. y < x \<Longrightarrow> insort x (ys @ zs) = ys @ insort x zs"
  by (induction ys) auto

lemma insort_front: "\<forall>z \<in> set zs. x < z \<Longrightarrow> insort x zs = x # zs"
  by (cases zs) auto

lemma insort_left: "\<forall>z \<in> set ws. x < z \<Longrightarrow> insort x (ps @ ws) = insort x ps @ ws"
  by (induction ps) (auto simp: insort_front)

lemma insertAfterSmaller_Some:
  assumes "insertAfterSmaller h ws passed = Some hs" "sorted_wrt (<) (rev ws @ passed)"
    and "h \<notin> set ws" "\<forall>p \<in> set passed. h < p"
  shows "hs = insort h (rev ws @ passed)"
  using assms
proof (induction ws arbitrary: passed)
  case Nil
  then show ?case by simp
next
  case (Cons w ws)
  show ?case
  proof (cases "w < h")
    case True
    then have "\<forall>y \<in> set (rev ws @ [w]). y < h"
      using Cons.prems(2) by (auto simp: sorted_wrt_append)
    then show ?thesis
      using True Cons.prems insort_skip [of "rev ws @ [w]" h passed] by (auto simp: insort_front)
  next
    case False
    then have "h < w" using Cons.prems(3) by auto
    then show ?thesis using False Cons.IH [of "w # passed"] Cons.prems by auto
  qed
qed

lemma sorted_wrt_less_iff: "sorted_wrt (<) xs \<longleftrightarrow> sorted xs \<and> distinct (xs :: 'a :: linorder list)"
  by (simp add: strict_sorted_iff)

text \<open>One call in terms of insertion into a sorted list, on every branch of the code.\<close>

lemma add_cases:
  assumes "blocks_inv b"
  shows "add h b =
    (if h \<in> set (heights b) then (b, 0)
     else if int (length (heights b)) < maxLen b
       then (b\<lparr>heights := insort h (heights b), index := (index b)(h \<mapsto> h)\<rparr>, 0)
     else if \<forall>k \<in> set (heights b). h < k then (b, 0)
     else (let hs = insort h (heights b) in
       (b\<lparr>heights := tl hs, index := ((index b)(h \<mapsto> h))(hd hs := None)\<rparr>, hd hs)))"
proof -
  note I = assms [unfolded blocks_inv_def]
  let ?hs = "heights b"
  show ?thesis
  proof (cases "h \<in> set ?hs")
    case True
    then show ?thesis using I by (simp add: add_def)
  next
    case False
    show ?thesis
    proof (cases "insertAfterSmaller h (rev ?hs) []")
      case None
      then have "\<forall>k \<in> set ?hs. h < k"
        using False by (auto simp: insertAfterSmaller_None order.strict_iff_order)
      then show ?thesis using None False I by (simp add: add_def insort_front)
    next
      case (Some hs)
      then have hs: "hs = insort h ?hs"
        using insertAfterSmaller_Some [OF Some] I False by simp
      have "\<not> (\<forall>k \<in> set ?hs. h \<le> k)"
        using Some insertAfterSmaller_None [of h "rev ?hs" "[]"] by auto
      then show ?thesis using Some False I hs by (auto simp: add_def Let_def)
    qed
  qed
qed

lemma set_tl_insort:
  "distinct xs \<Longrightarrow> x \<notin> set xs \<Longrightarrow> set (tl (insort x xs)) = insert x (set xs) - {hd (insort x xs)}"
proof -
  assume "distinct xs" "x \<notin> set xs"
  then have "distinct (insort x xs)" by (simp add: distinct_insort)
  moreover have "insort x xs = hd (insort x xs) # tl (insort x xs)" by simp
  ultimately have "set (tl (insort x xs)) = set (insort x xs) - {hd (insort x xs)}"
    by (metis Diff_insert_absorb distinct.simps(2) list.simps(15))
  then show ?thesis by (simp add: set_insort_key)
qed

lemma add_inv [inv_intros]: "blocks_inv b \<Longrightarrow> blocks_inv (fst (add h b))"
proof -
  assume inv: "blocks_inv b"
  note I = inv [unfolded blocks_inv_def]
  let ?hs = "heights b"
  consider "h \<in> set ?hs" | "h \<notin> set ?hs" "int (length ?hs) < maxLen b"
    | "h \<notin> set ?hs" "\<not> int (length ?hs) < maxLen b" "\<forall>k \<in> set ?hs. h < k"
    | "h \<notin> set ?hs" "\<not> int (length ?hs) < maxLen b" "\<not> (\<forall>k \<in> set ?hs. h < k)" by blast
  then show ?thesis
  proof cases
    case 2
    then show ?thesis using I
      by (auto simp: add_cases [OF inv] blocks_inv_def sorted_wrt_less_iff sorted_insort
          distinct_insort set_insort_key)
  next
    case 4
    then have "sorted_wrt (<) (tl (insort h ?hs))"
      using I by (simp add: sorted_wrt_less_iff sorted_insort distinct_insort sorted_tl distinct_tl)
    moreover have "set (tl (insort h ?hs)) = insert h (set ?hs) - {hd (insort h ?hs)}"
      using I 4 by (intro set_tl_insort) (simp_all add: sorted_wrt_less_iff)
    ultimately show ?thesis using I 4
      by (auto simp: add_cases [OF inv] blocks_inv_def Let_def)
  qed (auto simp: add_cases [OF inv] inv)
qed

section \<open>The contract\<close>

text \<open>
  What the cache relies on: membership after an insertion, that a refused height is older than
  everything that is kept, and that the reported height has left the window.
\<close>

locale height_window =
  fixes win_add :: "uint64 \<Rightarrow> 'w \<Rightarrow> 'w \<times> uint64"
    and win_mem :: "'w \<Rightarrow> uint64 \<Rightarrow> bool"
    and win_inv :: "'w \<Rightarrow> bool"
  assumes inv_add: "win_inv w \<Longrightarrow> win_inv (fst (win_add h w))"
    and mem_add: "win_inv w \<Longrightarrow> win_mem (fst (win_add h w)) k \<Longrightarrow> k = h \<or> win_mem w k"
    and refused: "win_inv w \<Longrightarrow> \<not> win_mem (fst (win_add h w)) h \<Longrightarrow>
      fst (win_add h w) = w \<and> (\<forall>k. win_mem w k \<longrightarrow> h < k)"
    and reported: "win_inv w \<Longrightarrow> snd (win_add h w) \<noteq> 0 \<Longrightarrow>
      win_mem w (snd (win_add h w)) \<and> \<not> win_mem (fst (win_add h w)) (snd (win_add h w))"
    and kept: "win_inv w \<Longrightarrow> win_mem w k \<Longrightarrow> k \<noteq> snd (win_add h w) \<Longrightarrow> win_mem (fst (win_add h w)) k"
begin

text \<open>A sequence of insertions keeps the invariant and invents no heights.\<close>

lemma fold_inv: "win_inv w \<Longrightarrow> win_inv (fold (\<lambda>h w. fst (win_add h w)) hs w)"
  by (induction hs arbitrary: w) (simp_all add: inv_add)

lemma fold_mem:
  "win_inv w \<Longrightarrow> win_mem (fold (\<lambda>h w. fst (win_add h w)) hs w) k \<Longrightarrow> k \<in> set hs \<or> win_mem w k"
proof (induction hs arbitrary: w)
  case Nil
  then show ?case by simp
next
  case (Cons h hs)
  then show ?case using mem_add [of w h k] by (fastforce simp: inv_add)
qed

text \<open>Adding a height greater than some kept height always takes effect.\<close>

lemma newer_is_kept: "win_inv w \<Longrightarrow> win_mem w k \<Longrightarrow> k < h \<Longrightarrow> win_mem (fst (win_add h w)) h"
  using refused [of w h] less_asym by blast

end

lemma hd_insort_cases: "xs \<noteq> [] \<Longrightarrow> hd (insort x xs) = x \<or> hd (insort x xs) = hd xs"
  by (cases xs) auto

lemma mem_hd_insort:
  assumes "\<not> (\<forall>k \<in> set xs. x < k)" "x \<notin> set xs" "sorted xs"
  shows "hd (insort x xs) = hd xs \<and> hd xs \<in> set xs \<and> hd xs < x"
proof -
  obtain y ys where xs: "xs = y # ys" using assms(1) by (cases xs) auto
  with assms have "y < x" by (auto simp: not_less order.strict_iff_order)
  then show ?thesis by (auto simp: xs)
qed

interpretation bw: height_window add exists_height blocks_inv
proof
  fix w h k
  assume inv: "blocks_inv w"
  then have inv': "blocks_inv (fst (add h w))" by (rule add_inv)
  note I = inv [unfolded blocks_inv_def]
  note m = exists_height_iff [OF inv] exists_height_iff [OF inv']
  have s: "sorted (heights w)" "distinct (heights w)" using I by (simp_all add: sorted_wrt_less_iff)
  note ev = mem_hd_insort [OF _ _ s(1)]
  note tl = set_tl_insort [OF s(2)]
  show "blocks_inv (fst (add h w))" by (rule inv')
  show "exists_height (fst (add h w)) k \<Longrightarrow> k = h \<or> exists_height w k"
    unfolding m by (auto simp: add_cases [OF inv] Let_def set_insort_key tl split: if_splits)
  show "\<not> exists_height (fst (add h w)) h \<Longrightarrow>
      fst (add h w) = w \<and> (\<forall>k. exists_height w k \<longrightarrow> h < k)"
    unfolding m using ev by (auto simp: add_cases [OF inv] Let_def set_insort_key tl split: if_splits)
  show "snd (add h w) \<noteq> 0 \<Longrightarrow>
      exists_height w (snd (add h w)) \<and> \<not> exists_height (fst (add h w)) (snd (add h w))"
    unfolding m using ev by (auto simp: add_cases [OF inv] Let_def tl split: if_splits)
  show "exists_height w k \<Longrightarrow> k \<noteq> snd (add h w) \<Longrightarrow> exists_height (fst (add h w)) k"
    unfolding m using ev by (auto simp: add_cases [OF inv] Let_def set_insort_key tl split: if_splits)
qed

section \<open>The window holds the greatest heights\<close>

definition last_n :: "nat \<Rightarrow> 'a list \<Rightarrow> 'a list" where
  "last_n n xs = drop (length xs - n) xs"

definition greatest :: "nat \<Rightarrow> uint64 set \<Rightarrow> uint64 list" where
  "greatest n S = last_n n (sorted_list_of_set S)"

lemma last_n_short: "length xs \<le> n \<Longrightarrow> last_n n xs = xs"
  by (simp add: last_n_def)

lemma last_n_append: "length ys \<le> n \<Longrightarrow> last_n n (xs @ ys) = last_n (n - length ys) xs @ ys"
  by (simp add: last_n_def)

lemma last_n_Suc_tl: "last_n n (xs @ y # ys) = ys" if "length ys = n"
  using that by (simp add: last_n_def)

lemma length_last_n [simp]: "length (last_n n xs) = min n (length xs)"
  by (simp add: last_n_def)

lemma last_n_split: "xs = take (length xs - n) xs @ last_n n xs"
  by (simp add: last_n_def)

text \<open>Inserting into the whole list, seen through the window.\<close>

lemma last_n_insort:
  assumes s: "sorted_wrt (<) l" and h: "h \<notin> set l" and n: "0 < n"
  shows "last_n n (insort h l) =
    (if length l < n then insort h l
     else if \<forall>k \<in> set (last_n n l). h < k then last_n n l
     else tl (insort h (last_n n l)))"
proof (cases "length l < n")
  case True
  then show ?thesis by (simp add: last_n_short)
next
  case False
  let ?p = "take (length l - n) l" and ?w = "last_n n l"
  have l: "l = ?p @ ?w" by (rule last_n_split)
  have w: "length ?w = n" using False by simp
  have pw: "sorted_wrt (<) (?p @ ?w)" using s l by simp
  show ?thesis
  proof (cases "\<forall>k \<in> set ?w. h < k")
    case True
    have "insort h (?p @ ?w) = insort h ?p @ ?w"
      using True by (rule insort_left)
    then show ?thesis using True False w l by (metis last_n_append diff_self_eq_0 last_n_def
        drop_all length_last_n order_refl self_append_conv2 diff_zero)
  next
    case no: False
    obtain y where "y \<in> set ?w" "y < h" using no h l
      by (metis Un_iff linorder_less_linear set_append)
    then have "\<forall>x \<in> set ?p. x < h" using pw by (auto simp: sorted_wrt_append dest: order.strict_trans)
    then have "insort h l = ?p @ insort h ?w" using l by (metis insort_skip)
    moreover obtain z zs where z: "insort h ?w = z # zs" by (cases "insort h ?w") auto
    moreover have "length zs = n" using w arg_cong [OF z, of length] by simp
    ultimately have "last_n n (insort h l) = zs" by (simp add: last_n_Suc_tl)
    then show ?thesis using False no z by auto
  qed
qed

lemma greatest_insert:
  assumes fin: "finite S" and n: "0 < n" and h: "h \<notin> S"
  shows "greatest n (insert h S) =
    (if card S < n then insort h (greatest n S)
     else if \<forall>k \<in> set (greatest n S). h < k then greatest n S
     else tl (insort h (greatest n S)))"
proof -
  let ?l = "sorted_list_of_set S"
  have l: "sorted_wrt (<) ?l" "set ?l = S" "length ?l = card S" using fin by simp_all
  have "sorted_list_of_set (insert h S) = insort h ?l"
    using fin h by (simp add: sorted_list_of_set_insert_remove)
  then show ?thesis
    using last_n_insort [OF l(1), of h n] h n l by (auto simp: greatest_def last_n_short)
qed

lemma greatest_absorb:
  assumes "finite S" "0 < n" "h \<in> S" "h \<notin> set (greatest n S)"
  shows "card S \<ge> n" and "\<forall>k \<in> set (greatest n S). h < k"
proof -
  let ?l = "sorted_list_of_set S"
  have l: "sorted_wrt (<) ?l" "set ?l = S" "length ?l = card S" using assms by simp_all
  show "card S \<ge> n"
  proof (rule ccontr)
    assume "\<not> card S \<ge> n"
    then have "greatest n S = ?l" using l by (simp add: greatest_def last_n_short)
    then show False using assms l by simp
  qed
  have "?l = take (length ?l - n) ?l @ greatest n S" unfolding greatest_def by (rule last_n_split)
  moreover from this have "h \<in> set (take (length ?l - n) ?l)"
    using assms(3,4) l by (metis Un_iff set_append)
  ultimately show "\<forall>k \<in> set (greatest n S). h < k"
    using l(1) by (metis sorted_wrt_append)
qed

lemma length_greatest: "finite S \<Longrightarrow> length (greatest n S) = min n (card S)"
  by (simp add: greatest_def)

text \<open>The abstraction relation: the window holds the greatest of the heights seen so far.\<close>

definition window_of :: "uint64 set \<Rightarrow> blocks \<Rightarrow> bool" where
  "window_of S b \<longleftrightarrow> finite S \<and> blocks_inv b \<and> heights b = greatest (nat (maxLen b)) S"

lemma add_maxLen [simp]: "maxLen (fst (add h b)) = maxLen b"
  by (simp add: add_def Let_def split: option.splits)

lemma window_of_add [inv_intros]:
  assumes "window_of S b"
  shows "window_of (insert h S) (fst (add h b))"
proof -
  have inv: "blocks_inv b" and S: "finite S" and hs: "heights b = greatest (nat (maxLen b)) S"
    using assms by (simp_all add: window_of_def)
  have n: "0 < nat (maxLen b)" "maxLen b = int (nat (maxLen b))" using inv by (simp_all add: blocks_inv_def)
  have len: "int (length (heights b)) < maxLen b \<longleftrightarrow> card S < nat (maxLen b)"
    using S n by (simp add: hs length_greatest) linarith
  have "heights (fst (add h b)) = greatest (nat (maxLen b)) (insert h S)"
  proof (cases "h \<in> S")
    case True
    then show ?thesis
      using greatest_absorb [OF S n(1) True] len
      by (auto simp: add_cases [OF inv] insert_absorb hs)
  next
    case False
    then have "h \<notin> set (heights b)" using S by (auto simp: hs greatest_def last_n_def dest: in_set_dropD)
    then show ?thesis
      using greatest_insert [OF S n(1) False] len by (auto simp: add_cases [OF inv] hs Let_def)
  qed
  then show ?thesis using S add_inv [OF inv] by (simp add: window_of_def)
qed

lemma window_of_new: "newBlocks n = Some b \<Longrightarrow> window_of {} b"
  using newBlocks_inv [of n b]
  by (auto simp: window_of_def newBlocks_def greatest_def last_n_def split: if_splits)

lemma window_of_fold:
  "window_of S b \<Longrightarrow> window_of (set hs \<union> S) (fold (\<lambda>h b. fst (add h b)) hs b)"
proof (induction hs arbitrary: S b)
  case Nil
  then show ?case by simp
next
  case (Cons h hs)
  then show ?case using Cons.IH [OF window_of_add [OF Cons.prems, of h]] by simp
qed

section \<open>Properties of the height window\<close>

definition add_all :: "uint64 list \<Rightarrow> blocks \<Rightarrow> blocks" where
  "add_all hs b = fold (\<lambda>h b. fst (add h b)) hs b"

text \<open>C21. Whatever heights are added in whatever order, with repetitions, a window created with
  capacity \<open>n\<close> holds exactly the \<open>n\<close> greatest of them in ascending order, and the membership test
  answers accordingly.\<close>

theorem window_holds_greatest:
  assumes "newBlocks n = Some b"
  shows "heights (add_all hs b) = greatest (nat n) (set hs) \<and>
    (\<forall>h. exists_height (add_all hs b) h \<longleftrightarrow> h \<in> set (greatest (nat n) (set hs)))"
proof -
  have "window_of (set hs) (add_all hs b)"
    unfolding add_all_def using window_of_fold [OF window_of_new [OF assms(1)], of hs] by simp
  moreover have "maxLen (fold (\<lambda>h b. fst (add h b)) hs c) = maxLen c" for c
    by (induction hs arbitrary: c) simp_all
  moreover have "maxLen b = n" using assms(1) by (auto simp: newBlocks_def split: if_splits)
  ultimately show ?thesis by (auto simp: window_of_def add_all_def exists_height_iff)
qed

text \<open>A call that reports an evicted height removes exactly the oldest height of the window and no
  other, and the new height is in the window afterwards.\<close>

theorem add_evicts_oldest:
  assumes "blocks_inv b" and "snd (add h b) \<noteq> 0"
  shows "snd (add h b) = hd (heights b) \<and>
    (\<forall>k. exists_height (fst (add h b)) k \<longleftrightarrow> k = h \<or> (exists_height b k \<and> k \<noteq> hd (heights b)))"
proof -
  have "snd (add h b) = hd (heights b)"
    using assms mem_hd_insort [of "heights b" h]
    by (auto simp: add_cases [OF assms(1)] blocks_inv_def sorted_wrt_less_iff Let_def split: if_splits)
  then show ?thesis
    using assms bw.reported bw.kept bw.mem_add bw.refused [of b h] by metis
qed

theorem window_holds_greatest_witness:
  "heights (add_all [9, 2, 3, 16, 3] \<lparr>heights = [], index = Map.empty, maxLen = 3\<rparr>) =
     greatest (nat 3) (set [9, 2, 3, 16, 3])"
  by (rule window_holds_greatest [THEN conjunct1]) (simp add: newBlocks_def)

theorem add_evicts_oldest_witness:
  "snd (add 7 \<lparr>heights = [4, 5], index = [4 \<mapsto> 4, 5 \<mapsto> 5], maxLen = 2\<rparr>) =
     hd (heights \<lparr>heights = [4, 5], index = [4 \<mapsto> 4, 5 \<mapsto> 5], maxLen = 2\<rparr>)"
  by (rule add_evicts_oldest [THEN conjunct1]) (auto simp: blocks_inv_def add_def)

end
