(* ===== verification/Cache.thy ===== *)
theory Cache
  imports Config Miner Blocks
begin

text \<open>
  The in-memory cache of \<^verbatim>\<open>pkg/modelx\<close> (\<^verbatim>\<open>cache.go\<close>): the miners, the current block with the round
  information and the JSON text handed out to miners, the reward recipients, the slow and fast
  block heights and the confidence factors. Miners are reached through pointers; the field \<open>heap\<close>
  holds the miner objects and \<open>miners\<close> maps an account to the index of its object, so that an object
  that was removed from the map can still be used by a request that holds its pointer.
\<close>

section \<open>Records\<close>

record Block =
  bHeight :: uint64
  bBaseTarget :: uint64
  bScoop :: uint32
  bGenerationSignature :: string
  bGenerationSignatureBytes :: "byte list"
  bWinnerVerified :: bool
  bWinnerID :: "int64 option"
  bReward :: "int64 option"
  bBestNonceSubmissionID :: "int64 option"
  bCreated :: time
  bGenerationTime :: int32

record NonceSubmission =
  nsNonce :: uint64
  nsDeadline :: uint64
  nsMinerID :: uint64
  nsHeight :: uint64
  nsName :: string
  nsAddress :: string
  nsRoundStart :: time
  nsGenerationSignature :: string

record RoundInfo =
  riScoop :: uint32
  riBaseTarget :: uint64
  riHeight :: uint64
  riGenSig :: "byte list"
  riRoundStart :: time
  riGenerationSignature :: string

text \<open>The zero values: the zero \<open>time.Time\<close> is January 1 of the year 1.\<close>

definition zero_time :: time where "zero_time = - (62135596800 * 1000000000)"

definition zero_Block :: Block where
  "zero_Block = \<lparr>bHeight = 0, bBaseTarget = 0, bScoop = 0, bGenerationSignature = [],
     bGenerationSignatureBytes = [], bWinnerVerified = False, bWinnerID = None, bReward = None,
     bBestNonceSubmissionID = None, bCreated = zero_time, bGenerationTime = 0\<rparr>"

definition zero_NonceSubmission :: NonceSubmission where
  "zero_NonceSubmission = \<lparr>nsNonce = 0, nsDeadline = 0, nsMinerID = 0, nsHeight = 0, nsName = [],
     nsAddress = [], nsRoundStart = zero_time, nsGenerationSignature = []\<rparr>"

record cache =
  heap :: "Miner list"
  miners :: "(uint64 \<times> nat) list"
  bestNonceSubmission :: NonceSubmission
  currentBlock :: Block
  poolCap :: float64
  minerCount :: int32
  rewardRecipient :: "(uint64 \<times> bool) list"
  slowBlocks :: blocks
  fastBlocks :: blocks
  alphas :: "float64 list"
  miningInfoJSON :: string
  roundInfo :: RoundInfo

section \<open>The current block\<close>

definition round_info_of :: "Block \<Rightarrow> RoundInfo" where
  "round_info_of b = \<lparr>riScoop = bScoop b, riBaseTarget = bBaseTarget b, riHeight = bHeight b,
     riGenSig = bGenerationSignatureBytes b, riRoundStart = bCreated b,
     riGenerationSignature = bGenerationSignature b\<rparr>"

definition StoreRoundInfo :: "Block \<Rightarrow> cache \<Rightarrow> cache" where
  "StoreRoundInfo b c = c\<lparr>currentBlock := b, roundInfo := round_info_of b\<rparr>"

text \<open>
  \<open>json.Marshal\<close> of a string: quotation mark, backslash, control characters and the characters
  \<^verbatim>\<open><\<close>, \<^verbatim>\<open>>\<close> and \<^verbatim>\<open>&\<close> are escaped. The keys of a map are written in ascending order.
\<close>

definition hex_digit :: "nat \<Rightarrow> char" where
  "hex_digit d = (if d < 10 then char_of (48 + d) else char_of (87 + d))"

definition json_char :: "char \<Rightarrow> string" where
  "json_char c = (let n = of_char c :: nat in
     if n = 34 \<or> n = 92 then [CHR 92, c]
     else if n = 10 then [CHR 92, CHR ''n'']
     else if n = 13 then [CHR 92, CHR ''r'']
     else if n = 9 then [CHR 92, CHR ''t'']
     else if n < 32 \<or> n = 60 \<or> n = 62 \<or> n = 38
       then [CHR 92, CHR ''u'', CHR ''0'', CHR ''0'', hex_digit (n div 16), hex_digit (n mod 16)]
     else [c])"

definition json_string :: "string \<Rightarrow> string" where
  "json_string s = [CHR 34] @ concat (map json_char s) @ [CHR 34]"

definition mining_info_json :: "uint64 \<Rightarrow> Block \<Rightarrow> string" where
  "mining_info_json deadlineLimit b =
     ''{'' @ json_string ''baseTarget'' @ '':'' @ FormatUint (bBaseTarget b) @ '','' @
     json_string ''generationSignature'' @ '':'' @ json_string (bGenerationSignature b) @ '','' @
     json_string ''height'' @ '':'' @ FormatUint (bHeight b) @ '','' @
     json_string ''targetDeadline'' @ '':'' @ FormatUint deadlineLimit @ ''}''"

definition StoreMiningInfo :: "Config \<Rightarrow> Block \<Rightarrow> cache \<Rightarrow> cache" where
  "StoreMiningInfo cfg b c = c\<lparr>miningInfoJSON := mining_info_json (DeadlineLimit cfg) b\<rparr>"

definition StoreCurrentBlock :: "Config \<Rightarrow> Block \<Rightarrow> cache \<Rightarrow> cache" where
  "StoreCurrentBlock cfg b c = StoreMiningInfo cfg b (StoreRoundInfo b c)"

section \<open>Initialisation\<close>

definition InitCache :: "(float64 \<Rightarrow> float64) \<Rightarrow> Config \<Rightarrow> cache option" where
  "InitCache mlog cfg = do {
     as \<leftarrow> computeAlphas mlog (NAVG cfg) (NMin cfg);
     slow \<leftarrow> newBlocks (NAVG cfg);
     fast \<leftarrow> newBlocks (NAVG cfg);
     Some (StoreCurrentBlock cfg zero_Block \<lparr>heap = [], miners = [],
       bestNonceSubmission = zero_NonceSubmission, currentBlock = zero_Block, poolCap = F 0,
       minerCount = 0, rewardRecipient = [], slowBlocks = slow, fastBlocks = fast, alphas = as,
       miningInfoJSON = [], roundInfo = round_info_of zero_Block\<rparr>) }"

section \<open>Getters and setters\<close>

definition StorePoolCap :: "float64 \<Rightarrow> cache \<Rightarrow> cache" where
  "StorePoolCap cap c = c\<lparr>poolCap := cap\<rparr>"

definition GetPoolCap :: "cache \<Rightarrow> float64" where "GetPoolCap c = poolCap c"

definition StoreMinerCount :: "int32 \<Rightarrow> cache \<Rightarrow> cache" where
  "StoreMinerCount i c = c\<lparr>minerCount := i\<rparr>"

definition GetMinerCount :: "cache \<Rightarrow> int32" where "GetMinerCount c = minerCount c"

definition GetMiningInfoJSON :: "cache \<Rightarrow> string" where "GetMiningInfoJSON c = miningInfoJSON c"

definition GetRoundInfo :: "cache \<Rightarrow> RoundInfo" where "GetRoundInfo c = roundInfo c"

definition CurrentBlock :: "cache \<Rightarrow> Block" where "CurrentBlock c = currentBlock c"

definition StoreBestNonceSubmission :: "NonceSubmission \<Rightarrow> cache \<Rightarrow> cache" where
  "StoreBestNonceSubmission ns c = c\<lparr>bestNonceSubmission := ns\<rparr>"

definition BestNonceSubmission :: "cache \<Rightarrow> NonceSubmission" where
  "BestNonceSubmission c = bestNonceSubmission c"

section \<open>Miners\<close>

text \<open>\<open>new_miner_object\<close> allocates an object; its index is the pointer.\<close>

definition new_miner_object :: "Miner \<Rightarrow> cache \<Rightarrow> nat \<times> cache" where
  "new_miner_object m c = (length (heap c), c\<lparr>heap := heap c @ [m]\<rparr>)"

definition miner_at :: "cache \<Rightarrow> nat \<Rightarrow> Miner" where
  "miner_at c p = heap c ! p"

definition map_miner :: "nat \<Rightarrow> (Miner \<Rightarrow> Miner) \<Rightarrow> cache \<Rightarrow> cache" where
  "map_miner p f c = c\<lparr>heap := (heap c)[p := f (heap c ! p)]\<rparr>"

definition LoadOrStoreMiner :: "nat \<Rightarrow> cache \<Rightarrow> nat \<times> cache" where
  "LoadOrStoreMiner p c = (case map_of (miners c) (mID (miner_at c p)) of
     Some q \<Rightarrow> (q, c)
   | None \<Rightarrow> (p, c\<lparr>miners := AList.update (mID (miner_at c p)) p (miners c)\<rparr>))"

definition GetMiner :: "uint64 \<Rightarrow> cache \<Rightarrow> nat option" where
  "GetMiner i c = map_of (miners c) i"

definition DeleteMiner :: "uint64 \<Rightarrow> cache \<Rightarrow> cache" where
  "DeleteMiner i c = c\<lparr>miners := AList.delete i (miners c)\<rparr>"

text \<open>\<open>MinerRange\<close> calls its argument on every entry that is in the map when the call starts.\<close>

definition MinerRange :: "(uint64 \<Rightarrow> nat \<Rightarrow> 's \<Rightarrow> 's) \<Rightarrow> (uint64 \<times> nat) list \<Rightarrow> 's \<Rightarrow> 's" where
  "MinerRange f ms s = fold (\<lambda>(k, p). f k p) ms s"

section \<open>Reward recipients\<close>

definition IsRewardRecipient :: "uint64 \<Rightarrow> cache \<Rightarrow> bool \<times> bool" where
  "IsRewardRecipient i c = (case map_of (rewardRecipient c) i of
     None \<Rightarrow> (False, False) | Some isCorrect \<Rightarrow> (isCorrect, True))"

definition StoreRewardRecipient :: "uint64 \<Rightarrow> bool \<Rightarrow> cache \<Rightarrow> cache" where
  "StoreRewardRecipient i isCorrect c = c\<lparr>rewardRecipient := AList.update i isCorrect (rewardRecipient c)\<rparr>"

definition StoreRewardRecipients :: "(uint64 \<times> bool) list \<Rightarrow> cache \<Rightarrow> cache" where
  "StoreRewardRecipients rr c = c\<lparr>rewardRecipient := rr\<rparr>"

section \<open>Slow and fast blocks\<close>

text \<open>\<open>WasSlowBlock\<close> returns whether the block was slow and whether it is known.\<close>

definition WasSlowBlock :: "uint64 \<Rightarrow> cache \<Rightarrow> bool \<times> bool" where
  "WasSlowBlock height c =
     (if exists_height (slowBlocks c) height then (True, True)
      else if exists_height (fastBlocks c) height then (False, True)
      else (False, False))"

definition AddSlowBlock :: "uint64 \<Rightarrow> cache \<Rightarrow> cache \<times> uint64" where
  "AddSlowBlock height c = (case add height (slowBlocks c) of (b, old) \<Rightarrow> (c\<lparr>slowBlocks := b\<rparr>, old))"

definition AddBlock :: "Config \<Rightarrow> uint64 \<Rightarrow> int32 \<Rightarrow> cache \<Rightarrow> cache \<times> uint64" where
  "AddBlock cfg height generationTime c =
     (if generationTime < TMin cfg
      then (case add height (fastBlocks c) of (b, old) \<Rightarrow> (c\<lparr>fastBlocks := b\<rparr>, old))
      else (case add height (slowBlocks c) of (b, old) \<Rightarrow> (c\<lparr>slowBlocks := b\<rparr>, old)))"

section \<open>Invariant\<close>

definition miners_wf :: "cache \<Rightarrow> bool" where
  "miners_wf c \<longleftrightarrow> distinct (map fst (miners c)) \<and>
     (\<forall>i p. (i, p) \<in> set (miners c) \<longrightarrow> p < length (heap c) \<and> mID (heap c ! p) = i) \<and>
     (\<forall>m \<in> set (heap c). miner_wf m)"

definition announces_current :: "Config \<Rightarrow> cache \<Rightarrow> bool" where
  "announces_current cfg c \<longleftrightarrow> roundInfo c = round_info_of (currentBlock c) \<and>
     miningInfoJSON c = mining_info_json (DeadlineLimit cfg) (currentBlock c)"

definition cache_inv :: "Config \<Rightarrow> cache \<Rightarrow> bool" where
  "cache_inv cfg c \<longleftrightarrow> miners_wf c \<and> announces_current cfg c \<and>
     blocks_inv (slowBlocks c) \<and> blocks_inv (fastBlocks c)"

named_theorems cache_simps \<open>definitions of the cache operations that touch one field only\<close>

lemmas cache_setters [cache_simps] =
  StorePoolCap_def StoreMinerCount_def StoreBestNonceSubmission_def StoreRewardRecipient_def
  StoreRewardRecipients_def StoreRoundInfo_def StoreMiningInfo_def StoreCurrentBlock_def

lemma StoreCurrentBlock_inv [inv_intros]: "cache_inv cfg c \<Longrightarrow> cache_inv cfg (StoreCurrentBlock cfg b c)"
  by (simp add: cache_inv_def cache_simps miners_wf_def announces_current_def)

lemma StoreBestNonceSubmission_inv [inv_intros]:
  "cache_inv cfg c \<Longrightarrow> cache_inv cfg (StoreBestNonceSubmission ns c)"
  by (simp add: cache_inv_def cache_simps miners_wf_def announces_current_def)

lemma StoreRewardRecipients_inv [inv_intros]:
  "cache_inv cfg c \<Longrightarrow> cache_inv cfg (StoreRewardRecipients rr c)"
  by (simp add: cache_inv_def cache_simps miners_wf_def announces_current_def)

lemma AddBlock_inv [inv_intros]: "cache_inv cfg c \<Longrightarrow> cache_inv cfg (fst (AddBlock cfg' h t c))"
  using add_inv [of "fastBlocks c" h] add_inv [of "slowBlocks c" h]
  by (auto simp: cache_inv_def AddBlock_def miners_wf_def announces_current_def split: prod.splits)

lemma map_miner_inv [inv_intros]:
  assumes "cache_inv cfg c" "p < length (heap c) \<Longrightarrow> miner_wf (f (heap c ! p))"
    "p < length (heap c) \<Longrightarrow> mID (f (heap c ! p)) = mID (heap c ! p)"
  shows "cache_inv cfg (map_miner p f c)"
proof (cases "p < length (heap c)")
  case True
  then have "\<forall>m \<in> set ((heap c)[p := f (heap c ! p)]). miner_wf m"
    using assms set_update_subset_insert [of "heap c" p "f (heap c ! p)"]
    by (auto simp: cache_inv_def miners_wf_def)
  then show ?thesis using assms True
    by (simp add: cache_inv_def map_miner_def miners_wf_def announces_current_def nth_list_update)
next
  case False
  then have "map_miner p f c = c" by (simp add: map_miner_def not_less list_update_beyond)
  then show ?thesis using assms by simp
qed

lemma DeleteMiner_inv [inv_intros]: "cache_inv cfg c \<Longrightarrow> cache_inv cfg (DeleteMiner i c)"
  using delete_subset [of i "miners c"]
  by (auto simp: cache_inv_def DeleteMiner_def miners_wf_def announces_current_def distinct_delete)

lemma new_miner_object_inv [inv_intros]:
  "cache_inv cfg c \<Longrightarrow> miner_wf m \<Longrightarrow> cache_inv cfg (snd (new_miner_object m c))"
  by (auto simp: cache_inv_def new_miner_object_def miners_wf_def announces_current_def nth_append
      less_Suc_eq)

lemma LoadOrStoreMiner_inv [inv_intros]:
  "cache_inv cfg c \<Longrightarrow> p < length (heap c) \<Longrightarrow> cache_inv cfg (snd (LoadOrStoreMiner p c))"
  by (auto simp: cache_inv_def LoadOrStoreMiner_def miners_wf_def announces_current_def miner_at_def
      update_new map_of_eq_None_iff split: option.splits)

section \<open>The map of miners as an interface\<close>

text \<open>
  What requests rely on when they share miner objects: the laws of \<open>sync.Map\<close> for \<open>Load\<close>,
  \<open>LoadOrStore\<close> and \<open>Delete\<close>.
\<close>

locale object_map =
  fixes get :: "'k \<Rightarrow> 'c \<Rightarrow> 'p option"
    and load_or_store :: "'p \<Rightarrow> 'c \<Rightarrow> 'p \<times> 'c"
    and remove :: "'k \<Rightarrow> 'c \<Rightarrow> 'c"
    and key :: "'c \<Rightarrow> 'p \<Rightarrow> 'k"
  assumes store_present: "get (key c p) c = Some q \<Longrightarrow> load_or_store p c = (q, c)"
    and store_absent: "get (key c p) c = None \<Longrightarrow> fst (load_or_store p c) = p"
    and get_store: "get (key c p) c = None \<Longrightarrow>
      get i (snd (load_or_store p c)) = (if i = key c p then Some p else get i c)"
    and key_store: "key (snd (load_or_store p c)) q = key c q"
    and get_remove: "get i (remove j c) = (if i = j then None else get i c)"
begin

lemma get_after_store: "get (key c p) (snd (load_or_store p c)) = Some (fst (load_or_store p c))"
  by (cases "get (key c p) c") (simp_all add: store_present store_absent get_store)

lemma store_keeps: "get i c = Some q \<Longrightarrow> get i (snd (load_or_store p c)) = Some q"
  by (cases "get (key c p) c") (auto simp: store_present get_store)

lemma first_store_wins:
  assumes "key c p = key c q"
  shows "fst (load_or_store q (snd (load_or_store p c))) = fst (load_or_store p c)"
proof -
  have "get (key (snd (load_or_store p c)) q) (snd (load_or_store p c)) = Some (fst (load_or_store p c))"
    using get_after_store [of c p] assms by (simp add: key_store)
  then show ?thesis by (simp add: store_present)
qed

end

interpretation mm: object_map GetMiner LoadOrStoreMiner DeleteMiner "\<lambda>c p. mID (miner_at c p)"
  by unfold_locales
    (auto simp: GetMiner_def LoadOrStoreMiner_def DeleteMiner_def miner_at_def AList.delete_conv' update_new
      map_add_def split: option.splits)

section \<open>Properties\<close>

lemma InitCache_inv:
  assumes "config_ok cfg"
  shows "\<exists>c. InitCache mlog cfg = Some c \<and> cache_inv cfg c \<and> length (alphas c) = nat (NAVG cfg) \<and> miners c = []"
proof -
  have n: "0 < NAVG cfg" using assms by (simp add: config_ok_def)
  then obtain as where as: "computeAlphas mlog (NAVG cfg) (NMin cfg) = Some as" "length as = nat (NAVG cfg)"
    by (simp add: computeAlphas_Some)
  obtain b where b: "newBlocks (NAVG cfg) = Some b" "blocks_inv b"
    using n newBlocks_inv [of "NAVG cfg"] by (auto simp: newBlocks_def)
  then show ?thesis
    using as by (simp add: InitCache_def cache_inv_def cache_simps miners_wf_def announces_current_def)
qed

text \<open>
  With a validated configuration the cache can be initialised without a panic, and it starts in a
  state that satisfies its invariant.
\<close>

theorem InitCache_ok:
  assumes "config_ok cfg"
  shows "\<exists>c. InitCache mlog cfg = Some c \<and> cache_inv cfg c \<and>
    length (alphas c) = nat (NAVG cfg) \<and> miners c = []"
  using assms by (rule InitCache_inv)

theorem InitCache_ok_witness:
  "\<exists>c. InitCache sample_log (with_defaults example_config) = Some c \<and>
     cache_inv (with_defaults example_config) c \<and> length (alphas c) = 360"
proof -
  have "config_ok (with_defaults example_config)"
    by (simp add: config_ok_def with_defaults_def db_defaults_def example_config_def unit_share_def)
  from InitCache_ok [OF this, of sample_log] show ?thesis
    by (auto simp: with_defaults_def example_config_def)
qed


definition sample_cache :: cache where
  "sample_cache = \<lparr>heap = [sample_miner, sample_miner], miners = [],
     bestNonceSubmission = zero_NonceSubmission, currentBlock = zero_Block, poolCap = F 0,
     minerCount = 0, rewardRecipient = [],
     slowBlocks = \<lparr>heights = [], index = Map.empty, maxLen = 3\<rparr>,
     fastBlocks = \<lparr>heights = [], index = Map.empty, maxLen = 3\<rparr>, alphas = [F 0, F 0, F 1],
     miningInfoJSON = mining_info_json 0 zero_Block, roundInfo = round_info_of zero_Block\<rparr>"


end
