(* ===== verification/Database.thy ===== *)
theory Database
  imports Cache
begin

text \<open>
  The pool's database as \<^verbatim>\<open>migrations\<close> creates it, and every SQL statement of \<^verbatim>\<open>modelx.go\<close> as a
  function on it. A table is the list of its rows; a query without \<open>ORDER BY\<close> returns them in the
  order of the list, and the theorems hold for every order. A statement fails as MariaDB in its
  strict mode does: on a duplicate key, a violated foreign key, a value out of range, or a
  statement it does not accept. \<open>ON DELETE CASCADE\<close> removes rows whose reference is gone, until no
  such row is left.
\<close>

section \<open>Tables\<close>

record account_row =
  aID :: uint64
  aAddress :: string
  aName :: "string option"
  aPending :: int64
  aMinPayout :: "int64 option"
  aInterval :: "string option"
  aNextDate :: "time option"

record submission_row =
  sID :: int64
  sMiner :: uint64
  sHeight :: uint64
  sDeadline :: uint64
  sNonce :: uint64

record block_row =
  kHeight :: uint64
  kBaseTarget :: uint64
  kScoop :: uint32
  kGenSig :: string
  kVerified :: bool
  kReward :: "int64 option"
  kWinner :: "uint64 option"
  kBest :: "int64 option"
  kCreated :: time
  kGenTime :: int32

record miner_row =
  rID :: uint64
  rCapacity :: "int64 option"

record tx_row =
  tID :: int64
  tTxID :: "uint64 option"
  tHeight :: "uint64 option"
  tCreated :: time

record recipient_row =
  pID :: int64
  pTx :: int64
  pRecipient :: uint64
  pAmount :: int64

record database =
  account :: "account_row list"
  nonce_submission :: "submission_row list"
  block :: "block_row list"
  miner :: "miner_row list"
  transaction :: "tx_row list"
  transaction_recipient :: "recipient_row list"
  next_submission :: int64
  next_tx :: int64
  next_recipient :: int64

datatype sql_error = ConnError | DuplicateEntry | ForeignKeyFails | OutOfRange | BadStatement | NoRows

section \<open>Helpers\<close>

definition upd_where :: "('r \<Rightarrow> bool) \<Rightarrow> ('r \<Rightarrow> 'r) \<Rightarrow> 'r list \<Rightarrow> 'r list" where
  "upd_where P f rs = map (\<lambda>r. if P r then f r else r) rs"

text \<open>A \<open>DATETIME\<close> column keeps whole seconds; \<open>NOW()\<close> is the current second.\<close>

definition to_datetime :: "time \<Rightarrow> time" where
  "to_datetime t = (t + 500000000) div 1000000000 * 1000000000"

definition sql_now :: "time \<Rightarrow> time" where
  "sql_now t = t div 1000000000 * 1000000000"

definition day :: time where "day = 24 * 3600 * 1000000000"

definition has_account :: "uint64 \<Rightarrow> database \<Rightarrow> bool" where
  "has_account i d \<longleftrightarrow> i \<in> aID ` set (account d)"

definition has_block :: "uint64 \<Rightarrow> database \<Rightarrow> bool" where
  "has_block h d \<longleftrightarrow> h \<in> kHeight ` set (block d)"

definition opt_in :: "'a option \<Rightarrow> 'a set \<Rightarrow> bool" where
  "opt_in x S = (case x of None \<Rightarrow> True | Some y \<Rightarrow> y \<in> S)"

text \<open>One round of cascading deletes, and all of them: each round but the last removes a row.\<close>

definition cascade_round :: "database \<Rightarrow> database" where
  "cascade_round d = d\<lparr>
     nonce_submission := filter (\<lambda>s. has_account (sMiner s) d \<and> has_block (sHeight s) d) (nonce_submission d),
     block := filter (\<lambda>k. opt_in (kWinner k) (aID ` set (account d)) \<and>
       opt_in (kBest k) (sID ` set (nonce_submission d))) (block d),
     miner := filter (\<lambda>m. has_account (rID m) d) (miner d),
     transaction := filter (\<lambda>t. opt_in (tHeight t) (kHeight ` set (block d))) (transaction d),
     transaction_recipient := filter (\<lambda>r. has_account (pRecipient r) d \<and> pTx r \<in> tID ` set (transaction d))
       (transaction_recipient d)\<rparr>"

definition row_count :: "database \<Rightarrow> nat" where
  "row_count d = length (nonce_submission d) + length (block d) + length (miner d) +
     length (transaction d) + length (transaction_recipient d)"

definition cascade :: "database \<Rightarrow> database" where
  "cascade d = (cascade_round ^^ row_count d) d"

section \<open>Accounts and miners\<close>

text \<open>\<open>INSERT IGNORE\<close> skips an existing id or address; a name is cut to its 100 characters.\<close>

definition sql_insert_account :: "uint64 \<Rightarrow> string \<Rightarrow> string option \<Rightarrow> database \<Rightarrow> sql_error + database" where
  "sql_insert_account i address name d = Inr
     (if has_account i d \<or> address \<in> aAddress ` set (account d) then d
      else d\<lparr>account := account d @ [\<lparr>aID = i, aAddress = address, aName = map_option (take 100) name,
        aPending = 0, aMinPayout = None, aInterval = None, aNextDate = None\<rparr>]\<rparr>)"

definition sql_insert_miner :: "uint64 \<Rightarrow> database \<Rightarrow> sql_error + database" where
  "sql_insert_miner i d = Inr
     (if i \<in> rID ` set (miner d) \<or> \<not> has_account i d then d
      else d\<lparr>miner := miner d @ [\<lparr>rID = i, rCapacity = None\<rparr>]\<rparr>)"

definition sql_select_account :: "uint64 \<Rightarrow> database \<Rightarrow> sql_error + account_row" where
  "sql_select_account i d = (case find (\<lambda>a. aID a = i) (account d) of
     Some a \<Rightarrow> Inr a | None \<Rightarrow> Inl NoRows)"

definition sql_set_name :: "string \<Rightarrow> uint64 \<Rightarrow> database \<Rightarrow> sql_error + database" where
  "sql_set_name name i d =
     (if has_account i d \<and> 100 < length name then Inl OutOfRange
      else Inr (d\<lparr>account := upd_where (\<lambda>a. aID a = i) (\<lambda>a. a\<lparr>aName := Some name\<rparr>) (account d)\<rparr>))"

definition sql_set_capacity :: "int64 \<Rightarrow> uint64 \<Rightarrow> database \<Rightarrow> sql_error + database" where
  "sql_set_capacity cap i d = Inr
     (d\<lparr>miner := upd_where (\<lambda>m. rID m = i) (\<lambda>m. m\<lparr>rCapacity := Some cap\<rparr>) (miner d)\<rparr>)"

text \<open>\<open>pending = pending + delta\<close>; a result that does not fit the column fails the statement.\<close>

definition sql_add_pending :: "int \<Rightarrow> uint64 \<Rightarrow> database \<Rightarrow> sql_error + database" where
  "sql_add_pending delta i d =
     (if \<forall>a \<in> set (account d). aID a = i \<longrightarrow> is_i64 (aPending a + delta)
      then Inr (d\<lparr>account := upd_where (\<lambda>a. aID a = i) (\<lambda>a. a\<lparr>aPending := aPending a + delta\<rparr>) (account d)\<rparr>)
      else Inl OutOfRange)"

section \<open>Cleaning up\<close>

definition sql_delete_blocks_below :: "uint64 \<Rightarrow> database \<Rightarrow> sql_error + database" where
  "sql_delete_blocks_below h d = Inr (cascade (d\<lparr>block := filter (\<lambda>k. \<not> kHeight k < h) (block d)\<rparr>))"

definition sql_delete_idle_miners :: "database \<Rightarrow> sql_error + database" where
  "sql_delete_idle_miners d = Inr
     (d\<lparr>miner := filter (\<lambda>m. rID m \<in> sMiner ` set (nonce_submission d)) (miner d)\<rparr>)"

definition is_miner_id :: "uint64 \<Rightarrow> database \<Rightarrow> bool" where
  "is_miner_id i d \<longleftrightarrow> i \<in> rID ` set (miner d)"

text \<open>The sum over no rows is \<open>NULL\<close>, which the column does not accept.\<close>

definition sql_transfer_pending :: "uint64 \<Rightarrow> database \<Rightarrow> sql_error + database" where
  "sql_transfer_pending fee d =
     (let left = filter (\<lambda>a. \<not> is_miner_id (aID a) d) (account d); s = sum_list (map aPending left) in
      if \<not> has_account fee d then Inr d
      else if left = [] \<or> \<not> is_i64 s then Inl OutOfRange
      else Inr (d\<lparr>account := upd_where (\<lambda>a. aID a = fee) (\<lambda>a. a\<lparr>aPending := s\<rparr>) (account d)\<rparr>))"

definition sql_delete_old_accounts :: "uint64 \<Rightarrow> database \<Rightarrow> sql_error + database" where
  "sql_delete_old_accounts fee d = Inr
     (cascade (d\<lparr>account := filter (\<lambda>a. aID a = fee \<or> is_miner_id (aID a) d) (account d)\<rparr>))"

section \<open>Blocks and submissions\<close>

definition sql_latest_block :: "database \<Rightarrow> sql_error + block_row" where
  "sql_latest_block d = (case sort_key (\<lambda>k. - uint (kHeight k)) (block d) of
     k # _ \<Rightarrow> Inr k | [] \<Rightarrow> Inl NoRows)"

definition sql_set_generation_time :: "int32 \<Rightarrow> uint64 \<Rightarrow> database \<Rightarrow> sql_error + database" where
  "sql_set_generation_time t h d = Inr
     (d\<lparr>block := upd_where (\<lambda>k. kHeight k = h) (\<lambda>k. k\<lparr>kGenTime := t\<rparr>) (block d)\<rparr>)"

definition sql_insert_block ::
  "uint64 \<Rightarrow> uint64 \<Rightarrow> uint32 \<Rightarrow> string \<Rightarrow> time \<Rightarrow> int32 \<Rightarrow> database \<Rightarrow> sql_error + database" where
  "sql_insert_block h bt sc gs created gt d =
     (if has_block h d then Inl DuplicateEntry
      else Inr (d\<lparr>block := block d @ [\<lparr>kHeight = h, kBaseTarget = bt, kScoop = sc, kGenSig = gs,
        kVerified = False, kReward = None, kWinner = None, kBest = None, kCreated = to_datetime created,
        kGenTime = gt\<rparr>]\<rparr>))"

text \<open>
  The columns of the table \<^verbatim>\<open>block\<close>. A statement that names another column is rejected: that of
  \<open>switchBlock\<close> sets \<^verbatim>\<open>baseTarget\<close>, where the schema has \<^verbatim>\<open>base_target\<close>. Its \<^verbatim>\<open>DELETE nonce_submission
  WHERE\<close> lacks the \<^verbatim>\<open>FROM\<close>, which the grammar of MariaDB requires.
\<close>

definition block_columns :: "string list" where
  "block_columns = [''height'', ''base_target'', ''scoop'', ''generation_signature'', ''winner_verified'',
     ''reward'', ''winner_id'', ''best_nonce_submission_id'', ''created'', ''generation_time'']"

definition sql_switch_block :: "string \<Rightarrow> uint64 \<Rightarrow> uint64 \<Rightarrow> database \<Rightarrow> sql_error + database" where
  "sql_switch_block gs bt h d =
     (if set [''generation_signature'', ''baseTarget''] \<subseteq> set block_columns
      then Inr (d\<lparr>block := upd_where (\<lambda>k. kHeight k = h)
        (\<lambda>k. k\<lparr>kGenSig := gs, kBaseTarget := bt\<rparr>) (block d)\<rparr>)
      else Inl BadStatement)"

lemma sql_switch_block_fails: "sql_switch_block gs bt h d = Inl BadStatement"
  by (simp add: sql_switch_block_def block_columns_def)

definition sql_switch_delete :: "uint64 \<Rightarrow> uint64 \<Rightarrow> database \<Rightarrow> sql_error + database" where
  "sql_switch_delete i h d = Inl BadStatement"

definition sql_update_submission ::
  "uint64 \<Rightarrow> uint64 \<Rightarrow> uint64 \<Rightarrow> uint64 \<Rightarrow> database \<Rightarrow> sql_error + database" where
  "sql_update_submission dl n i h d = Inr
     (d\<lparr>nonce_submission := upd_where (\<lambda>s. sMiner s = i \<and> sHeight s = h)
        (\<lambda>s. s\<lparr>sDeadline := dl, sNonce := n\<rparr>) (nonce_submission d)\<rparr>)"

definition sql_insert_submission ::
  "uint64 \<Rightarrow> uint64 \<Rightarrow> uint64 \<Rightarrow> uint64 \<Rightarrow> database \<Rightarrow> sql_error + database" where
  "sql_insert_submission i h dl n d =
     (if \<exists>s \<in> set (nonce_submission d). sMiner s = i \<and> sHeight s = h then Inl DuplicateEntry
      else if \<not> has_account i d \<or> \<not> has_block h d then Inl ForeignKeyFails
      else Inr (d\<lparr>nonce_submission := nonce_submission d @ [\<lparr>sID = next_submission d, sMiner = i,
        sHeight = h, sDeadline = dl, sNonce = n\<rparr>], next_submission := next_submission d + 1\<rparr>))"

definition submission_id_of :: "uint64 \<Rightarrow> uint64 \<Rightarrow> database \<Rightarrow> int64 option" where
  "submission_id_of h i d = map_option sID (find (\<lambda>s. sHeight s = h \<and> sMiner s = i) (nonce_submission d))"

definition sql_set_best :: "uint64 \<Rightarrow> uint64 \<Rightarrow> database \<Rightarrow> sql_error + database" where
  "sql_set_best i h d = Inr
     (d\<lparr>block := upd_where (\<lambda>k. kHeight k = h) (\<lambda>k. k\<lparr>kBest := submission_id_of (kHeight k) i d\<rparr>) (block d)\<rparr>)"

text \<open>The best submission of a block: its name and address come from the account, the miner must exist.\<close>

definition sql_best_submission :: "uint64 \<Rightarrow> database \<Rightarrow> sql_error + NonceSubmission" where
  "sql_best_submission h d =
     (case concat (map (\<lambda>k. concat (map (\<lambda>s. concat (map (\<lambda>m. map (\<lambda>a.
           \<lparr>nsNonce = sNonce s, nsDeadline = sDeadline s, nsMinerID = rID m, nsHeight = kHeight k,
            nsName = (case aName a of Some n \<Rightarrow> n | None \<Rightarrow> []), nsAddress = aAddress a,
            nsRoundStart = kCreated k, nsGenerationSignature = []\<rparr>)
           (filter (\<lambda>a. aID a = sMiner s) (account d)))
         (filter (\<lambda>m. rID m = sMiner s) (miner d))))
        (filter (\<lambda>s. kBest k = Some (sID s) \<and> sHeight s = h) (nonce_submission d)))) (block d)) of
      ns # _ \<Rightarrow> Inr ns | [] \<Rightarrow> Inl NoRows)"

section \<open>Won blocks and shares\<close>

definition best_of_block :: "uint64 \<Rightarrow> database \<Rightarrow> int64 option" where
  "best_of_block h d = (case sort_key sDeadline (filter (\<lambda>s. sHeight s = h) (nonce_submission d)) of
     s # _ \<Rightarrow> Some (sID s) | [] \<Rightarrow> None)"

definition due :: "uint64 \<Rightarrow> time \<Rightarrow> block_row \<Rightarrow> bool" where
  "due maxHeight maxCreated k \<longleftrightarrow> \<not> kVerified k \<and> kHeight k \<le> maxHeight \<and> kCreated k \<le> maxCreated"

definition sql_pick_best :: "uint64 \<Rightarrow> time \<Rightarrow> database \<Rightarrow> sql_error + database" where
  "sql_pick_best mh mc d = Inr
     (d\<lparr>block := upd_where (due mh mc) (\<lambda>k. k\<lparr>kBest := best_of_block (kHeight k) d\<rparr>) (block d)\<rparr>)"

definition sql_verify_empty :: "uint64 \<Rightarrow> time \<Rightarrow> database \<Rightarrow> sql_error + database" where
  "sql_verify_empty mh mc d = Inr
     (d\<lparr>block := upd_where (\<lambda>k. due mh mc k \<and> kBest k = None) (\<lambda>k. k\<lparr>kVerified := True\<rparr>) (block d)\<rparr>)"

record BlockWonInfo =
  wiHeight :: uint64
  wiCreated :: time
  wiNonce :: uint64
  wiMinerID :: uint64

definition sql_won_infos :: "uint64 \<Rightarrow> time \<Rightarrow> database \<Rightarrow> sql_error + BlockWonInfo list" where
  "sql_won_infos mh mc d = Inr (concat (map
     (\<lambda>k. map (\<lambda>s. \<lparr>wiHeight = kHeight k, wiCreated = kCreated k, wiNonce = sNonce s, wiMinerID = sMiner s\<rparr>)
        (filter (\<lambda>s. kBest k = Some (sID s)) (nonce_submission d)))
     (sort_key kHeight (filter (due mh mc) (block d)))))"

definition sql_set_verified :: "uint64 \<Rightarrow> database \<Rightarrow> sql_error + database" where
  "sql_set_verified h d = Inr
     (d\<lparr>block := upd_where (\<lambda>k. kHeight k = h) (\<lambda>k. k\<lparr>kVerified := True\<rparr>) (block d)\<rparr>)"

definition sql_set_won :: "int64 \<Rightarrow> uint64 \<Rightarrow> uint64 \<Rightarrow> database \<Rightarrow> sql_error + database" where
  "sql_set_won reward winner h d =
     (if has_block h d \<and> \<not> has_account winner d then Inl ForeignKeyFails
      else Inr (d\<lparr>block := upd_where (\<lambda>k. kHeight k = h)
        (\<lambda>k. k\<lparr>kVerified := True, kReward := Some reward, kWinner := Some winner\<rparr>) (block d)\<rparr>))"

text \<open>The last \<open>n\<close> slow blocks up to a height, newest first.\<close>

definition slow_blocks_upto :: "uint64 \<Rightarrow> int32 \<Rightarrow> int \<Rightarrow> database \<Rightarrow> block_row list" where
  "slow_blocks_upto h tmin n d = take (nat n)
     (sort_key (\<lambda>k. - uint (kHeight k)) (filter (\<lambda>k. kHeight k \<le> h \<and> tmin \<le> kGenTime k) (block d)))"

definition weighted_submissions :: "block_row list \<Rightarrow> database \<Rightarrow> (uint64 \<times> int) list" where
  "weighted_submissions ks d = concat (map
     (\<lambda>s. map (\<lambda>k. (sMiner s, uint (sDeadline s) * uint (kBaseTarget k)))
        (filter (\<lambda>k. kHeight k = sHeight s) ks)) (nonce_submission d))"

text \<open>
  The product of two unsigned columns must fit 64 bits, their sum is an exact decimal that is cast
  to a double, and the rows are grouped by miner.
\<close>

definition sql_eeps_args :: "uint64 \<Rightarrow> int32 \<Rightarrow> int \<Rightarrow> database \<Rightarrow> sql_error + (uint64 \<times> float64 \<times> nat) list" where
  "sql_eeps_args h tmin n d =
     (let ws = weighted_submissions (slow_blocks_upto h tmin n d) d in
      if \<exists>(i, w) \<in> set ws. 2 ^ 64 \<le> w then Inl OutOfRange
      else Inr (map (\<lambda>i. (i, f_of_int (sum_list (map snd (filter (\<lambda>p. fst p = i) ws))),
                 length (filter (\<lambda>p. fst p = i) ws))) (remdups (map fst ws))))"

section \<open>Payments\<close>

record PendingInfo =
  piID :: uint64
  piPayoutInterval :: "string option"
  piPending :: int64

definition payable :: "int64 \<Rightarrow> int64 \<Rightarrow> time \<Rightarrow> account_row \<Rightarrow> bool" where
  "payable fee minimum now a \<longleftrightarrow>
     (\<exists>v. aMinPayout a = Some v \<and> v + fee \<le> aPending a) \<or>
     (\<exists>t. aNextDate a = Some t \<and> t \<le> now \<and> fee \<le> aPending a) \<or>
     (aMinPayout a = None \<and> aNextDate a = None \<and> minimum \<le> aPending a)"

definition sql_pending_infos :: "int64 \<Rightarrow> int64 \<Rightarrow> time \<Rightarrow> database \<Rightarrow> sql_error + PendingInfo list" where
  "sql_pending_infos fee minimum now d =
     (if \<exists>a \<in> set (account d). \<exists>v \<in> set_option (aMinPayout a). \<not> is_i64 (v + fee) then Inl OutOfRange
      else Inr (map (\<lambda>a. \<lparr>piID = aID a, piPayoutInterval = aInterval a, piPending = aPending a\<rparr>)
        (filter (payable fee minimum now) (account d))))"

definition sql_insert_tx :: "time \<Rightarrow> database \<Rightarrow> sql_error + database" where
  "sql_insert_tx now d = Inr (d\<lparr>transaction := transaction d @
     [\<lparr>tID = next_tx d, tTxID = None, tHeight = None, tCreated = now\<rparr>], next_tx := next_tx d + 1\<rparr>)"

definition sql_insert_recipient :: "int64 \<Rightarrow> uint64 \<Rightarrow> int64 \<Rightarrow> database \<Rightarrow> sql_error + database" where
  "sql_insert_recipient t i amount d =
     (if \<not> has_account i d \<or> t \<notin> tID ` set (transaction d) then Inl ForeignKeyFails
      else Inr (d\<lparr>transaction_recipient := transaction_recipient d @
        [\<lparr>pID = next_recipient d, pTx = t, pRecipient = i, pAmount = amount\<rparr>],
        next_recipient := next_recipient d + 1\<rparr>))"

definition sql_set_next_date :: "time option \<Rightarrow> uint64 \<Rightarrow> database \<Rightarrow> sql_error + database" where
  "sql_set_next_date t i d = Inr (d\<lparr>account := upd_where (\<lambda>a. aID a = i)
     (\<lambda>a. a\<lparr>aNextDate := map_option to_datetime t\<rparr>) (account d)\<rparr>)"

definition sql_unsent :: "database \<Rightarrow> sql_error + int64 list" where
  "sql_unsent d = Inr (map tID (filter (\<lambda>t. tHeight t = None \<and> tTxID t = None) (transaction d)))"

definition sql_recipients :: "int64 \<Rightarrow> database \<Rightarrow> sql_error + (uint64 \<times> int64) list" where
  "sql_recipients t d = Inr (map (\<lambda>r. (pRecipient r, pAmount r))
     (filter (\<lambda>r. pTx r = t) (transaction_recipient d)))"

definition sql_set_tx_id :: "uint64 \<Rightarrow> time \<Rightarrow> int64 \<Rightarrow> database \<Rightarrow> sql_error + database" where
  "sql_set_tx_id tx now t d = Inr (d\<lparr>transaction := upd_where (\<lambda>r. tID r = t)
     (\<lambda>r. r\<lparr>tTxID := Some tx, tCreated := now\<rparr>) (transaction d)\<rparr>)"

definition sql_unconfirmed :: "time \<Rightarrow> database \<Rightarrow> sql_error + uint64 list" where
  "sql_unconfirmed now d = Inr (List.map_filter tTxID
     (filter (\<lambda>t. tHeight t = None \<and> tCreated t < now - day) (transaction d)))"

definition sql_forget_tx_id :: "uint64 \<Rightarrow> database \<Rightarrow> sql_error + database" where
  "sql_forget_tx_id tx d = Inr (d\<lparr>transaction := upd_where (\<lambda>r. tTxID r = Some tx)
     (\<lambda>r. r\<lparr>tTxID := None\<rparr>) (transaction d)\<rparr>)"

definition sql_confirm_tx :: "uint64 \<Rightarrow> uint64 \<Rightarrow> database \<Rightarrow> sql_error + database" where
  "sql_confirm_tx h tx d = Inr
     (if has_block h d
      then d\<lparr>transaction := upd_where (\<lambda>r. tTxID r = Some tx) (\<lambda>r. r\<lparr>tHeight := Some h\<rparr>) (transaction d)\<rparr>
      else cascade (d\<lparr>transaction := filter (\<lambda>r. tTxID r \<noteq> Some tx) (transaction d)\<rparr>))"

section \<open>Payout settings\<close>

definition sql_has_interval :: "uint64 \<Rightarrow> string \<Rightarrow> database \<Rightarrow> bool" where
  "sql_has_interval i msg d \<longleftrightarrow> (\<exists>a \<in> set (account d). aID a = i \<and> aInterval a = Some msg)"

definition sql_has_min_payout :: "uint64 \<Rightarrow> int64 \<Rightarrow> database \<Rightarrow> bool" where
  "sql_has_min_payout i v d \<longleftrightarrow> (\<exists>a \<in> set (account d). aID a = i \<and> aMinPayout a = Some v)"

definition sql_enough :: "uint64 \<Rightarrow> int64 \<Rightarrow> database \<Rightarrow> sql_error + bool" where
  "sql_enough i cost d =
     (if \<exists>a \<in> set (account d). aID a = i \<and> cost \<le> aPending a then Inr True else Inl NoRows)"

definition sql_set_min_payout ::
  "int64 option \<Rightarrow> string option \<Rightarrow> time option \<Rightarrow> int64 \<Rightarrow> uint64 \<Rightarrow> database \<Rightarrow> sql_error + database" where
  "sql_set_min_payout v interval t cost i d =
     (if \<forall>a \<in> set (account d). aID a = i \<longrightarrow> is_i64 (aPending a - cost)
      then Inr (d\<lparr>account := upd_where (\<lambda>a. aID a = i)
        (\<lambda>a. a\<lparr>aMinPayout := v, aInterval := interval, aNextDate := map_option to_datetime t,
           aPending := aPending a - cost\<rparr>) (account d)\<rparr>)
      else Inl OutOfRange)"

section \<open>Statistics\<close>

text \<open>A quotient of exact numbers has four decimal places.\<close>

definition sql_div4 :: "rat \<Rightarrow> rat \<Rightarrow> rat" where
  "sql_div4 x y = of_int (let q = x / y * 10000 in if 0 \<le> q then \<lfloor>q + 1/2\<rfloor> else - \<lfloor>1/2 - q\<rfloor>) / 10000"

record WonBlock =
  wbWinnerName :: string
  wbWinnerAddress :: string
  wbWinnerID :: uint64
  wbDeadline :: uint64
  wbBaseTarget :: uint64
  wbHeight :: uint64
  wbReward :: float64

text \<open>A \<open>NULL\<close> reward cannot be scanned into the record; a winner is only set together with a reward.\<close>

definition sql_recently_won :: "database \<Rightarrow> sql_error + WonBlock list" where
  "sql_recently_won d = Inr (take 100 (concat (map (\<lambda>k. concat (map (\<lambda>a. map (\<lambda>s.
       \<lparr>wbWinnerName = (case aName a of Some n \<Rightarrow> n | None \<Rightarrow> []), wbWinnerAddress = aAddress a,
        wbWinnerID = aID a, wbDeadline = sDeadline s, wbBaseTarget = kBaseTarget k, wbHeight = kHeight k,
        wbReward = fl (sql_div4 (of_int (case kReward k of Some r \<Rightarrow> r | None \<Rightarrow> 0)) 100000000)\<rparr>)
       (filter (\<lambda>s. kBest k = Some (sID s)) (nonce_submission d)))
      (filter (\<lambda>a. kWinner k = Some (aID a)) (account d))))
     (sort_key (\<lambda>k. - uint (kHeight k)) (block d)))))"

definition sql_net_diff :: "nat \<Rightarrow> database \<Rightarrow> sql_error + float64" where
  "sql_net_diff n d =
     (let bts = map (\<lambda>k. uint (kBaseTarget k)) (take n (sort_key (\<lambda>k. - uint (kHeight k)) (block d)));
          avg = sql_div4 (of_int (sum_list bts)) (of_nat (length bts)) in
      if bts = [] \<or> avg = 0 then Inl NoRows else Inr (fl (sql_div4 18325193796 avg)))"

section \<open>Filling the cache\<close>

definition sql_slow_heights :: "int32 \<Rightarrow> int \<Rightarrow> database \<Rightarrow> sql_error + uint64 list" where
  "sql_slow_heights tmin n d = Inr (take (nat n) (map kHeight
     (sort_key (\<lambda>k. - uint (kHeight k)) (filter (\<lambda>k. tmin \<le> kGenTime k) (block d)))))"

text \<open>The difference of the newest height and \<open>n\<close> must not be negative, as the column is unsigned.\<close>

definition sql_fast_heights :: "int32 \<Rightarrow> int \<Rightarrow> database \<Rightarrow> sql_error + uint64 list" where
  "sql_fast_heights tmin n d = (case sql_latest_block d of
     Inl e \<Rightarrow> Inr []
   | Inr k \<Rightarrow> if uint (kHeight k) < n then Inl OutOfRange
       else Inr (map kHeight (filter (\<lambda>b. kGenTime b < tmin \<and> uint (kHeight k) - n < uint (kHeight b)) (block d))))"

record submissionData =
  sdMiner :: Miner
  sdDeadline :: uint64
  sdHeight :: uint64
  sdBaseTarget :: uint64

text \<open>The text of a date is the server's formatting of a \<open>DATETIME\<close>, a parameter.\<close>

definition payout_detail :: "(time \<Rightarrow> string) \<Rightarrow> account_row \<Rightarrow> string" where
  "payout_detail date_text a = (case aMinPayout a of
     Some v \<Rightarrow> FormatInt v
   | None \<Rightarrow> (case (aInterval a, aNextDate a) of
       (Some i, Some t) \<Rightarrow> i @ ''|'' @ date_text t | _ \<Rightarrow> []))"

definition sql_submissions_on :: "(time \<Rightarrow> string) \<Rightarrow> uint64 list \<Rightarrow> database \<Rightarrow> sql_error + submissionData list" where
  "sql_submissions_on date_text hs d = Inr (concat (map (\<lambda>s. concat (map (\<lambda>a. map (\<lambda>k.
       \<lparr>sdMiner = (newMiner (aID a) (aAddress a) (case aName a of Some n \<Rightarrow> n | None \<Rightarrow> []) (aPending a))
          \<lparr>PayoutDetail := payout_detail date_text a\<rparr>,
        sdDeadline = sDeadline s, sdHeight = sHeight s, sdBaseTarget = kBaseTarget k\<rparr>)
       (filter (\<lambda>k. kHeight k = sHeight s \<and> kHeight k \<in> set hs) (block d)))
      (filter (\<lambda>a. aID a = sMiner s) (account d))))
     (sort_key sHeight (nonce_submission d))))"

end
