(* ===== verification/Wallet.thy ===== *)
theory Wallet
  imports Cache
begin

text \<open>
  The package \<^verbatim>\<open>pkg/wallet\<close>: requests to and replies of the HTTP interface of a wallet. An error is
  the text that \<open>Error()\<close> returns. The HTTP client, the encoding of query values and the JSON
  decoder of each reply are parameters, collected in the record \<open>wallet_env\<close>.
\<close>

definition MaxMultiRecipients :: nat where "MaxMultiRecipients = 64"

type_synonym error = string

section \<open>Replies\<close>

text \<open>Every reply has an \<open>ErrorDescription\<close>, which is empty when the request succeeded.\<close>

record reply =
  ErrorDescription :: string

record transactionJSON =
  tjSenderPublicKey :: string
  tjSignature :: string
  tjFeeNQT :: string
  tjType :: int
  tjFullHash :: string
  tjVersion :: int
  tjEcBlockID :: uint64
  tjSignatureHash :: string
  tjSenderRS :: string
  tjSubtype :: int
  tjAmountNQT :: int64
  tjSender :: uint64
  tjRecipientRS :: string
  tjRecipient :: uint64
  tjEcBlockHeight :: uint64
  tjDeadline :: int
  tjTransaction :: uint64
  tjTimestamp :: int
  tjHeight :: uint64

record transactionData =
  tdSignatureHash :: string
  tdUnsignedTransactionBytes :: string
  tdTransactionJSON :: transactionJSON
  tdBroadcasted :: bool
  tdTransactionBytes :: string
  tdFullHash :: string

record GetMiningInfoReply = reply +
  miGenerationSignature :: string
  miBaseTarget :: uint64
  miHeight :: uint64

record SubmitNonceReply = reply +
  snDeadline :: uint64
  snResult :: string

record GetBlockReply = reply +
  gbPreviousBlockHash :: string
  gbPayloadLength :: int
  gbTotalAmountNQT :: int64
  gbGenerationSignature :: string
  gbGenerator :: uint64
  gbGeneratorPublicKey :: string
  gbBaseTarget :: uint64
  gbPayloadHash :: string
  gbGeneratorRS :: string
  gbBlockReward :: int64
  gbScoopNum :: uint32
  gbNumberOfTransactions :: int
  gbBlockSignature :: string
  gbTransactions :: "uint64 list"
  gbNonce :: uint64
  gbVersion :: int
  gbTotalFeeNQT :: int64
  gbPreviousBlock :: uint64
  gbBlock :: uint64
  gbNextBlock :: uint64
  gbHeight :: uint64
  gbTimestamp :: int32

record GetAccountsWithRewardRecipientReply = reply +
  rrRecipients :: "uint64 list"

record BroadcastTransactionReply = reply +
  btFullHash :: string
  btTxID :: uint64

record SendMoneyReply = reply +
  smTxID :: uint64
  smData :: transactionData

record SendMoneyMultiReply = reply +
  mmTxID :: uint64
  mmData :: transactionData

record message_attachment =
  atVersionMessage :: int
  atMessageIsText :: bool
  atMessage :: string

record account_transaction =
  actSenderPublicKey :: string
  actSignature :: string
  actFeeNQT :: int64
  actType :: int
  actConfirmations :: int
  actFullHash :: string
  actVersion :: int
  actEcBlockID :: uint64
  actSignatureHash :: string
  actAttachment :: message_attachment
  actSenderRS :: string
  actSubtype :: int
  actAmountNQT :: int64
  actSender :: uint64
  actRecipientRS :: string
  actRecipient :: uint64
  actEcBlockHeight :: uint64
  actBlock :: string
  actBlockTimestamp :: int64
  actDeadline :: uint64
  actTransaction :: uint64
  actTimestamp :: int64
  actHeight :: uint64

record GetAccountTransactionsReply = reply +
  atTransactions :: "account_transaction list"

record GetAccountReply = reply +
  gaUnconfirmedBalanceNQT :: int64
  gaGuaranteedBalanceNQT :: int64
  gaEffectiveBalanceNXT :: int64
  gaAccountRS :: string
  gaName :: string
  gaForgedBalanceNQT :: int64
  gaBalanceNQT :: int64
  gaPublicKey :: string
  gaAccount :: uint64

record GetTransactionReply = reply +
  gtSenderPublicKey :: string
  gtSignature :: string
  gtFeeNQT :: int64
  gtType :: int
  gtConfirmations :: int
  gtFullHash :: string
  gtVersion :: int
  gtEcBlockID :: uint64
  gtSignatureHash :: string
  gtRecipients :: "string list list"
  gtVersionMultiOutCreation :: int
  gtSenderRS :: string
  gtSubtype :: int
  gtAmountNQT :: int64
  gtSender :: uint64
  gtEcBlockHeight :: uint64
  gtBlock :: uint64
  gtBlockTimestamp :: int64
  gtDeadline :: int
  gtTransaction :: uint64
  gtTimestamp :: int64
  gtHeight :: uint64

section \<open>Requests\<close>

text \<open>
  The parameters of a request, by the names of the \<open>url\<close> tags; a field with \<open>omitempty\<close> is left
  out when it has its zero value.
\<close>

type_synonym query = "(string \<times> string) list"

definition omitempty :: "bool \<Rightarrow> string \<Rightarrow> string \<Rightarrow> query" where
  "omitempty z k v = (if z then [] else [(k, v)])"

definition FormatBool :: "bool \<Rightarrow> string" where
  "FormatBool b = (if b then ''true'' else ''false'')"

record SubmitNonceRequest =
  rqAccountID :: uint64
  rqNonce :: uint64
  rqSecretPhrase :: string

definition query_SubmitNonce :: "SubmitNonceRequest \<Rightarrow> query" where
  "query_SubmitNonce r = [(''requestType'', ''submitNonce''), (''accountId'', FormatUint (rqAccountID r)),
     (''nonce'', FormatUint (rqNonce r)), (''secretPhrase'', rqSecretPhrase r)]"

record GetBlockRequest =
  rqBlock :: uint64
  rqHeight :: uint64
  rqTimestamp :: int64
  rqIncludeTransactions :: bool

definition query_GetBlock :: "GetBlockRequest \<Rightarrow> query" where
  "query_GetBlock r = [(''requestType'', ''getBlock'')] @
     omitempty (rqBlock r = 0) ''block'' (FormatUint (rqBlock r)) @
     omitempty (rqHeight r = 0) ''height'' (FormatUint (rqHeight r)) @
     omitempty (rqTimestamp r = 0) ''timestamp'' (FormatInt (rqTimestamp r)) @
     omitempty (\<not> rqIncludeTransactions r) ''includeTransactions'' (FormatBool (rqIncludeTransactions r))"

record SendMoneyRequest =
  rmRecipient :: uint64
  rmAmountNQT :: int64
  rmFeeNQT :: int64
  rmDeadline :: uint64
  rmReferencedTransactionFullHash :: string
  rmBroadcast :: bool
  rmSecretPhrase :: string

definition query_SendMoney :: "SendMoneyRequest \<Rightarrow> query" where
  "query_SendMoney r = [(''requestType'', ''sendMoney''), (''recipient'', FormatUint (rmRecipient r)),
     (''amountNQT'', FormatInt (rmAmountNQT r)), (''feeNQT'', FormatInt (rmFeeNQT r)),
     (''deadline'', FormatUint (rmDeadline r))] @
     omitempty (rmReferencedTransactionFullHash r = []) ''referencedTransactionFullHash''
       (rmReferencedTransactionFullHash r) @
     [(''broadcast'', FormatBool (rmBroadcast r)), (''secretPhrase'', rmSecretPhrase r)]"

record SendMoneyMultiRequest =
  ruRecipients :: string
  ruFeeNQT :: int64
  ruDeadline :: uint64
  ruReferencedTransactionFullHash :: string
  ruBroadcast :: bool
  ruSecretPhrase :: string

definition query_SendMoneyMulti :: "SendMoneyMultiRequest \<Rightarrow> query" where
  "query_SendMoneyMulti r = [(''requestType'', ''sendMoneyMulti''), (''recipients'', ruRecipients r),
     (''feeNQT'', FormatInt (ruFeeNQT r)), (''deadline'', FormatUint (ruDeadline r))] @
     omitempty (ruReferencedTransactionFullHash r = []) ''referencedTransactionFullHash''
       (ruReferencedTransactionFullHash r) @
     [(''broadcast'', FormatBool (ruBroadcast r)), (''secretPhrase'', ruSecretPhrase r)]"

record BroadcastTransactionRequest =
  rbTransactionBytes :: string
  rbTransactionJSON :: string

definition query_BroadcastTransaction :: "BroadcastTransactionRequest \<Rightarrow> query" where
  "query_BroadcastTransaction r = [(''requestType'', ''broadcastTransaction'')] @
     omitempty (rbTransactionBytes r = []) ''transactionBytes'' (rbTransactionBytes r) @
     omitempty (rbTransactionJSON r = []) ''transactionJSON'' (rbTransactionJSON r)"

text \<open>Both \<open>Type\<close> and \<open>Subtype\<close> are tagged \<^verbatim>\<open>type\<close>.\<close>

record GetAccountTransactionsRequest =
  rtAccount :: uint64
  rtTimestamp :: int64
  rtType :: int
  rtSubtype :: int
  rtFirstIndex :: int
  rtLastIndex :: int
  rtNumberOfConfirmations :: int

definition query_GetAccountTransactions :: "GetAccountTransactionsRequest \<Rightarrow> query" where
  "query_GetAccountTransactions r = [(''requestType'', ''getAccountTransactions''),
     (''account'', FormatUint (rtAccount r))] @
     omitempty (rtTimestamp r = 0) ''timestamp'' (FormatInt (rtTimestamp r)) @
     omitempty (rtType r = 0) ''type'' (FormatInt (rtType r)) @
     omitempty (rtSubtype r = 0) ''type'' (FormatInt (rtSubtype r)) @
     omitempty (rtFirstIndex r = 0) ''firstIndex'' (FormatInt (rtFirstIndex r)) @
     omitempty (rtLastIndex r = 0) ''lastIndex'' (FormatInt (rtLastIndex r)) @
     omitempty (rtNumberOfConfirmations r = 0) ''numberOfConfirmations''
       (FormatInt (rtNumberOfConfirmations r))"

definition query_GetAccount :: "uint64 \<Rightarrow> query" where
  "query_GetAccount account = [(''requestType'', ''getAccount''), (''account'', FormatUint account)]"

definition query_GetAccountsWithRewardRecipient :: "uint64 \<Rightarrow> query" where
  "query_GetAccountsWithRewardRecipient account =
     [(''requestType'', ''getAccountsWithRewardRecipient''), (''account'', FormatUint account)]"

definition query_GetTransaction :: "uint64 \<Rightarrow> string \<Rightarrow> query" where
  "query_GetTransaction tx fullHash = [(''requestType'', ''getTransaction''),
     (''transaction'', FormatUint tx), (''fullHash'', fullHash)]"

section \<open>The client\<close>

datatype http_method = GET | POST

text \<open>The text of the query (with its escapes), the HTTP exchange, and the JSON decoders.\<close>

record wallet_env =
  weValues :: "query \<Rightarrow> error + string"
  weHttp :: "http_method \<Rightarrow> string \<Rightarrow> error + nat \<times> string"
  weMiningInfo :: "string \<Rightarrow> error + GetMiningInfoReply"
  weSubmitNonce :: "string \<Rightarrow> error + SubmitNonceReply"
  weBlock :: "string \<Rightarrow> error + GetBlockReply"
  weRewardRecipients :: "string \<Rightarrow> error + GetAccountsWithRewardRecipientReply"
  weSendMoney :: "string \<Rightarrow> error + SendMoneyReply"
  weBroadcast :: "string \<Rightarrow> error + BroadcastTransactionReply"
  weSendMoneyMulti :: "string \<Rightarrow> error + SendMoneyMultiReply"
  weAccountTransactions :: "string \<Rightarrow> error + GetAccountTransactionsReply"
  weAccount :: "string \<Rightarrow> error + GetAccountReply"
  weTransaction :: "string \<Rightarrow> error + GetTransactionReply"

definition getError :: "'a reply_scheme \<Rightarrow> string" where
  "getError ef = ErrorDescription ef"

definition NewWallet :: "string \<Rightarrow> string" where
  "NewWallet url = url @ ''/burst?''"

definition processJSONRequest ::
  "wallet_env \<Rightarrow> string \<Rightarrow> http_method \<Rightarrow> query \<Rightarrow> (string \<Rightarrow> error + 'a reply_scheme) \<Rightarrow> error + 'a reply_scheme" where
  "processJSONRequest we apiURL meth queryStruct decode =
     (case weValues we queryStruct of
        Inl err \<Rightarrow> Inl err
      | Inr v \<Rightarrow>
          (let u = apiURL @ v in
           case weHttp we meth u of
             Inl err \<Rightarrow> Inl (''request to '' @ u @ '': '' @ err)
           | Inr (statusCode, body) \<Rightarrow>
               if statusCode \<noteq> 200
               then Inl (''wrong status code: '' @ FormatInt (int statusCode) @ '' for url '' @ u)
               else (case decode body of
                  Inl err \<Rightarrow> Inl err
                | Inr dest \<Rightarrow>
                    if getError dest \<noteq> [] then Inl (''request to '' @ u @ '': '' @ getError dest)
                    else Inr dest)))"

definition GetMiningInfo :: "wallet_env \<Rightarrow> string \<Rightarrow> error + GetMiningInfoReply" where
  "GetMiningInfo we w = processJSONRequest we w GET [(''requestType'', ''getMiningInfo'')] (weMiningInfo we)"

definition SubmitNonce :: "wallet_env \<Rightarrow> string \<Rightarrow> SubmitNonceRequest \<Rightarrow> error + SubmitNonceReply" where
  "SubmitNonce we w r = processJSONRequest we w POST (query_SubmitNonce r) (weSubmitNonce we)"

definition GetBlock :: "wallet_env \<Rightarrow> string \<Rightarrow> GetBlockRequest \<Rightarrow> error + GetBlockReply" where
  "GetBlock we w r = processJSONRequest we w GET (query_GetBlock r) (weBlock we)"

definition GetAccountsWithRewardRecipient ::
  "wallet_env \<Rightarrow> string \<Rightarrow> uint64 \<Rightarrow> error + GetAccountsWithRewardRecipientReply" where
  "GetAccountsWithRewardRecipient we w account =
     processJSONRequest we w POST (query_GetAccountsWithRewardRecipient account) (weRewardRecipients we)"

definition SendMoney :: "wallet_env \<Rightarrow> string \<Rightarrow> SendMoneyRequest \<Rightarrow> error + SendMoneyReply" where
  "SendMoney we w r = processJSONRequest we w POST (query_SendMoney r) (weSendMoney we)"

definition BroadcastTransaction ::
  "wallet_env \<Rightarrow> string \<Rightarrow> BroadcastTransactionRequest \<Rightarrow> error + BroadcastTransactionReply" where
  "BroadcastTransaction we w r = processJSONRequest we w POST (query_BroadcastTransaction r) (weBroadcast we)"

definition SendMoneyMulti :: "wallet_env \<Rightarrow> string \<Rightarrow> SendMoneyMultiRequest \<Rightarrow> error + SendMoneyMultiReply" where
  "SendMoneyMulti we w r = processJSONRequest we w POST (query_SendMoneyMulti r) (weSendMoneyMulti we)"

definition GetAccountTransactions ::
  "wallet_env \<Rightarrow> string \<Rightarrow> GetAccountTransactionsRequest \<Rightarrow> error + GetAccountTransactionsReply" where
  "GetAccountTransactions we w r =
     processJSONRequest we w POST (query_GetAccountTransactions r) (weAccountTransactions we)"

definition GetAccount :: "wallet_env \<Rightarrow> string \<Rightarrow> uint64 \<Rightarrow> error + GetAccountReply" where
  "GetAccount we w account = processJSONRequest we w GET (query_GetAccount account) (weAccount we)"

definition GetTransaction :: "wallet_env \<Rightarrow> string \<Rightarrow> uint64 \<Rightarrow> string \<Rightarrow> error + GetTransactionReply" where
  "GetTransaction we w tx fullHash =
     processJSONRequest we w GET (query_GetTransaction tx fullHash) (weTransaction we)"

section \<open>Recipients of a multi-out payment\<close>

text \<open>The map is traversed in the order of its association list; more than 64 entries panic.\<close>

fun recipient_entries :: "(uint64 \<times> int64) list \<Rightarrow> string" where
  "recipient_entries [] = []"
| "recipient_entries ((accountID, amount) # m) =
     FormatUint accountID @ '':'' @ FormatInt amount @ '';'' @ recipient_entries m"

definition EncodeRecipients :: "(uint64 \<times> int64) list \<Rightarrow> (error + string) option" where
  "EncodeRecipients idToAmount =
     (if length idToAmount = 0 then Some (Inl ''no recipients'')
      else if MaxMultiRecipients < length idToAmount then None
      else let recipients = recipient_entries idToAmount in
        Some (Inr (take (length recipients - 1) recipients)))"

text \<open>What a wallet reads back: entries separated by semicolons, id and amount by a colon.\<close>

fun split_at :: "char \<Rightarrow> string \<Rightarrow> string list" where
  "split_at c [] = [[]]"
| "split_at c (x # xs) =
     (if x = c then [] # split_at c xs else (case split_at c xs of y # ys \<Rightarrow> (x # y) # ys | [] \<Rightarrow> [[x]]))"

fun read_entry :: "string list \<Rightarrow> (uint64 \<times> int64) option" where
  "read_entry [i, a] = (case (ParseUint i, ParseInt a) of (Inr j, Inr b) \<Rightarrow> Some (j, b) | _ \<Rightarrow> None)"
| "read_entry _ = None"

definition read_recipients :: "string \<Rightarrow> (uint64 \<times> int64) list option" where
  "read_recipients s = those (map (\<lambda>e. read_entry (split_at (CHR '':'') e)) (split_at (CHR '';'') s))"

lemma split_at_ne [simp]: "split_at c s \<noteq> []"
  by (induction s) (auto split: list.splits)

lemma split_at_clean: "c \<notin> set s \<Longrightarrow> split_at c s = [s]"
  by (induction s) auto

lemma split_at_append: "c \<notin> set s \<Longrightarrow> split_at c (s @ c # t) = s # split_at c t"
  by (induction s) auto

lemma digit_char_range: "d < 10 \<Longrightarrow> digit_char d \<noteq> CHR '':'' \<and> digit_char d \<noteq> CHR '';''"
  by (auto dest: arg_cong [of _ _ "of_char :: char \<Rightarrow> nat"] simp: digit_char_code)

lemma digits_clean: "CHR '':'' \<notin> set (map digit_char (digits10 n)) \<and> CHR '';'' \<notin> set (map digit_char (digits10 n))"
  using digit_char_range digits10_less [of _ n] by (fastforce simp: image_iff)

lemma Format_clean [simp]:
  "CHR '':'' \<notin> set (FormatUint i)" "CHR '';'' \<notin> set (FormatUint i)"
  "CHR '':'' \<notin> set (FormatInt a)" "CHR '';'' \<notin> set (FormatInt a)"
  using digits_clean by (simp_all add: FormatUint_def FormatInt_def)

lemma read_entry_text:
  assumes "is_i64 a"
  shows "read_entry (split_at (CHR '':'') (FormatUint i @ '':'' @ FormatInt a)) = Some (i, a)"
  using assms split_at_append [of "CHR '':''" "FormatUint i" "FormatInt a"]
  by (simp add: split_at_clean)

lemma recipient_entries_ne: "m \<noteq> [] \<Longrightarrow> \<exists>t. recipient_entries m = t @ '';''"
proof (induction m)
  case (Cons p m)
  then show ?case by (cases p; cases m) auto
qed simp

lemma read_recipient_entries:
  assumes "m \<noteq> []" "\<forall>(i, a) \<in> set m. is_i64 a"
  shows "read_recipients (butlast (recipient_entries m)) = Some m"
  using assms
proof (induction m)
  case (Cons p m)
  obtain i a where p: "p = (i, a)" by (cases p)
  have a: "is_i64 a" using Cons.prems p by simp
  let ?e = "FormatUint i @ '':'' @ FormatInt a"
  have clean: "CHR '';'' \<notin> set ?e" by simp
  have e: "read_entry (split_at (CHR '':'') ?e) = Some (i, a)" using a by (rule read_entry_text)
  show ?case
  proof (cases m)
    case Nil
    have "butlast (recipient_entries (p # m)) = ?e" by (simp add: p Nil butlast_append)
    then show ?thesis using e split_at_clean [OF clean] Nil p by (simp add: read_recipients_def)
  next
    case (Cons q m')
    then have ne: "recipient_entries m \<noteq> []" using recipient_entries_ne [of m] by auto
    then have "butlast (recipient_entries (p # m)) = ?e @ CHR '';'' # butlast (recipient_entries m)"
      by (simp add: p butlast_append)
    moreover have "read_recipients (butlast (recipient_entries m)) = Some m"
      using Cons.IH Cons.prems Cons by simp
    ultimately show ?thesis using e split_at_append [OF clean] p by (simp add: read_recipients_def)
  qed
qed simp

text \<open>C25.
  A payment to 1 to 64 recipients is encoded without a panic, and the text determines it: a
  wallet that reads the entries back gets every recipient with exactly the amount of the map.
\<close>

theorem EncodeRecipients_roundtrip:
  assumes "0 < length m" and "length m \<le> MaxMultiRecipients" and "\<forall>(i, a) \<in> set m. is_i64 a"
  shows "\<exists>s. EncodeRecipients m = Some (Inr s) \<and> read_recipients s = Some m"
  using assms read_recipient_entries [of m]
  by (simp add: EncodeRecipients_def Let_def butlast_conv_take)

theorem EncodeRecipients_roundtrip_witness:
  "\<exists>s. EncodeRecipients [(7, 100), (18446744073709551615, - 5)] = Some (Inr s) \<and>
     read_recipients s = Some [(7, 100), (18446744073709551615, - 5)]"
  by (rule EncodeRecipients_roundtrip) (simp_all add: MaxMultiRecipients_def is_i64_def)

section \<open>Numbers as JSON strings\<close>

text \<open>
  \<open>Uint64Str\<close> is written as a JSON string and read from a string or a number. The reader of string
  literals resolves the escapes; a character that is not ASCII is kept as the byte 255, since only
  digits matter to the number parser that follows.
\<close>

fun hex_val :: "char \<Rightarrow> nat option" where
  "hex_val c = map_option unat (fromHexChar c)"

fun json_chars :: "string \<Rightarrow> string option" where
  "json_chars [] = None"
| "json_chars (c # s) =
     (if c = CHR 34 then (if s = [] then Some [] else None)
      else if (of_char c :: nat) < 32 then None
      else if c = CHR 92 then
        (case s of
           e # s' \<Rightarrow>
             if e \<in> {CHR 34, CHR 92, CHR ''/''} then map_option (Cons e) (json_chars s')
             else if e = CHR ''n'' then map_option (Cons (CHR 10)) (json_chars s')
             else if e = CHR ''r'' then map_option (Cons (CHR 13)) (json_chars s')
             else if e = CHR ''t'' then map_option (Cons (CHR 9)) (json_chars s')
             else if e = CHR ''b'' then map_option (Cons (CHR 8)) (json_chars s')
             else if e = CHR ''f'' then map_option (Cons (CHR 12)) (json_chars s')
             else if e = CHR ''u'' then
               (case s' of
                  h1 # h2 # h3 # h4 # s'' \<Rightarrow>
                    (case (hex_val h1, hex_val h2, hex_val h3, hex_val h4) of
                       (Some a, Some b, Some c, Some d) \<Rightarrow>
                         let n = a * 4096 + b * 256 + c * 16 + d in
                         map_option (Cons (if n < 128 then char_of n else CHR 255)) (json_chars s'')
                     | _ \<Rightarrow> None)
                | _ \<Rightarrow> None)
             else None
         | [] \<Rightarrow> None)
      else map_option (Cons c) (json_chars s))"

definition json_unmarshal_string :: "string \<Rightarrow> string option" where
  "json_unmarshal_string b = (case b of c # s \<Rightarrow> if c = CHR 34 then json_chars s
     else if b = ''null'' then Some [] else None | [] \<Rightarrow> None)"

definition json_unmarshal_uint64 :: "string \<Rightarrow> error + uint64" where
  "json_unmarshal_uint64 b =
     (if 1 < length b \<and> hd b = CHR ''0'' then Inl ''invalid character''
      else case ParseUint b of Inl _ \<Rightarrow> Inl ''cannot unmarshal number'' | Inr v \<Rightarrow> Inr v)"

definition MarshalJSON :: "uint64 \<Rightarrow> string" where
  "MarshalJSON i = json_string (FormatUint i)"

definition UnmarshalJSON :: "string \<Rightarrow> error + uint64" where
  "UnmarshalJSON b = (case json_unmarshal_string b of
     Some s \<Rightarrow> (case ParseUint s of Inl _ \<Rightarrow> Inl ''strconv.ParseUint'' | Inr v \<Rightarrow> Inr v)
   | None \<Rightarrow> json_unmarshal_uint64 b)"

lemma plain_json_char: "is_digit c \<Longrightarrow> json_char c = [c]"
  by (auto simp: is_digit_def json_char_def Let_def)

lemma plain_json_chars: "\<forall>c \<in> set s. is_digit c \<Longrightarrow> json_chars (s @ [CHR 34]) = Some s"
proof (induction s)
  case (Cons c s)
  then have "is_digit c" by simp
  then have "c \<noteq> CHR 34" "c \<noteq> CHR 92" "\<not> (of_char c :: nat) < 32"
    by (auto simp: is_digit_def)
  then show ?case using Cons by simp
qed simp

lemma FormatUint_digits: "c \<in> set (FormatUint i) \<Longrightarrow> is_digit c"
  using digits10_less [of _ "unat i"] by (auto simp: FormatUint_def)

lemma plain_json_string: "\<forall>c \<in> set s. is_digit c \<Longrightarrow> concat (map json_char s) = s"
  by (induction s) (simp_all add: plain_json_char)

lemma MarshalJSON_text: "MarshalJSON i = CHR 34 # FormatUint i @ [CHR 34]"
  using plain_json_string [of "FormatUint i"] FormatUint_digits [of _ i]
  by (simp add: MarshalJSON_def json_string_def)

interpretation u64json: codec MarshalJSON "\<lambda>b. case UnmarshalJSON b of Inl _ \<Rightarrow> None | Inr n \<Rightarrow> Some n"
proof
  fix i
  show "(case UnmarshalJSON (MarshalJSON i) of Inl _ \<Rightarrow> None | Inr n \<Rightarrow> Some n) = Some i"
    using plain_json_chars [of "FormatUint i"] FormatUint_digits [of _ i]
    by (simp add: MarshalJSON_text UnmarshalJSON_def json_unmarshal_string_def)
qed

lemma FormatUint_no_leading_zero: "1 < length (FormatUint i) \<Longrightarrow> hd (FormatUint i) \<noteq> CHR ''0''"
proof
  assume l: "1 < length (FormatUint i)" and z: "hd (FormatUint i) = CHR ''0''"
  have pos: "0 < unat i" using l by (cases "unat i = 0") (auto simp: FormatUint_def)
  have h: "hd (digits10 (unat i)) = digits10 (unat i) ! 0" by (simp add: hd_conv_nth)
  have "digit_char (hd (digits10 (unat i))) = CHR ''0''" using z by (simp add: FormatUint_def hd_map)
  then have "(of_char (digit_char (hd (digits10 (unat i)))) :: nat) = 48" by simp
  then have "hd (digits10 (unat i)) = 0"
    using digits10_less [of "hd (digits10 (unat i))" "unat i"] by (simp add: digit_char_code)
  then show False using digits10_hd [OF pos] h by simp
qed

text \<open>
  A 64-bit number survives the wallet's JSON in both spellings: read back from the string that
  \<open>MarshalJSON\<close> writes, and from a plain JSON number.
\<close>

theorem Uint64Str_roundtrip:
  "UnmarshalJSON (MarshalJSON i) = Inr i \<and> UnmarshalJSON (FormatUint i) = Inr i"
proof
  show "UnmarshalJSON (MarshalJSON i) = Inr i"
    using u64json.dec_enc [of i] by (simp split: sum.splits)
  obtain c s where cs: "FormatUint i = c # s" by (cases "FormatUint i") (auto simp: FormatUint_def)
  have d: "is_digit c" using FormatUint_digits [of c i] cs by simp
  then have "c \<noteq> CHR 34" "c \<noteq> CHR ''n''" by (auto simp: is_digit_def)
  then have "json_unmarshal_string (FormatUint i) = None" by (simp add: json_unmarshal_string_def cs)
  then show "UnmarshalJSON (FormatUint i) = Inr i"
    using FormatUint_no_leading_zero [of i] by (simp add: UnmarshalJSON_def json_unmarshal_uint64_def)
qed

section \<open>One request\<close>

definition sample_wallet_env :: wallet_env where
  "sample_wallet_env = \<lparr>weValues = (\<lambda>q. Inr (concat (map (\<lambda>(k, v). k @ ''='' @ v @ ''&'') q))),
     weHttp = (\<lambda>m u. Inr (200, ''ok'')),
     weMiningInfo = (\<lambda>b. Inr \<lparr>ErrorDescription = [], miGenerationSignature = ''00'', miBaseTarget = 5, miHeight = 9\<rparr>),
     weSubmitNonce = (\<lambda>b. Inl ''bad''), weBlock = (\<lambda>b. Inl ''bad''), weRewardRecipients = (\<lambda>b. Inl ''bad''),
     weSendMoney = (\<lambda>b. Inl ''bad''), weBroadcast = (\<lambda>b. Inl ''bad''), weSendMoneyMulti = (\<lambda>b. Inl ''bad''),
     weAccountTransactions = (\<lambda>b. Inl ''bad''), weAccount = (\<lambda>b. Inl ''bad''), weTransaction = (\<lambda>b. Inl ''bad'')\<rparr>"

text \<open>
  A request to a wallet succeeds only if the wallet answered with status 200, the body decoded to
  exactly the returned reply, and that reply carries no error description; a reply with an error
  description always becomes an error that ends in this description.
\<close>

theorem request_success_is_clean:
  assumes "weValues we q = Inr v" and "weHttp we meth (apiURL @ v) = Inr (status, body)"
  shows "(processJSONRequest we apiURL meth q decode = Inr r \<longleftrightarrow>
      status = 200 \<and> decode body = Inr r \<and> ErrorDescription r = []) \<and>
    (status = 200 \<and> decode body = Inr r \<and> ErrorDescription r \<noteq> [] \<longrightarrow>
      (\<exists>p. processJSONRequest we apiURL meth q decode = Inl (p @ ErrorDescription r)))"
  using assms by (auto simp: processJSONRequest_def getError_def Let_def split: sum.splits)

theorem request_success_is_clean_witness:
  "GetMiningInfo sample_wallet_env (NewWallet ''http://w'') =
     Inr \<lparr>ErrorDescription = [], miGenerationSignature = ''00'', miBaseTarget = 5, miHeight = 9\<rparr>"
  using request_success_is_clean [of sample_wallet_env "[(''requestType'', ''getMiningInfo'')]"
      "''requestType=getMiningInfo&''" GET "NewWallet ''http://w''" 200 "''ok''"
      "weMiningInfo sample_wallet_env"]
  by (simp add: GetMiningInfo_def sample_wallet_env_def)

end
