(* ===== verification/WalletHandler.thy ===== *)
theory WalletHandler
  imports Wallet "HOL-Library.Sublist"
begin

text \<open>
  The package \<^verbatim>\<open>pkg/wallethandler\<close>: the pool talks to several wallets at once. A Go map is traversed
  in an arbitrary order and the parallel requests of \<open>reqAll\<close> finish in an arbitrary order, so the
  wallets of each traversal are given as a list, and everything is proved for every list. A
  function that traverses the wallets several times takes one list per traversal. Payments also
  return the transactions they hand to the network.
\<close>

section \<open>The interface of a wallet\<close>

record Wallet =
  wGetMiningInfo :: "error + GetMiningInfoReply"
  wSubmitNonce :: "SubmitNonceRequest \<Rightarrow> error + SubmitNonceReply"
  wGetBlock :: "GetBlockRequest \<Rightarrow> error + GetBlockReply"
  wGetAccountsWithRewardRecipient :: "uint64 \<Rightarrow> error + GetAccountsWithRewardRecipientReply"
  wSendMoney :: "SendMoneyRequest \<Rightarrow> error + SendMoneyReply"
  wBroadcastTransaction :: "BroadcastTransactionRequest \<Rightarrow> error + BroadcastTransactionReply"
  wSendMoneyMulti :: "SendMoneyMultiRequest \<Rightarrow> error + SendMoneyMultiReply"
  wGetAccountTransactions :: "GetAccountTransactionsRequest \<Rightarrow> error + GetAccountTransactionsReply"
  wGetAccount :: "uint64 \<Rightarrow> error + GetAccountReply"
  wGetTransaction :: "uint64 \<Rightarrow> error + GetTransactionReply"

type_synonym wallets = "(string \<times> Wallet) list"

definition wallet_of :: "wallet_env \<Rightarrow> string \<Rightarrow> Wallet" where
  "wallet_of we url = \<lparr>wGetMiningInfo = GetMiningInfo we (NewWallet url),
     wSubmitNonce = SubmitNonce we (NewWallet url), wGetBlock = GetBlock we (NewWallet url),
     wGetAccountsWithRewardRecipient = GetAccountsWithRewardRecipient we (NewWallet url),
     wSendMoney = SendMoney we (NewWallet url), wBroadcastTransaction = BroadcastTransaction we (NewWallet url),
     wSendMoneyMulti = SendMoneyMulti we (NewWallet url),
     wGetAccountTransactions = GetAccountTransactions we (NewWallet url),
     wGetAccount = GetAccount we (NewWallet url),
     wGetTransaction = (\<lambda>tx. GetTransaction we (NewWallet url) tx [])\<rparr>"

text \<open>A map has one entry for each url.\<close>

definition NewWalletHandler :: "wallet_env \<Rightarrow> string list \<Rightarrow> wallets" where
  "NewWalletHandler we urls = map (\<lambda>u. (u, wallet_of we u)) (remdups urls)"

section \<open>Asking all wallets or one of them\<close>

fun reqAll_results :: "(Wallet \<Rightarrow> error + 'a) \<Rightarrow> wallets \<Rightarrow> ('a \<times> string) list" where
  "reqAll_results reqF [] = []"
| "reqAll_results reqF ((u, w) # ws) = (case reqF w of
     Inl _ \<Rightarrow> reqAll_results reqF ws | Inr obj \<Rightarrow> (obj, u) # reqAll_results reqF ws)"

definition reqAll :: "(Wallet \<Rightarrow> error + 'a) \<Rightarrow> wallets \<Rightarrow> error + ('a \<times> string) list" where
  "reqAll reqF ws = (let results = reqAll_results reqF ws in
     if length results = 0 then Inl ''no wallet sucessfull'' else Inr results)"

fun reqRandom :: "(Wallet \<Rightarrow> error + 'a) \<Rightarrow> wallets \<Rightarrow> error + 'a" where
  "reqRandom reqF [] = Inl ''no wallet successfull''"
| "reqRandom reqF ((u, w) # ws) = (case reqF w of Inr obj \<Rightarrow> Inr obj | Inl _ \<Rightarrow> reqRandom reqF ws)"

section \<open>Operations\<close>

definition zero_MiningInfo :: GetMiningInfoReply where
  "zero_MiningInfo = \<lparr>ErrorDescription = [], miGenerationSignature = [], miBaseTarget = 0, miHeight = 0\<rparr>"

fun newest_info :: "GetMiningInfoReply \<Rightarrow> (GetMiningInfoReply \<times> string) list \<Rightarrow> GetMiningInfoReply" where
  "newest_info mi [] = mi"
| "newest_info mi ((tmp, url) # rs) = newest_info (if miHeight mi < miHeight tmp then tmp else mi) rs"

definition whGetMiningInfo :: "wallets \<Rightarrow> error + GetMiningInfoReply" where
  "whGetMiningInfo ws = (case reqAll wGetMiningInfo ws of
     Inl err \<Rightarrow> Inl (''getting mining info: '' @ err)
   | Inr results \<Rightarrow> Inr (newest_info zero_MiningInfo results))"

definition GetBlockInfo :: "uint64 \<Rightarrow> wallets \<Rightarrow> error + GetBlockReply" where
  "GetBlockInfo height ws =
     (case reqRandom (\<lambda>w. wGetBlock w \<lparr>rqBlock = 0, rqHeight = height, rqTimestamp = 0,
         rqIncludeTransactions = False\<rparr>) ws of
        Inl err \<Rightarrow> Inl (''get block info: '' @ err)
      | Inr res \<Rightarrow> Inr res)"

definition whSubmitNonce :: "string \<Rightarrow> uint64 \<Rightarrow> uint64 \<Rightarrow> uint64 \<Rightarrow> wallets \<Rightarrow> error + unit" where
  "whSubmitNonce secret n accountID deadline ws =
     (case reqRandom (\<lambda>w.
         case wSubmitNonce w \<lparr>rqAccountID = accountID, rqNonce = n, rqSecretPhrase = secret\<rparr> of
           Inl err \<Rightarrow> Inl err
         | Inr res \<Rightarrow>
             if snDeadline res \<noteq> deadline
             then Inl (''pool deadline '' @ FormatUint deadline @ '' doesn't match wallet deadline '' @
                    FormatUint (snDeadline res))
             else Inr res) ws of
        Inl err \<Rightarrow> Inl err | Inr _ \<Rightarrow> Inr ())"

definition broadcastTransaction :: "string \<Rightarrow> wallets \<Rightarrow> error + uint64" where
  "broadcastTransaction txBs ws =
     (case reqAll (\<lambda>w. wBroadcastTransaction w \<lparr>rbTransactionBytes = txBs, rbTransactionJSON = []\<rparr>) ws of
        Inl err \<Rightarrow> Inl err | Inr results \<Rightarrow> Inr (btTxID (fst (hd results))))"

text \<open>
  The result and the transactions that are handed to \<open>broadcastTransaction\<close>, whose own result is
  ignored.
\<close>

definition whSendPayment :: "Config \<Rightarrow> string \<Rightarrow> uint64 \<Rightarrow> int64 \<Rightarrow> wallets \<Rightarrow> (error + uint64) \<times> string list" where
  "whSendPayment cfg secret recipient amount ws =
     (case reqAll (\<lambda>w. wSendMoney w \<lparr>rmRecipient = recipient, rmAmountNQT = amount, rmFeeNQT = PoolTxFee cfg,
         rmDeadline = 1440, rmReferencedTransactionFullHash = [], rmBroadcast = False,
         rmSecretPhrase = secret\<rparr>) ws of
        Inl err \<Rightarrow> (Inl err, [])
      | Inr results \<Rightarrow>
          let sendMoneyReply = fst (hd results)
          in (Inr (smTxID sendMoneyReply), [tdTransactionBytes (smData sendMoneyReply)]))"

definition whSendPayments ::
  "Config \<Rightarrow> string \<Rightarrow> (uint64 \<times> int64) list \<Rightarrow> wallets \<Rightarrow> ((error + uint64) \<times> string list) option" where
  "whSendPayments cfg secret idToAmount ws =
     (case EncodeRecipients idToAmount of
        None \<Rightarrow> None
      | Some (Inl err) \<Rightarrow> Some (Inl err, [])
      | Some (Inr recipients) \<Rightarrow>
          (case reqAll (\<lambda>w. wSendMoneyMulti w \<lparr>ruRecipients = recipients, ruFeeNQT = PoolTxFee cfg,
              ruDeadline = 1440, ruReferencedTransactionFullHash = [], ruBroadcast = False,
              ruSecretPhrase = secret\<rparr>) ws of
             Inl err \<Rightarrow> Some (Inl err, [])
           | Inr results \<Rightarrow>
               let sendMoneyReply = fst (hd results)
               in Some (Inr (mmTxID sendMoneyReply), [tdTransactionBytes (mmData sendMoneyReply)])))"

definition GetAccountInfo :: "uint64 \<Rightarrow> wallets \<Rightarrow> error + GetAccountReply" where
  "GetAccountInfo accountID ws = reqRandom (\<lambda>w. wGetAccount w accountID) ws"

definition whWonBlock :: "uint64 \<Rightarrow> uint64 \<Rightarrow> uint64 \<Rightarrow> wallets \<Rightarrow> error + bool \<times> GetBlockReply" where
  "whWonBlock height minerID n ws =
     (case GetBlockInfo height ws of
        Inl err \<Rightarrow> Inl err
      | Inr blockInfo \<Rightarrow> Inr (gbGenerator blockInfo = minerID \<and> gbNonce blockInfo = n, blockInfo))"

definition whGetGenerationTime :: "uint64 \<Rightarrow> wallets \<Rightarrow> wallets \<Rightarrow> error + int32" where
  "whGetGenerationTime height ws1 ws2 =
     (case GetBlockInfo (height - 1) ws1 of
        Inl err \<Rightarrow> Inl err
      | Inr b1 \<Rightarrow>
          (case GetBlockInfo height ws2 of
             Inl err \<Rightarrow> Inl err
           | Inr b2 \<Rightarrow> Inr (i32 (gbTimestamp b2 - gbTimestamp b1))))"

text \<open>A later message of the same sender replaces an earlier one.\<close>

fun messages_of :: "uint64 \<Rightarrow> account_transaction list \<Rightarrow> (uint64 \<times> string) list \<Rightarrow> (uint64 \<times> string) list" where
  "messages_of pool [] msgOf = msgOf"
| "messages_of pool (txInfo # txs) msgOf = messages_of pool txs
     (if actSender txInfo \<noteq> pool
      then AList.update (actSender txInfo) (atMessage (actAttachment txInfo)) msgOf else msgOf)"

definition GetIncomingMsgsSince :: "Config \<Rightarrow> time \<Rightarrow> wallets \<Rightarrow> error + (uint64 \<times> string) list" where
  "GetIncomingMsgsSince cfg date ws =
     (case reqRandom (\<lambda>w. wGetAccountTransactions w \<lparr>rtAccount = PoolPublicID cfg,
         rtTimestamp = DateToTimeStamp date, rtType = 1, rtSubtype = 0, rtFirstIndex = 0,
         rtLastIndex = 0, rtNumberOfConfirmations = 0\<rparr>) ws of
        Inl err \<Rightarrow> Inl err
      | Inr obj \<Rightarrow> Inr (messages_of (PoolPublicID cfg) (atTransactions obj) []))"

definition GetRewardRecipients :: "Config \<Rightarrow> wallets \<Rightarrow> error + (uint64 \<times> bool) list" where
  "GetRewardRecipients cfg ws =
     (case reqRandom (\<lambda>w. wGetAccountsWithRewardRecipient w (PoolPublicID cfg)) ws of
        Inl err \<Rightarrow> Inl err
      | Inr res \<Rightarrow> Inr (fold (\<lambda>r. AList.update r True) (rrRecipients res) []))"

text \<open>
  The first component tells whether some wallet could answer the query at all: it knew the
  transaction, or its error ends in \<^verbatim>\<open>Unknown transaction\<close>.
\<close>

fun any_answered :: "(Wallet \<Rightarrow> error + 'a) \<Rightarrow> wallets \<Rightarrow> bool" where
  "any_answered reqF [] = False"
| "any_answered reqF ((u, w) # ws) = (case reqF w of
     Inr _ \<Rightarrow> True | Inl err \<Rightarrow> suffix ''Unknown transaction'' err \<or> any_answered reqF ws)"

definition whGetTransaction :: "uint64 \<Rightarrow> wallets \<Rightarrow> bool \<times> (error + GetTransactionReply)" where
  "whGetTransaction txID ws =
     (any_answered (\<lambda>w. wGetTransaction w txID) ws, reqRandom (\<lambda>w. wGetTransaction w txID) ws)"

fun count_txs :: "uint64 list \<Rightarrow> (nat \<Rightarrow> wallets) \<Rightarrow> nat \<Rightarrow> int64 \<Rightarrow> error + int64" where
  "count_txs [] wss k txCount = Inr txCount"
| "count_txs (h # hs) wss k txCount = (case GetBlockInfo h (wss k) of
     Inl err \<Rightarrow> Inl err
   | Inr blockInfo \<Rightarrow> count_txs hs wss (k + 1) (i64 (txCount + gbNumberOfTransactions blockInfo)))"

definition go_div :: "int \<Rightarrow> int \<Rightarrow> int" where
  "go_div a b = sgn a * sgn b * (\<bar>a\<bar> div \<bar>b\<bar>)"

text \<open>The loop runs from \<open>height-11\<close> as long as it is below \<open>height-1\<close>, both computed modulo \<open>2^64\<close>.\<close>

definition CalcOptimalTxFee :: "uint64 \<Rightarrow> (nat \<Rightarrow> wallets) \<Rightarrow> error + int64" where
  "CalcOptimalTxFee height wss =
     (case count_txs (map of_nat [unat (height - 11)..<unat (height - 1)]) wss 0 0 of
        Inl err \<Rightarrow> Inl err
      | Inr txCount \<Rightarrow> Inr (i64 (735000 * i64 (go_div txCount 10 + 1))))"

section \<open>Properties\<close>

lemma reqAll_results_set:
  "set (reqAll_results f ws) = {(r, u). \<exists>w. (u, w) \<in> set ws \<and> f w = Inr r}"
  by (induction ws) (auto split: sum.splits)

lemma reqAll_results_ne: "(u, w) \<in> set ws \<Longrightarrow> f w = Inr r \<Longrightarrow> reqAll_results f ws \<noteq> []"
  using reqAll_results_set [of f ws] by force

lemma reqAll_Inl: "(\<exists>e. reqAll f ws = Inl e) \<longleftrightarrow> (\<forall>(u, w) \<in> set ws. \<exists>e. f w = Inl e)"
proof -
  have "reqAll_results f ws = [] \<longleftrightarrow> (\<forall>(u, w) \<in> set ws. \<exists>e. f w = Inl e)"
    by (induction ws) (auto split: sum.splits)
  then show ?thesis by (simp add: reqAll_def Let_def)
qed

lemma reqAll_hd:
  assumes "reqAll f ws = Inr rs"
  shows "rs \<noteq> [] \<and> (\<forall>(r, u) \<in> set rs. \<exists>w. (u, w) \<in> set ws \<and> f w = Inr r)"
  using assms reqAll_results_set [of f ws] by (auto simp: reqAll_def Let_def split: if_splits)

lemma reqRandom_Inr: "reqRandom f ws = Inr r \<Longrightarrow> \<exists>(u, w) \<in> set ws. f w = Inr r"
  by (induction ws) (auto split: sum.splits)

lemma reqRandom_Inl: "(\<exists>e. reqRandom f ws = Inl e) \<longleftrightarrow> (\<forall>(u, w) \<in> set ws. \<exists>e. f w = Inl e)"
  by (induction ws) (auto split: sum.splits)

lemma newest_info_mem: "newest_info mi rs = mi \<or> newest_info mi rs \<in> fst ` set rs"
proof (induction mi rs rule: newest_info.induct)
  case (2 mi tmp url rs)
  then show ?case by (cases "miHeight mi < miHeight tmp") auto
qed simp

lemma newest_info_ge:
  "miHeight mi \<le> miHeight (newest_info mi rs) \<and> (\<forall>r \<in> fst ` set rs. miHeight r \<le> miHeight (newest_info mi rs))"
proof (induction mi rs rule: newest_info.induct)
  case (2 mi tmp url rs)
  then show ?case by (cases "miHeight mi < miHeight tmp") (auto simp: not_less intro: order_trans)
qed simp

text \<open>
  Whatever the order in which the wallets answer: the pool follows the longest chain. The mining
  info it uses has the greatest height among all wallets that answered and (unless every height
  is zero) is the unchanged reply of one of them; there is an error only if no wallet answered.
\<close>

theorem GetMiningInfo_newest:
  assumes "(u, w) \<in> set ws" and "wGetMiningInfo w = Inr reply"
  shows "\<exists>mi. whGetMiningInfo ws = Inr mi \<and>
    (\<forall>(u', w') \<in> set ws. \<forall>r. wGetMiningInfo w' = Inr r \<longrightarrow> miHeight r \<le> miHeight mi) \<and>
    (miHeight mi = 0 \<or> (\<exists>(u', w') \<in> set ws. wGetMiningInfo w' = Inr mi))"
proof -
  let ?rs = "reqAll_results wGetMiningInfo ws" and ?mi = "newest_info zero_MiningInfo (reqAll_results wGetMiningInfo ws)"
  have "whGetMiningInfo ws = Inr ?mi"
    using reqAll_results_ne [of u w ws wGetMiningInfo reply] assms by (simp add: whGetMiningInfo_def reqAll_def)
  moreover have "miHeight r \<le> miHeight ?mi" if "(u', w') \<in> set ws" "wGetMiningInfo w' = Inr r" for u' w' r
  proof -
    have "(r, u') \<in> set ?rs" using that by (auto simp: reqAll_results_set)
    then show ?thesis using newest_info_ge [of zero_MiningInfo ?rs] by force
  qed
  moreover have "miHeight ?mi = 0 \<or> (\<exists>(u', w') \<in> set ws. wGetMiningInfo w' = Inr ?mi)"
    using newest_info_mem [of zero_MiningInfo ?rs]
    by (auto simp: zero_MiningInfo_def reqAll_results_set image_iff)
  ultimately show ?thesis by blast
qed

definition sample_wallet :: "uint64 \<Rightarrow> Wallet" where
  "sample_wallet h = (wallet_of sample_wallet_env ''w'')
     \<lparr>wGetMiningInfo := Inr \<lparr>ErrorDescription = [], miGenerationSignature = ''00'', miBaseTarget = 5, miHeight = h\<rparr>\<rparr>"

theorem GetMiningInfo_newest_witness:
  "\<exists>mi. whGetMiningInfo [(''a'', sample_wallet 9), (''b'', sample_wallet 12), (''c'', sample_wallet 11)] = Inr mi \<and>
     12 \<le> miHeight mi"
  using GetMiningInfo_newest [of "''b''" "sample_wallet 12"
      "[(''a'', sample_wallet 9), (''b'', sample_wallet 12), (''c'', sample_wallet 11)]"]
  by (auto simp: sample_wallet_def)

text \<open>C33.
  A payment reports the transaction id of exactly the one signed transaction that is handed to
  the network, and that transaction was created by a wallet for this recipient and this amount;
  when no wallet could create it, an error is reported and nothing is broadcast. So an error
  never hides a payment, and the pool never broadcasts two transactions for one payment.
\<close>

theorem SendPayment_single_transaction:
  shows "(\<exists>id bytes. whSendPayment cfg secret recipient amount ws = (Inr id, [bytes]) \<and>
      (\<exists>u w reply. (u, w) \<in> set ws \<and>
        wSendMoney w \<lparr>rmRecipient = recipient, rmAmountNQT = amount, rmFeeNQT = PoolTxFee cfg,
          rmDeadline = 1440, rmReferencedTransactionFullHash = [], rmBroadcast = False,
          rmSecretPhrase = secret\<rparr> = Inr reply \<and>
        id = smTxID reply \<and> bytes = tdTransactionBytes (smData reply))) \<or>
    (\<exists>err. whSendPayment cfg secret recipient amount ws = (Inl err, []))"
proof (cases "reqAll (\<lambda>w. wSendMoney w \<lparr>rmRecipient = recipient, rmAmountNQT = amount,
    rmFeeNQT = PoolTxFee cfg, rmDeadline = 1440, rmReferencedTransactionFullHash = [],
    rmBroadcast = False, rmSecretPhrase = secret\<rparr>) ws")
  case (Inl err)
  then show ?thesis by (simp add: whSendPayment_def)
next
  case (Inr rs)
  then obtain r u rs' where rs: "rs = (r, u) # rs'" using reqAll_hd by (cases rs) force+
  then show ?thesis using reqAll_hd [OF Inr] Inr by (auto simp: whSendPayment_def Let_def)
qed

text \<open>C32.
  A nonce counts as submitted exactly when a wallet was asked that returned the very deadline the
  pool had computed; a wallet that answers with another deadline is treated as failed.
\<close>

theorem SubmitNonce_needs_same_deadline:
  "whSubmitNonce secret n accountID deadline ws = Inr () \<longleftrightarrow>
    (\<exists>(u, w) \<in> set ws. \<exists>r. snDeadline r = deadline \<and>
      wSubmitNonce w \<lparr>rqAccountID = accountID, rqNonce = n, rqSecretPhrase = secret\<rparr> = Inr r)"
proof -
  define accepts where "accepts w \<longleftrightarrow> (\<exists>r. snDeadline r = deadline \<and>
      wSubmitNonce w \<lparr>rqAccountID = accountID, rqNonce = n, rqSecretPhrase = secret\<rparr> = Inr r)" for w :: Wallet
  have step: "whSubmitNonce secret n accountID deadline ((u, w) # ws) = Inr () \<longleftrightarrow>
      accepts w \<or> whSubmitNonce secret n accountID deadline ws = Inr ()" for u w ws
    by (auto simp: whSubmitNonce_def accepts_def split: sum.splits if_splits)
  have "whSubmitNonce secret n accountID deadline [] \<noteq> Inr ()" by (simp add: whSubmitNonce_def)
  then have "whSubmitNonce secret n accountID deadline ws = Inr () \<longleftrightarrow> (\<exists>(u, w) \<in> set ws. accepts w)"
    by (induction ws) (auto simp: step)
  then show ?thesis by (simp add: accepts_def)
qed

lemma count_txs_bounds:
  assumes "\<forall>k h b. GetBlockInfo h (wss k) = Inr b \<longrightarrow> 0 \<le> gbNumberOfTransactions b \<and> gbNumberOfTransactions b \<le> 255"
    and "count_txs hs wss k c = Inr t" "0 \<le> c" "c + 255 * int (length hs) < 2 ^ 62"
  shows "0 \<le> t \<and> t \<le> c + 255 * int (length hs)"
  using assms(2-)
proof (induction hs arbitrary: k c)
  case (Cons h hs)
  then obtain b where b: "GetBlockInfo h (wss k) = Inr b" by (auto split: sum.splits)
  then have nb: "0 \<le> gbNumberOfTransactions b" "gbNumberOfTransactions b \<le> 255" using assms(1) by blast+
  have "is_i64 (c + gbNumberOfTransactions b)" using nb Cons.prems by (auto simp: is_i64_def)
  then show ?case using Cons.prems Cons.IH [of "k + 1" "c + gbNumberOfTransactions b"] b nb by auto
qed simp

lemma fee_window:
  "length [unat (height - 11)..<unat (height - 1 :: uint64)] = (if 0 < height \<and> height < 11 then 0 else 10)"
  using unsigned_less [of height] by (auto simp: unat_sub_if' word_less_nat_alt)

text \<open>C31.
  The optimal fee is computed from exactly the ten blocks before the last one, and from none when
  the height is below eleven; with at most 255 transactions per block it lies between 735000 and
  188160000, so no intermediate result overflows.
\<close>

theorem CalcOptimalTxFee_range:
  assumes "CalcOptimalTxFee height wss = Inr fee"
    and "\<forall>k h b. GetBlockInfo h (wss k) = Inr b \<longrightarrow> 0 \<le> gbNumberOfTransactions b \<and> gbNumberOfTransactions b \<le> 255"
  shows "735000 \<le> fee \<and> fee \<le> 188160000 \<and> (0 < height \<and> height < 11 \<longrightarrow> fee = 735000)"
proof -
  let ?hs = "map of_nat [unat (height - 11)..<unat (height - 1)] :: uint64 list"
  have len: "length ?hs = (if 0 < height \<and> height < 11 then 0 else 10)"
    using fee_window [of height] by simp
  obtain t where t: "count_txs ?hs wss 0 0 = Inr t" "fee = i64 (735000 * i64 (go_div t 10 + 1))"
    using assms(1) by (auto simp: CalcOptimalTxFee_def split: sum.splits)
  have b: "0 \<le> t" "t \<le> 255 * int (length ?hs)"
    using count_txs_bounds [OF assms(2) t(1)] len by auto
  then have "t \<le> 2550" using len by (simp split: if_splits)
  then have t10: "t div 10 \<le> 255" "0 \<le> t div 10" using b by auto
  have d: "go_div t 10 = t div 10" using b by (cases "t = 0") (simp_all add: go_div_def sgn_if)
  have "is_i64 (t div 10 + 1)" "is_i64 (735000 * (t div 10 + 1))" using t10 by (auto simp: is_i64_def)
  then have "fee = 735000 * (t div 10 + 1)" using t(2) d by simp
  moreover have "0 < height \<and> height < 11 \<Longrightarrow> t = 0" using b len by (simp split: if_splits)
  ultimately show ?thesis using t10 by auto
qed

definition sample_block :: "int \<Rightarrow> GetBlockReply" where
  "sample_block n = \<lparr>ErrorDescription = [], gbPreviousBlockHash = [], gbPayloadLength = 0, gbTotalAmountNQT = 0,
     gbGenerationSignature = [], gbGenerator = 7, gbGeneratorPublicKey = [], gbBaseTarget = 70312,
     gbPayloadHash = [], gbGeneratorRS = [], gbBlockReward = 1000, gbScoopNum = 1,
     gbNumberOfTransactions = n, gbBlockSignature = [], gbTransactions = [], gbNonce = 9, gbVersion = 3,
     gbTotalFeeNQT = 0, gbPreviousBlock = 0, gbBlock = 0, gbNextBlock = 0, gbHeight = 100, gbTimestamp = 0\<rparr>"

theorem CalcOptimalTxFee_range_witness:
  "\<exists>fee. CalcOptimalTxFee 100 (\<lambda>k. [(''w'', (sample_wallet 100)\<lparr>wGetBlock := \<lambda>r. Inr (sample_block 20)\<rparr>)]) = Inr fee \<and>
     735000 \<le> fee \<and> fee \<le> 188160000"
proof -
  let ?wss = "\<lambda>k :: nat. [(''w'', (sample_wallet 100)\<lparr>wGetBlock := \<lambda>r. Inr (sample_block 20)\<rparr>)]"
  have B: "GetBlockInfo h (?wss k) = Inr (sample_block 20)" for h k by (simp add: GetBlockInfo_def)
  then have "\<exists>t. count_txs hs ?wss k c = Inr t" for hs k c
    by (induction hs arbitrary: k c) auto
  then obtain fee where fee: "CalcOptimalTxFee 100 ?wss = Inr fee"
    unfolding CalcOptimalTxFee_def by (metis (no_types, lifting) sum.simps(6))
  have "\<forall>k h b. GetBlockInfo h (?wss k) = Inr b \<longrightarrow> 0 \<le> gbNumberOfTransactions b \<and> gbNumberOfTransactions b \<le> 255"
    by (simp add: B) (simp add: sample_block_def)
  then show ?thesis using CalcOptimalTxFee_range [OF fee] fee by blast
qed

lemma find_snoc: "find P (xs @ [y]) = (case find P xs of Some x \<Rightarrow> Some x | None \<Rightarrow> if P y then Some y else None)"
  by (induction xs) auto

lemma messages_of_map:
  "map_of (messages_of pool txs m) i = (if i = pool then map_of m i
     else case find (\<lambda>t. actSender t = i) (rev txs) of
       Some t \<Rightarrow> Some (atMessage (actAttachment t)) | None \<Rightarrow> map_of m i)"
proof (induction pool txs m rule: messages_of.induct)
  case (2 pool t ts m)
  then show ?case by (auto simp: find_snoc update_conv' split: option.splits)
qed simp


definition sample_message :: "uint64 \<Rightarrow> string \<Rightarrow> account_transaction" where
  "sample_message i msg = \<lparr>actSenderPublicKey = [], actSignature = [], actFeeNQT = 0, actType = 1,
     actConfirmations = 0, actFullHash = [], actVersion = 1, actEcBlockID = 0, actSignatureHash = [],
     actAttachment = \<lparr>atVersionMessage = 1, atMessageIsText = True, atMessage = msg\<rparr>,
     actSenderRS = [], actSubtype = 0, actAmountNQT = 0, actSender = i, actRecipientRS = [],
     actRecipient = 42, actEcBlockHeight = 0, actBlock = [], actBlockTimestamp = 0, actDeadline = 0,
     actTransaction = 0, actTimestamp = 0, actHeight = 0\<rparr>"


end
