(* ===== verification/World.thy ===== *)
theory World
  imports Database WalletHandler RSDistance
begin

text \<open>
  The state that the operations of \<^verbatim>\<open>pkg/modelx\<close> work on, and the effects they have: SQL statements,
  questions to the wallet handler, and the clock. What the environment answers is a parameter:
  \<open>tick\<close> counts the effects, and the environment says for every tick whether the connection to
  the database fails, what the wallets answer and what time it is. So every theorem holds for
  every sequence of failures and answers.
\<close>

section \<open>The interface \<open>WalletHandler\<close> as the model uses it\<close>

record WalletHandler =
  hMiningInfo :: "error + GetMiningInfoReply"
  hSubmitNonce :: "uint64 \<Rightarrow> uint64 \<Rightarrow> uint64 \<Rightarrow> error + unit"
  hSendPayment :: "uint64 \<Rightarrow> int64 \<Rightarrow> error + uint64"
  hSendPayments :: "(uint64 \<times> int64) list \<Rightarrow> (error + uint64) option"
  hAccountInfo :: "uint64 \<Rightarrow> error + GetAccountReply"
  hWonBlock :: "uint64 \<Rightarrow> uint64 \<Rightarrow> uint64 \<Rightarrow> error + bool \<times> GetBlockReply"
  hGenerationTime :: "uint64 \<Rightarrow> error + int32"
  hIncomingMsgsSince :: "time \<Rightarrow> error + (uint64 \<times> string) list"
  hRewardRecipients :: "error + (uint64 \<times> bool) list"
  hTransaction :: "uint64 \<Rightarrow> bool \<times> (error + GetTransactionReply)"

text \<open>The implementation of the interface by the functions of \<^verbatim>\<open>pkg/wallethandler\<close>.\<close>

definition walletHandler :: "Config \<Rightarrow> string \<Rightarrow> wallets \<Rightarrow> WalletHandler" where
  "walletHandler cfg secret ws = \<lparr>
     hMiningInfo = whGetMiningInfo ws,
     hSubmitNonce = (\<lambda>n i d. whSubmitNonce secret n i d ws),
     hSendPayment = (\<lambda>i a. fst (whSendPayment cfg secret i a ws)),
     hSendPayments = (\<lambda>m. map_option fst (whSendPayments cfg secret m ws)),
     hAccountInfo = (\<lambda>i. GetAccountInfo i ws),
     hWonBlock = (\<lambda>h i n. whWonBlock h i n ws),
     hGenerationTime = (\<lambda>h. whGetGenerationTime h ws ws),
     hIncomingMsgsSince = (\<lambda>t. GetIncomingMsgsSince cfg t ws),
     hRewardRecipients = GetRewardRecipients cfg ws,
     hTransaction = (\<lambda>tx. whGetTransaction tx ws)\<rparr>"

section \<open>Environment and state\<close>

text \<open>
  \<open>ev_scoop\<close> is the C routine behind \<open>CalcScoop\<close>; \<open>ev_wallet_db\<close> is the optional connection to the
  database of a wallet, with its answer to the query for reward recipients; \<open>ev_date_text\<close> is the
  server's text of a date, \<open>ev_time_text\<close> Go's \<open>Time.String\<close>, \<open>ev_parse_float\<close> is \<open>strconv.ParseFloat\<close>.
\<close>

record env =
  ev_cfg :: Config
  ev_fault :: "nat \<Rightarrow> bool"
  ev_now :: "nat \<Rightarrow> time"
  ev_wallet :: "nat \<Rightarrow> WalletHandler"
  ev_wallet_db :: "(nat \<Rightarrow> sql_error + uint64 list) option"
  ev_scoop :: "uint64 \<Rightarrow> byte list \<Rightarrow> uint32"
  ev_date_text :: "time \<Rightarrow> string"
  ev_time_text :: "time \<Rightarrow> string"
  ev_parse_float :: "string \<Rightarrow> error + float64"

text \<open>
  \<open>payments\<close> records the payments that the wallets have accepted: the row of the transaction
  table, the recipients with their amounts, and the transaction id that was returned. No
  operation reads it.
\<close>

record world =
  db :: database
  cc :: cache
  tick :: nat
  payments :: "(int64 \<times> (uint64 \<times> int64) list \<times> uint64) list"

datatype model_error = Sql sql_error | Msg error

definition next_tick :: "world \<Rightarrow> world" where
  "next_tick w = w\<lparr>tick := tick w + 1\<rparr>"

definition upd_cache :: "(cache \<Rightarrow> cache) \<Rightarrow> world \<Rightarrow> world" where
  "upd_cache f w = w\<lparr>cc := f (cc w)\<rparr>"

definition time_now :: "env \<Rightarrow> world \<Rightarrow> time" where
  "time_now e w = ev_now e (tick w)"

section \<open>Effects\<close>

text \<open>\<open>db.Exec\<close>: the new state and the error, if any.\<close>

definition exec :: "env \<Rightarrow> (database \<Rightarrow> sql_error + database) \<Rightarrow> world \<Rightarrow> world \<times> sql_error option" where
  "exec e st w = (let w' = next_tick w in
     if ev_fault e (tick w) then (w', Some ConnError)
     else case st (db w) of Inl err \<Rightarrow> (w', Some err) | Inr d \<Rightarrow> (w'\<lparr>db := d\<rparr>, None))"

text \<open>\<open>db.Get\<close> and \<open>db.Select\<close>.\<close>

definition query :: "env \<Rightarrow> (database \<Rightarrow> sql_error + 'a) \<Rightarrow> world \<Rightarrow> world \<times> (sql_error + 'a)" where
  "query e q w = (next_tick w, if ev_fault e (tick w) then Inl ConnError else q (db w))"

text \<open>\<open>db.MustExec\<close> panics on an error, which ends the process.\<close>

definition mustExec :: "env \<Rightarrow> (database \<Rightarrow> sql_error + database) \<Rightarrow> world \<Rightarrow> world option" where
  "mustExec e st w = (case exec e st w of (w', None) \<Rightarrow> Some w' | (w', Some _) \<Rightarrow> None)"

text \<open>
  A transaction works on the database and remembers the state at \<open>Begin\<close>; \<open>Rollback\<close> and a failed
  \<open>Commit\<close> go back to it.
\<close>

definition begin_tx :: "env \<Rightarrow> world \<Rightarrow> world \<times> sql_error option" where
  "begin_tx e w = exec e Inr w"

definition prepare :: "env \<Rightarrow> world \<Rightarrow> world \<times> sql_error option" where
  "prepare e w = exec e Inr w"

definition rollback :: "database \<Rightarrow> world \<Rightarrow> world" where
  "rollback d w = w\<lparr>db := d\<rparr>"

definition commit :: "env \<Rightarrow> database \<Rightarrow> world \<Rightarrow> world \<times> sql_error option" where
  "commit e d w = (case exec e Inr w of (w', None) \<Rightarrow> (w', None) | (w', Some err) \<Rightarrow> (rollback d w', Some err))"

text \<open>A question to the wallet handler.\<close>

definition ask :: "env \<Rightarrow> (WalletHandler \<Rightarrow> 'a) \<Rightarrow> world \<Rightarrow> world \<times> 'a" where
  "ask e q w = (next_tick w, q (ev_wallet e (tick w)))"

section \<open>Facts about effects\<close>

lemma next_tick_sel [simp]: "db (next_tick w) = db w" "cc (next_tick w) = cc w"
  by (simp_all add: next_tick_def)

lemma upd_cache_sel [simp]: "db (upd_cache f w) = db w" "cc (upd_cache f w) = f (cc w)" "tick (upd_cache f w) = tick w"
  by (simp_all add: upd_cache_def)

lemma rollback_sel [simp]: "db (rollback d w) = d" "cc (rollback d w) = cc w"
  by (simp_all add: rollback_def)

lemma exec_cases:
  assumes "exec e st w = (w', r)"
  obtains (ok) d where "r = None" "st (db w) = Inr d" "w' = (next_tick w)\<lparr>db := d\<rparr>"
    | (err) er where "r = Some er" "w' = next_tick w"
  using assms by (auto simp: exec_def Let_def split: if_splits sum.splits)

lemma exec_cc: "exec e st w = (w', r) \<Longrightarrow> cc w' = cc w"
  by (erule exec_cases) simp_all

lemma exec_Inr: "exec e Inr w = (w', r) \<Longrightarrow> w' = next_tick w"
  by (erule exec_cases) (simp_all add: next_tick_def)

lemma begin_tx_next: "begin_tx e w = (w', r) \<Longrightarrow> w' = next_tick w"
  by (simp add: begin_tx_def exec_Inr)

lemma prepare_next: "prepare e w = (w', r) \<Longrightarrow> w' = next_tick w"
  by (simp add: prepare_def exec_Inr)

lemma commit_cases:
  assumes "commit e d w = (w', r)"
  obtains (ok) "r = None" "w' = next_tick w" | (err) er where "r = Some er" "w' = rollback d (next_tick w)"
  using assms by (auto simp: commit_def dest: exec_Inr split: prod.splits option.splits)

lemma query_next: "query e q w = (w', r) \<Longrightarrow> w' = next_tick w"
  by (simp add: query_def)

lemma query_Inr: "query e q w = (w', Inr x) \<Longrightarrow> q (db w) = Inr x \<and> w' = next_tick w"
  by (auto simp: query_def split: if_splits)

lemma ask_next: "ask e q w = (w', r) \<Longrightarrow> w' = next_tick w"
  by (simp add: ask_def)

lemma mustExec_Some:
  "mustExec e st w = Some w' \<longleftrightarrow> (\<exists>d. st (db w) = Inr d \<and> w' = (next_tick w)\<lparr>db := d\<rparr>) \<and> \<not> ev_fault e (tick w)"
  by (auto simp: mustExec_def exec_def Let_def split: if_splits sum.splits)

section \<open>A small instance\<close>

text \<open>A pool with one account that mines and the fee account, at block 100000, without failures.\<close>

definition sample_handler :: WalletHandler where
  "sample_handler = \<lparr>hMiningInfo = Inl ''down'', hSubmitNonce = (\<lambda>n i d. Inr ()),
     hSendPayment = (\<lambda>i a. Inr 4711), hSendPayments = (\<lambda>m. Some (Inr 4712)),
     hAccountInfo = (\<lambda>i. Inl ''unknown''), hWonBlock = (\<lambda>h i n. Inr (True, (sample_block 20)\<lparr>gbHeight := h\<rparr>)),
     hGenerationTime = (\<lambda>h. Inr 240), hIncomingMsgsSince = (\<lambda>t. Inr []),
     hRewardRecipients = Inr [(77, True)], hTransaction = (\<lambda>tx. (False, Inl ''timeout''))\<rparr>"

definition sample_env :: env where
  "sample_env = \<lparr>ev_cfg = with_defaults example_config, ev_fault = (\<lambda>t. False), ev_now = (\<lambda>t. 5000000000000),
     ev_wallet = (\<lambda>t. sample_handler), ev_wallet_db = None, ev_scoop = (\<lambda>h g. 17),
     ev_date_text = (\<lambda>t. ''date''), ev_time_text = (\<lambda>t. ''time''), ev_parse_float = (\<lambda>s. Inl ''syntax'')\<rparr>"

definition sample_db :: database where
  "sample_db = \<lparr>account = [
       \<lparr>aID = 7, aAddress = ''fee'', aName = None, aPending = 0, aMinPayout = None, aInterval = None, aNextDate = None\<rparr>,
       \<lparr>aID = 77, aAddress = ''77'', aName = Some ''miner'', aPending = 30000000000, aMinPayout = None,
        aInterval = None, aNextDate = None\<rparr>],
     nonce_submission = [], block = [\<lparr>kHeight = 100000, kBaseTarget = 70312, kScoop = 17, kGenSig = replicate 64 CHR ''0'',
       kVerified = False, kReward = None, kWinner = None, kBest = None, kCreated = 0, kGenTime = 240\<rparr>],
     miner = [\<lparr>rID = 77, rCapacity = None\<rparr>], transaction = [], transaction_recipient = [],
     next_submission = 1, next_tx = 1, next_recipient = 1\<rparr>"

definition sample_current :: Block where
  "sample_current = zero_Block\<lparr>bHeight := 100000, bBaseTarget := 70312, bScoop := 17,
     bGenerationSignature := replicate 64 CHR ''0'', bGenerationSignatureBytes := replicate 32 0\<rparr>"

definition sample_world :: world where
  "sample_world = \<lparr>db = sample_db, cc = StoreCurrentBlock (with_defaults example_config) sample_current
     (sample_cache\<lparr>heap := [sample_miner], miners := [(77, 0)]\<rparr>), tick = 0, payments = []\<rparr>"

lemma sample_world_inv: "cache_inv (ev_cfg sample_env) (cc sample_world)"
proof -
  have "miners_wf (sample_cache\<lparr>heap := [sample_miner], miners := [(77, 0)]\<rparr>)"
    using sample_miner_exact by (simp add: miners_wf_def sample_miner_def newMiner_def)
  then show ?thesis
    by (simp add: cache_inv_def sample_world_def sample_env_def cache_simps announces_current_def
        sample_cache_def blocks_inv_def miners_wf_def)
qed

end
