(* ===== verification/Rounds.thy ===== *)
theory Rounds
  imports World
begin

text \<open>
  The rounds of mining in \<^verbatim>\<open>modelx.go\<close>: new blocks and forks, the miners, and the submission of
  deadlines. An operation that may panic returns an option; \<open>None\<close> is the end of the process.
\<close>

section \<open>Reward recipients\<close>

definition isConnectedToWalletDB :: "env \<Rightarrow> bool" where
  "isConnectedToWalletDB e \<longleftrightarrow> ev_wallet_db e \<noteq> None"

definition cacheRewardRecipients :: "env \<Rightarrow> world \<Rightarrow> world" where
  "cacheRewardRecipients e w =
     (case ev_wallet_db e of
        None \<Rightarrow>
          (case ask e hRewardRecipients w of
             (w, Inl err) \<Rightarrow> w
           | (w, Inr recips) \<Rightarrow> upd_cache (StoreRewardRecipients recips) w)
      | Some wallet_db \<Rightarrow>
          (case query e (\<lambda>_. wallet_db (tick w)) w of
             (w, Inl err) \<Rightarrow> w
           | (w, Inr validAccountIDs) \<Rightarrow>
               upd_cache (StoreRewardRecipients (fold (\<lambda>i. AList.update i True) validAccountIDs [])) w))"

section \<open>New blocks\<close>

text \<open>What a new block does to one cached miner.\<close>

definition roll_miner :: "env \<Rightarrow> uint64 \<Rightarrow> uint64 \<Rightarrow> uint64 \<Rightarrow> nat \<Rightarrow> cache \<Rightarrow> cache" where
  "roll_miner e height removedHeight key p c =
     (let m = miner_at c p;
          m1 = (if fst (WasSlowBlock (CurrentBlockHeight m) c) then addDeadlineParams m else m);
          m2 = (if removedHeight \<noteq> 0 then removeDeadlineParams removedHeight m1 else m1);
          c1 = map_miner p (\<lambda>_. m2) c
      in if CurrentBlockHeight m2 < height - InactiveAfterXBlocks (ev_cfg e) then DeleteMiner key c1 else c1)"

definition new_block_value :: "env \<Rightarrow> uint64 \<Rightarrow> string \<Rightarrow> byte list \<Rightarrow> uint64 \<Rightarrow> time \<Rightarrow> Block" where
  "new_block_value e baseTarget genSig genSigBytes height created =
     zero_Block\<lparr>bHeight := height, bBaseTarget := baseTarget, bScoop := ev_scoop e height genSigBytes,
       bGenerationSignature := genSig, bGenerationSignatureBytes := genSigBytes, bCreated := created\<rparr>"

text \<open>
  The two branches of \<open>newBlock\<close> before the insertion: the generation time that is inserted, the
  height that fell out of the window, and the new current block (none for an old height).
\<close>

definition close_current ::
  "env \<Rightarrow> uint64 \<Rightarrow> string \<Rightarrow> byte list \<Rightarrow> uint64 \<Rightarrow> world \<Rightarrow> (world \<times> int32 \<times> uint64 \<times> Block option) option" where
  "close_current e baseTarget genSig genSigBytes height w =
     (let cur = bHeight (CurrentBlock (cc w)) in
      case ask e (\<lambda>h. hGenerationTime h cur) w of
        (w, Inl err) \<Rightarrow> Some (w, 0, 0, Some (new_block_value e baseTarget genSig genSigBytes height (time_now e w)))
      | (w, Inr generationTime) \<Rightarrow> do {
          w \<leftarrow> mustExec e (sql_set_generation_time generationTime cur) w;
          (let (c, removedHeight) = AddBlock (ev_cfg e) cur generationTime (cc w);
               w = w\<lparr>cc := c\<rparr>
           in Some (w, generationTime, removedHeight,
                Some (new_block_value e baseTarget genSig genSigBytes height (time_now e w)))) })"

definition add_old_block :: "env \<Rightarrow> uint64 \<Rightarrow> world \<Rightarrow> (world \<times> int32 \<times> uint64 \<times> Block option) option" where
  "add_old_block e height w =
     (let (w, r) = ask e (\<lambda>h. hGenerationTime h height) w;
          generationTime = (case r of Inl err \<Rightarrow> 4 * 60 | Inr t \<Rightarrow> t);
          (c, removedHeight) = AddBlock (ev_cfg e) height generationTime (cc w)
      in Some (w\<lparr>cc := c\<rparr>, generationTime, removedHeight, None))"

definition newBlock :: "env \<Rightarrow> uint64 \<Rightarrow> string \<Rightarrow> uint64 \<Rightarrow> world \<Rightarrow> (world \<times> model_error option) option" where
  "newBlock e baseTarget genSig height w =
     (if snd (WasSlowBlock height (cc w)) then Some (w, None)
      else let currentBlock = CurrentBlock (cc w) in
        if bHeight currentBlock \<noteq> 0 \<and> height < bHeight currentBlock - of_int (NAVG (ev_cfg e))
        then Some (w, Some (Msg ''bock too old''))
        else case DecodeGeneratorSignature genSig of
          Inl err \<Rightarrow> Some (w, Some (Msg ''generation signature''))
        | Inr genSigBytes \<Rightarrow> do {
            (w, generationTime, removedHeight, nb) \<leftarrow>
              (if bHeight currentBlock < height
               then close_current e baseTarget genSig genSigBytes height w
               else add_old_block e height w);
            w \<leftarrow> mustExec e (sql_insert_block height baseTarget (ev_scoop e height genSigBytes) genSig
                   (time_now e w) generationTime) w;
            let w = upd_cache (\<lambda>c. MinerRange (roll_miner e height removedHeight) (miners c) c) w;
            Some (case nb of
                None \<Rightarrow> (w, None)
              | Some b \<Rightarrow> (upd_cache (StoreCurrentBlock (ev_cfg e) b) (cacheRewardRecipients e w), None)) })"

section \<open>Forks\<close>

definition switch_miner :: "env \<Rightarrow> uint64 \<Rightarrow> uint64 \<Rightarrow> nat \<Rightarrow> world \<Rightarrow> world" where
  "switch_miner e height key p w =
     (case exec e (sql_switch_delete (mID (miner_at (cc w) p)) height) w of
        (w, Some err) \<Rightarrow> w
      | (w, None) \<Rightarrow> upd_cache (map_miner p (removeDeadlineParams height)) w)"

definition switchBlock :: "env \<Rightarrow> uint64 \<Rightarrow> string \<Rightarrow> uint64 \<Rightarrow> world \<Rightarrow> world \<times> model_error option" where
  "switchBlock e baseTarget genSig height w =
     (case DecodeGeneratorSignature genSig of
        Inl err \<Rightarrow> (w, Some (Msg ''generation signature''))
      | Inr genSigBytes \<Rightarrow>
          (case exec e (sql_switch_block genSig baseTarget height) w of
             (w, Some err) \<Rightarrow> (w, Some (Sql err))
           | (w, None) \<Rightarrow>
               let b = new_block_value e baseTarget genSig genSigBytes height (time_now e w);
                   w = upd_cache (StoreRoundInfo b) w;
                   w = MinerRange (switch_miner e height) (miners (cc w)) w
               in (upd_cache (StoreMiningInfo (ev_cfg e) b) w, None)))"

definition MaybeSwitchOrNewBlock :: "env \<Rightarrow> uint64 \<Rightarrow> string \<Rightarrow> uint64 \<Rightarrow> world \<Rightarrow> world option" where
  "MaybeSwitchOrNewBlock e baseTarget genSig height w =
     (let oldBlock = CurrentBlock (cc w) in
      if bHeight oldBlock = height \<and> bGenerationSignature oldBlock \<noteq> genSig
      then Some (fst (switchBlock e baseTarget genSig height w))
      else if bHeight oldBlock \<noteq> height
      then (case newBlock e baseTarget genSig height w of None \<Rightarrow> None | Some (w, err) \<Rightarrow> Some w)
      else Some w)"

section \<open>Miners\<close>

definition getMinerFromDB :: "env \<Rightarrow> uint64 \<Rightarrow> world \<Rightarrow> world \<times> Miner option" where
  "getMinerFromDB e accountID w =
     (case query e (sql_select_account accountID) w of
        (w, Inl err) \<Rightarrow> (w, None)
      | (w, Inr a) \<Rightarrow> (w, Some (newMiner (aID a) (aAddress a)
          (case aName a of Some n \<Rightarrow> n | None \<Rightarrow> []) (aPending a))))"

definition createMiner :: "env \<Rightarrow> uint64 \<Rightarrow> world \<Rightarrow> (world \<times> (model_error + Miner)) option" where
  "createMiner e accountID w =
     (if accountID = FeeAccountID (ev_cfg e)
      then Some (w, Inl (Msg ''not allowed to mine with fee account''))
      else do {
        address \<leftarrow> Encode accountID;
        (let (w, info) = ask e (\<lambda>h. hAccountInfo h accountID) w;
             name = (case info of Inl err \<Rightarrow> [] | Inr accountInfo \<Rightarrow> gaName accountInfo);
             d0 = db w
         in Some (case begin_tx e w of
              (w, Some err) \<Rightarrow> (w, Inl (Sql err))
            | (w, None) \<Rightarrow>
                (case exec e (sql_insert_account accountID address (Some name)) w of
                   (w, Some err) \<Rightarrow> (rollback d0 w, Inl (Sql err))
                 | (w, None) \<Rightarrow>
                     (case exec e (sql_insert_miner accountID) w of
                        (w, Some err) \<Rightarrow> (rollback d0 w, Inl (Sql err))
                      | (w, None) \<Rightarrow>
                          (case commit e d0 w of
                             (w, Some err) \<Rightarrow> (w, Inl (Sql err))
                           | (w, None) \<Rightarrow> (w, Inr (newMiner accountID address name 0))))))) })"

definition FirstOrCreateMiner :: "env \<Rightarrow> uint64 \<Rightarrow> world \<Rightarrow> (world \<times> nat option) option" where
  "FirstOrCreateMiner e accountID w =
     (case GetMiner accountID (cc w) of
        Some p \<Rightarrow> Some (w, Some p)
      | None \<Rightarrow> do {
          (w, m) \<leftarrow> (case getMinerFromDB e accountID w of
              (w, Some m) \<Rightarrow> Some (w, Some m)
            | (w, None) \<Rightarrow>
                (case createMiner e accountID w of
                   None \<Rightarrow> None
                 | Some (w, Inl err) \<Rightarrow> Some (w, None)
                 | Some (w, Inr m) \<Rightarrow> Some (w, Some m)));
          Some (case m of
              None \<Rightarrow> (w, None)
            | Some m \<Rightarrow>
                (let (p, c) = new_miner_object m (cc w); (q, c) = LoadOrStoreMiner p c
                 in (w\<lparr>cc := c\<rparr>, Some q))) })"

definition reread_name :: "env \<Rightarrow> uint64 \<Rightarrow> nat \<Rightarrow> world \<Rightarrow> world" where
  "reread_name e minerID p w =
     (case ask e (\<lambda>h. hAccountInfo h minerID) w of
        (w, Inl err) \<Rightarrow> w
      | (w, Inr accountInfo) \<Rightarrow>
          if mName (miner_at (cc w) p) = gaName accountInfo then w
          else let w = upd_cache (map_miner p (\<lambda>m. m\<lparr>mName := gaName accountInfo\<rparr>)) w
               in fst (exec e (sql_set_name (gaName accountInfo) (mID (miner_at (cc w) p))) w))"

definition RereadMinerNames :: "env \<Rightarrow> world \<Rightarrow> world" where
  "RereadMinerNames e w = MinerRange (reread_name e) (miners (cc w)) w"

section \<open>Submissions\<close>

text \<open>
  \<open>blockExists, slow := Cache.WasSlowBlock(height)\<close> receives the pair (slow, known) in this order;
  the names are those of the code.
\<close>

definition UpdateOrCreateNonceSubmission ::
  "env \<Rightarrow> nat \<Rightarrow> uint64 \<Rightarrow> uint64 \<Rightarrow> uint64 \<Rightarrow> uint64 \<Rightarrow> string \<Rightarrow> world \<Rightarrow> (world \<times> model_error option) option" where
  "UpdateOrCreateNonceSubmission e p height deadline n baseTarget genSig w =
     (let m = miner_at (cc w) p in
      if CurrentBlockHeight m = height then
        if CurrentDeadline m \<le> deadline then Some (w, None)
        else (case exec e (sql_update_submission deadline n (mID m) height) w of
           (w, Some err) \<Rightarrow> Some (w, Some (Sql err))
         | (w, None) \<Rightarrow>
             if CurrentDeadlineParams m = None then None
             else Some (upd_cache (map_miner p (better_current deadline)) w, None))
      else let (blockExists, slow) = WasSlowBlock height (cc w) in
        if blockExists \<and> \<not> slow then Some (w, None)
        else case map_of (DeadlinesParams m) height of
          Some r \<Rightarrow>
            if dpDeadline (dp_at m r) \<le> deadline then Some (w, None)
            else (case exec e (sql_update_submission deadline n (mID m) height) w of
               (w, Some err) \<Rightarrow> Some (w, Some (Sql err))
             | (w, None) \<Rightarrow>
                 Some (upd_cache (map_miner p (better_confirmed r height deadline baseTarget)) w, None))
        | None \<Rightarrow> do {
            w \<leftarrow> (if \<not> blockExists then MaybeSwitchOrNewBlock e baseTarget genSig height w else Some w);
            Some (case exec e (sql_insert_submission (mID m) height deadline n) w of
               (w, Some err) \<Rightarrow> (w, Some (Sql err))
             | (w, None) \<Rightarrow>
                 (upd_cache (map_miner p (first_deadline height deadline baseTarget)) w, None)) })"

definition UpdateBestSubmission :: "env \<Rightarrow> uint64 \<Rightarrow> uint64 \<Rightarrow> world \<Rightarrow> world option" where
  "UpdateBestSubmission e minerID height w = mustExec e (sql_set_best minerID height) w"

definition GetBestNonceSubmissionOnBlock :: "env \<Rightarrow> uint64 \<Rightarrow> world \<Rightarrow> world \<times> (sql_error + NonceSubmission)" where
  "GetBestNonceSubmissionOnBlock e height w = query e (sql_best_submission height) w"

end
