(* ===== verification/Payout.thy ===== *)
theory Payout
  imports Rounds
begin

text \<open>
  Payments in \<^verbatim>\<open>modelx.go\<close>: collecting pending amounts into transactions of at most 64 recipients,
  sending and confirming the transactions, and the payout settings that miners send as messages.
\<close>

section \<open>Creating transactions\<close>

text \<open>The row ids of \<open>n\<close> new transactions; the error makes the caller roll back.\<close>

fun insert_txs :: "env \<Rightarrow> nat \<Rightarrow> int64 list \<Rightarrow> world \<Rightarrow> world \<times> int64 list option" where
  "insert_txs e 0 dbTxIDs w = (w, Some dbTxIDs)"
| "insert_txs e (Suc n) dbTxIDs w =
     (let i = next_tx (db w) in
      case exec e (sql_insert_tx (sql_now (time_now e w))) w of
        (w, Some err) \<Rightarrow> (w, None)
      | (w, None) \<Rightarrow> insert_txs e n (dbTxIDs @ [i]) w)"

definition update_next_date :: "env \<Rightarrow> PendingInfo \<Rightarrow> world \<Rightarrow> world \<times> sql_error option" where
  "update_next_date e info w =
     (case piPayoutInterval info of
        None \<Rightarrow> (w, None)
      | Some s \<Rightarrow>
          if s = ''weekly'' then exec e (sql_set_next_date (Some (time_now e w + 7 * day)) (piID info)) w
          else if s = ''daily'' then exec e (sql_set_next_date (Some (time_now e w + day)) (piID info)) w
          else if s = ''now'' then exec e (sql_set_next_date None (piID info)) w
          else (w, None))"

text \<open>
  The loop over the accounts to be paid. The result is \<open>None\<close> when the index into the transaction
  ids is out of range (a panic); the flag tells whether every statement succeeded.
\<close>

fun pay_accounts :: "env \<Rightarrow> int64 list \<Rightarrow> nat \<Rightarrow> PendingInfo list \<Rightarrow> world \<Rightarrow> (world \<times> bool) option" where
  "pay_accounts e dbTxIDs i [] w = Some (w, True)"
| "pay_accounts e dbTxIDs i (info # infos) w =
     (case exec e (sql_add_pending (- piPending info) (piID info)) w of
        (w, Some err) \<Rightarrow> Some (w, False)
      | (w, None) \<Rightarrow>
          (case update_next_date e info w of
             (w, Some err) \<Rightarrow> Some (w, False)
           | (w, None) \<Rightarrow> do {
               t \<leftarrow> idx dbTxIDs (i div MaxMultiRecipients);
               (case exec e (sql_insert_recipient t (piID info)
                    (i64 (piPending info - MinerTxFee (ev_cfg e)))) w of
                  (w, Some err) \<Rightarrow> Some (w, False)
                | (w, None) \<Rightarrow> pay_accounts e dbTxIDs (i + 1) infos w) }))"

definition number_of_txs :: "nat \<Rightarrow> nat" where
  "number_of_txs n = (if n mod MaxMultiRecipients = 0 then n div MaxMultiRecipients
     else n div MaxMultiRecipients + 1)"

definition deduct_cached :: "PendingInfo list \<Rightarrow> cache \<Rightarrow> cache" where
  "deduct_cached infos c = fold (\<lambda>info c. case GetMiner (piID info) c of
      Some p \<Rightarrow> map_miner p (\<lambda>m. m\<lparr>mPending := i64 (mPending m - piPending info)\<rparr>) c | None \<Rightarrow> c) infos c"

text \<open>The part of \<open>createTransactions\<close> between \<open>Begin\<close> and the end of the transaction.\<close>

definition create_in_tx :: "env \<Rightarrow> PendingInfo list \<Rightarrow> world \<Rightarrow> (world \<times> bool) option" where
  "create_in_tx e infos w =
     (let k = number_of_txs (length infos) in
      case insert_txs e k [] w of
        (w, None) \<Rightarrow> Some (w, False)
      | (w, Some dbTxIDs) \<Rightarrow> do {
          (w, ok) \<leftarrow> pay_accounts e dbTxIDs 0 infos w;
          Some (if \<not> ok then (w, False)
            else (case exec e (sql_add_pending
                (i64 (i64 (int (length infos) * MinerTxFee (ev_cfg e)) - i64 (int k * PoolTxFee (ev_cfg e))))
                (FeeAccountID (ev_cfg e))) w of
              (w, Some err) \<Rightarrow> (w, False)
            | (w, None) \<Rightarrow> (w, True))) })"

definition createTransactions :: "env \<Rightarrow> world \<Rightarrow> world option" where
  "createTransactions e w =
     (let cfg = ev_cfg e in
      case query e (sql_pending_infos (MinerTxFee cfg) (i64 (MinimumPayout cfg + MinerTxFee cfg))
          (sql_now (time_now e w))) w of
        (w, Inl err) \<Rightarrow> Some w
      | (w, Inr infos) \<Rightarrow>
          if length infos = 0 then Some w
          else let d0 = db w in
            (case begin_tx e w of
               (w, Some err) \<Rightarrow> Some w
             | (w, None) \<Rightarrow>
                 (case prepare e w of
                    (w, Some err) \<Rightarrow> Some w
                  | (w, None) \<Rightarrow>
                      (case prepare e w of
                         (w, Some err) \<Rightarrow> Some w
                       | (w, None) \<Rightarrow>
                           (case prepare e w of
                              (w, Some err) \<Rightarrow> Some w
                            | (w, None) \<Rightarrow> do {
                                (w, ok) \<leftarrow> create_in_tx e infos w;
                                Some (if \<not> ok then rollback d0 w
                                  else (case commit e d0 w of
                                      (w, Some err) \<Rightarrow> w
                                    | (w, None) \<Rightarrow> upd_cache (deduct_cached infos) w)) })))))"

section \<open>Confirming and sending transactions\<close>

fun validate_each :: "env \<Rightarrow> uint64 list \<Rightarrow> world \<Rightarrow> world option" where
  "validate_each e [] w = Some w"
| "validate_each e (tx # txs) w =
     (case ask e (\<lambda>h. hTransaction h tx) w of
        (w, querySuccessful, r) \<Rightarrow>
          if \<not> querySuccessful then validate_each e txs w
          else (case r of
             Inl err \<Rightarrow> do { w \<leftarrow> mustExec e (sql_forget_tx_id tx) w; validate_each e txs w }
           | Inr txInfo \<Rightarrow> do { w \<leftarrow> mustExec e (sql_confirm_tx (gtHeight txInfo) tx) w; validate_each e txs w }))"

definition validateTransactions :: "env \<Rightarrow> world \<Rightarrow> world option" where
  "validateTransactions e w =
     (case query e (sql_unconfirmed (sql_now (time_now e w))) w of
        (w, Inl err) \<Rightarrow> Some w
      | (w, Inr txsToValidate) \<Rightarrow> validate_each e txsToValidate w)"

definition send_tx :: "env \<Rightarrow> (uint64 \<times> int64) list \<Rightarrow> world \<Rightarrow> (world \<times> (error + uint64)) option" where
  "send_tx e recipToAmounts w =
     (if length recipToAmounts = 1
      then Some (ask e (\<lambda>h. hSendPayment h (fst (hd recipToAmounts)) (snd (hd recipToAmounts))) w)
      else (case ask e (\<lambda>h. hSendPayments h (fold (\<lambda>(i, a). AList.update i a) recipToAmounts [])) w of
          (w, None) \<Rightarrow> None
        | (w, Some r) \<Rightarrow> Some (w, r)))"

fun send_each :: "env \<Rightarrow> int64 list \<Rightarrow> world \<Rightarrow> world option" where
  "send_each e [] w = Some w"
| "send_each e (tx # txs) w =
     (case query e (sql_recipients tx) w of
        (w, Inl err) \<Rightarrow> send_each e txs w
      | (w, Inr recipToAmounts) \<Rightarrow> do {
          (w, r) \<leftarrow> send_tx e recipToAmounts w;
          (case r of
             Inl err \<Rightarrow> send_each e txs w
           | Inr txID \<Rightarrow> do {
               let w = w\<lparr>payments := payments w @ [(tx, recipToAmounts, txID)]\<rparr>;
               w \<leftarrow> mustExec e (sql_set_tx_id txID (sql_now (time_now e w)) tx) w;
               send_each e txs w }) })"

definition sendMoney :: "env \<Rightarrow> world \<Rightarrow> world option" where
  "sendMoney e w =
     (case query e sql_unsent w of
        (w, Inl err) \<Rightarrow> Some w
      | (w, Inr txs) \<Rightarrow> send_each e txs w)"

definition Payout :: "env \<Rightarrow> world \<Rightarrow> world option" where
  "Payout e w = do { w \<leftarrow> createTransactions e w; w \<leftarrow> validateTransactions e w; sendMoney e w }"

section \<open>Payout settings\<close>

record payout_setting =
  psMinPayoutValue :: "int64 option"
  psPayoutInterval :: "string option"
  psNextPayoutDate :: "time option"
  psCost :: int64

text \<open>
  The \<open>switch\<close> on a message: the setting it asks for, or nothing if it cannot be parsed or was
  processed before. A failing query counts as "not processed before".
\<close>

definition interval_setting ::
  "env \<Rightarrow> uint64 \<Rightarrow> string \<Rightarrow> time \<Rightarrow> int64 \<Rightarrow> world \<Rightarrow> world \<times> payout_setting option" where
  "interval_setting e accountID msg t cost w =
     (case query e (\<lambda>d. Inr (sql_has_interval accountID msg d)) w of
        (w, Inr True) \<Rightarrow> (w, None)
      | (w, _) \<Rightarrow> (w, Some \<lparr>psMinPayoutValue = None, psPayoutInterval = Some msg,
          psNextPayoutDate = Some t, psCost = cost\<rparr>))"

definition parse_min_payout :: "env \<Rightarrow> string \<Rightarrow> int64 option" where
  "parse_min_payout e msg = (case ParseInt msg of
     Inr minPayout \<Rightarrow> Some minPayout
   | Inl _ \<Rightarrow> (case ev_parse_float e msg of Inl _ \<Rightarrow> None | Inr f \<Rightarrow> Some (f_to_int 64 f)))"

definition payout_request :: "env \<Rightarrow> uint64 \<Rightarrow> string \<Rightarrow> world \<Rightarrow> world \<times> payout_setting option" where
  "payout_request e accountID msg w =
     (let cfg = ev_cfg e; now = time_now e w in
      if msg = ''weekly'' then interval_setting e accountID msg (now + 7 * day) (SetWeeklyFee cfg) w
      else if msg = ''daily'' then interval_setting e accountID msg (now + day) (SetDailyFee cfg) w
      else if msg = ''now'' then interval_setting e accountID msg now (SetNowFee cfg) w
      else (case parse_min_payout e msg of
          None \<Rightarrow> (w, None)
        | Some minPayout \<Rightarrow>
            if minPayout \<noteq> 0 then
              (case query e (\<lambda>d. Inr (sql_has_min_payout accountID minPayout d)) w of
                 (w, Inr True) \<Rightarrow> (w, None)
               | (w, _) \<Rightarrow> (w, Some \<lparr>psMinPayoutValue = Some minPayout, psPayoutInterval = None,
                   psNextPayoutDate = None, psCost = SetMinPayoutFee cfg\<rparr>))
            else (w, Some \<lparr>psMinPayoutValue = None, psPayoutInterval = None,
                psNextPayoutDate = None, psCost = SetMinPayoutFee cfg\<rparr>)))"

definition cached_setting :: "env \<Rightarrow> payout_setting \<Rightarrow> Miner \<Rightarrow> Miner" where
  "cached_setting e s m =
     (let detail = (case psMinPayoutValue s of
          Some v \<Rightarrow> FormatInt v
        | None \<Rightarrow> (case (psPayoutInterval s, psNextPayoutDate s) of
            (Some i, Some t) \<Rightarrow>
              if i = ''weekly'' \<or> i = ''daily'' then i @ ''|'' @ ev_time_text e t else PayoutDetail m
          | _ \<Rightarrow> PayoutDetail m))
      in m\<lparr>PayoutDetail := detail, mPending := i64 (mPending m - psCost s)\<rparr>)"

definition apply_setting :: "env \<Rightarrow> uint64 \<Rightarrow> payout_setting \<Rightarrow> world \<Rightarrow> world" where
  "apply_setting e accountID s w =
     (let d0 = db w; cost = psCost s in
      case begin_tx e w of
        (w, Some err) \<Rightarrow> w
      | (w, None) \<Rightarrow>
          (case query e (sql_enough accountID cost) w of
             (w, Inl err) \<Rightarrow> rollback d0 w
           | (w, Inr enoughFunds) \<Rightarrow>
               if \<not> enoughFunds then rollback d0 w
               else (case exec e (sql_set_min_payout (psMinPayoutValue s) (psPayoutInterval s)
                   (psNextPayoutDate s) cost accountID) w of
                 (w, Some err) \<Rightarrow> rollback d0 w
               | (w, None) \<Rightarrow>
                   (case exec e (sql_add_pending cost (FeeAccountID (ev_cfg e))) w of
                      (w, Some err) \<Rightarrow> rollback d0 w
                    | (w, None) \<Rightarrow>
                        (let w = fst (commit e d0 w) in
                         case GetMiner accountID (cc w) of
                           Some p \<Rightarrow> upd_cache (map_miner p (cached_setting e s)) w
                         | None \<Rightarrow> w)))))"

fun SetMinPayout :: "env \<Rightarrow> (uint64 \<times> string) list \<Rightarrow> world \<Rightarrow> world" where
  "SetMinPayout e [] w = w"
| "SetMinPayout e ((accountID, msg) # msgOf) w =
     (case payout_request e accountID msg w of
        (w, None) \<Rightarrow> SetMinPayout e msgOf w
      | (w, Some s) \<Rightarrow> SetMinPayout e msgOf (apply_setting e accountID s w))"

end
