(* ===== verification/Rewards.thy ===== *)
theory Rewards
  imports Payout
begin

text \<open>
  Rewards in \<^verbatim>\<open>modelx.go\<close>: the shares of the miners on a block, the division of a block reward into
  pool fee, winner's reward and shares, the verification of won blocks, and the daily cleaning of
  the database.
\<close>

section \<open>Shares\<close>

fun eeps_each :: "env \<Rightarrow> bool \<Rightarrow> (uint64 \<times> float64 \<times> nat) list \<Rightarrow> (uint64 \<times> float64) list \<Rightarrow> float64 \<Rightarrow> world \<Rightarrow>
    (world \<times> (uint64 \<times> float64) list \<times> float64) option" where
  "eeps_each e writeToDb [] eepsOf eepsSum w = Some (w, eepsOf, eepsSum)"
| "eeps_each e writeToDb ((minerID, weighted, nConf) # args) eepsOf eepsSum w =
     (let x = eeps (alphas (cc w)) nConf weighted in do {
        w \<leftarrow> (if writeToDb then mustExec e (sql_set_capacity (f_to_int 32 (fmul x (F 1000))) minerID) w
              else Some w);
        eeps_each e writeToDb args (AList.update minerID x eepsOf) (fadd eepsSum x) w })"

definition GetEEPSsOnBlock ::
  "env \<Rightarrow> uint64 \<Rightarrow> bool \<Rightarrow> world \<Rightarrow> (world \<times> (sql_error + (uint64 \<times> float64) list \<times> float64)) option" where
  "GetEEPSsOnBlock e height writeToDb w =
     (case query e (sql_eeps_args height (TMin (ev_cfg e)) (NAVG (ev_cfg e))) w of
        (w, Inl err) \<Rightarrow> Some (w, Inl err)
      | (w, Inr eepsArgs) \<Rightarrow> do {
          (w, eepsOf, eepsSum) \<leftarrow> eeps_each e writeToDb eepsArgs [] (F 0) w;
          Some (w, Inr (eepsOf, eepsSum)) })"

definition shares_of :: "(uint64 \<times> float64) list \<Rightarrow> float64 \<Rightarrow> (uint64 \<times> float64) list" where
  "shares_of eepsOf eepsSum =
     (if \<not> feq eepsSum (F 0) then map (\<lambda>(i, x). (i, fdiv x eepsSum)) eepsOf else [])"

definition GetSharesOnBlock ::
  "env \<Rightarrow> uint64 \<Rightarrow> world \<Rightarrow> (world \<times> (sql_error + (uint64 \<times> float64) list)) option" where
  "GetSharesOnBlock e height w = do {
     (w, r) \<leftarrow> GetEEPSsOnBlock e height True w;
     Some (case r of Inl err \<Rightarrow> (w, Inl err) | Inr (eepsOf, eepsSum) \<Rightarrow> (w, Inr (shares_of eepsOf eepsSum))) }"

section \<open>Dividing a reward\<close>

record split =
  spTotal :: int64
  spPoolFee :: int64
  spWinner :: int64
  spRest :: int64

text \<open>The first part of \<open>rewardBlock\<close>: total reward, pool fee, winner's reward and what is left to share.\<close>

definition split_reward :: "Config \<Rightarrow> GetBlockReply \<Rightarrow> split" where
  "split_reward cfg blockInfo =
     (let totalReward = i64 (i64 (gbBlockReward blockInfo * 100000000) + gbTotalFeeNQT blockInfo);
          poolFee = (if FeeAccountID cfg \<noteq> 0 then round_planck (fmul (f_of_int totalReward) (PoolFeeShare cfg)) else 0);
          reward = i64 (totalReward - poolFee);
          winnerReward = round_planck (fmul (f_of_int reward) (WinnerShare cfg))
      in \<lparr>spTotal = totalReward, spPoolFee = poolFee, spWinner = winnerReward, spRest = i64 (reward - winnerReward)\<rparr>)"

fun planck_shares :: "uint64 \<Rightarrow> split \<Rightarrow> (uint64 \<times> float64) list \<Rightarrow> (uint64 \<times> int64) list \<Rightarrow> (uint64 \<times> int64) list" where
  "planck_shares generator sp [] shareInPlanckOf = shareInPlanckOf"
| "planck_shares generator sp ((accountID, share) # shareOf) shareInPlanckOf =
     (let shareInPlanck = round_planck (fmul share (f_of_int (spRest sp)));
          shareInPlanck = (if accountID = generator then i64 (shareInPlanck + spWinner sp) else shareInPlanck)
      in planck_shares generator sp shareOf (AList.update accountID shareInPlanck shareInPlanckOf))"

definition planck_map :: "Config \<Rightarrow> GetBlockReply \<Rightarrow> (uint64 \<times> float64) list \<Rightarrow> (uint64 \<times> int64) list" where
  "planck_map cfg blockInfo shareOf =
     (let sp = split_reward cfg blockInfo in
      planck_shares (gbGenerator blockInfo) sp shareOf
        (if FeeAccountID cfg \<noteq> 0 then [(FeeAccountID cfg, spPoolFee sp)] else []))"

fun credit_each :: "env \<Rightarrow> (uint64 \<times> int64) list \<Rightarrow> world \<Rightarrow> world \<times> bool" where
  "credit_each e [] w = (w, True)"
| "credit_each e ((accountID, shareInPlanck) # m) w =
     (case exec e (sql_add_pending shareInPlanck accountID) w of
        (w, Some err) \<Rightarrow> (w, False) | (w, None) \<Rightarrow> credit_each e m w)"

definition credit_cached :: "(uint64 \<times> int64) list \<Rightarrow> cache \<Rightarrow> cache" where
  "credit_cached m c = fold (\<lambda>(i, x) c. case GetMiner i c of
      Some p \<Rightarrow> map_miner p (\<lambda>mi. mi\<lparr>mPending := i64 (mPending mi + x)\<rparr>) c | None \<Rightarrow> c) m c"

definition rewardBlock :: "env \<Rightarrow> GetBlockReply \<Rightarrow> world \<Rightarrow> world option" where
  "rewardBlock e blockInfo w = do {
     (w, r) \<leftarrow> GetSharesOnBlock e (gbHeight blockInfo) w;
     let shareInPlanckOf = planck_map (ev_cfg e) blockInfo (case r of Inl err \<Rightarrow> [] | Inr shareOf \<Rightarrow> shareOf);
     let d0 = db w;
     Some (case begin_tx e w of
         (w, Some err) \<Rightarrow> w
       | (w, None) \<Rightarrow>
           (case prepare e w of
              (w, Some err) \<Rightarrow> rollback d0 w
            | (w, None) \<Rightarrow>
                (case credit_each e shareInPlanckOf w of
                   (w, False) \<Rightarrow> rollback d0 w
                 | (w, True) \<Rightarrow>
                     (case exec e (sql_set_won (spTotal (split_reward (ev_cfg e) blockInfo))
                         (gbGenerator blockInfo) (gbHeight blockInfo)) w of
                        (w, Some err) \<Rightarrow> rollback d0 w
                      | (w, None) \<Rightarrow>
                          (case commit e d0 w of
                             (w, Some err) \<Rightarrow> w
                           | (w, None) \<Rightarrow> upd_cache (credit_cached shareInPlanckOf) w))))) }"

section \<open>Verifying won blocks\<close>

fun verify_each :: "env \<Rightarrow> BlockWonInfo list \<Rightarrow> world \<Rightarrow> world option" where
  "verify_each e [] w = Some w"
| "verify_each e (info # infos) w =
     (case ask e (\<lambda>h. hWonBlock h (wiHeight info) (wiMinerID info) (wiNonce info)) w of
        (w, Inl err) \<Rightarrow> verify_each e infos w
      | (w, Inr (wonBlock, blockInfo)) \<Rightarrow> do {
          w \<leftarrow> (if wonBlock then rewardBlock e blockInfo w
                else mustExec e (sql_set_verified (wiHeight info)) w);
          verify_each e infos w })"

definition RewardBlocks :: "env \<Rightarrow> world \<Rightarrow> world option" where
  "RewardBlocks e w =
     (let cfg = ev_cfg e;
          payoutDelay = time_now e w + i64 (i64 (- i64 (uint (PayoutDelay cfg))) * second);
          payoutHeightDelay = bHeight (CurrentBlock (cc w)) - BlockHeightPayoutDelay cfg
      in do {
        w \<leftarrow> mustExec e (sql_pick_best payoutHeightDelay payoutDelay) w;
        w \<leftarrow> mustExec e (sql_verify_empty payoutHeightDelay payoutDelay) w;
        (case query e (sql_won_infos payoutHeightDelay payoutDelay) w of
           (w, Inl err) \<Rightarrow> Some w
         | (w, Inr blockWonInfos) \<Rightarrow>
             (let w = (case blockWonInfos of
                 [] \<Rightarrow> w
               | info # _ \<Rightarrow>
                   (case ask e (\<lambda>h. hIncomingMsgsSince h (wiCreated info - 30 * second)) w of
                      (w, Inl err) \<Rightarrow> w
                    | (w, Inr msgOf) \<Rightarrow> SetMinPayout e msgOf w))
              in verify_each e blockWonInfos w)) })"

section \<open>Cleaning the database\<close>

definition CleanDB :: "env \<Rightarrow> world \<Rightarrow> world option" where
  "CleanDB e w =
     (let fee = FeeAccountID (ev_cfg e) in do {
        w \<leftarrow> mustExec e (sql_delete_blocks_below (bHeight (CurrentBlock (cc w)) - 5000)) w;
        w \<leftarrow> mustExec e sql_delete_idle_miners w;
        let d0 = db w;
        Some (case begin_tx e w of
            (w, Some err) \<Rightarrow> w
          | (w, None) \<Rightarrow>
              (case exec e (sql_transfer_pending fee) w of
                 (w, Some err) \<Rightarrow> rollback d0 w
               | (w, None) \<Rightarrow>
                   (case exec e (sql_delete_old_accounts fee) w of
                      (w, Some err) \<Rightarrow> rollback d0 w
                    | (w, None) \<Rightarrow> fst (commit e d0 w)))) })"

section \<open>Statistics\<close>

definition GetRecentlyWonBlocks :: "env \<Rightarrow> world \<Rightarrow> world \<times> WonBlock list" where
  "GetRecentlyWonBlocks e w = (case query e sql_recently_won w of
     (w, Inl err) \<Rightarrow> (w, []) | (w, Inr wonBlocks) \<Rightarrow> (w, wonBlocks))"

definition GetAVGNetDiff :: "env \<Rightarrow> nat \<Rightarrow> world \<Rightarrow> world \<times> float64" where
  "GetAVGNetDiff e n w = (case query e (sql_net_diff n) w of
     (w, Inl err) \<Rightarrow> (w, F 250000) | (w, Inr netDiff) \<Rightarrow> (w, netDiff))"

end
