(* ===== verification/RoundsProofs.thy ===== *)
theory RoundsProofs
  imports Rounds
begin

text \<open>
  Correctness of the mining rounds: every operation keeps the cache consistent, the current height
  never goes back, a submission only ever improves a deadline, and miners are created once.
\<close>

section \<open>Traversals of the miners\<close>

lemma MinerRange_inv:
  assumes "P s" "\<And>k p s. (k, p) \<in> set ms \<Longrightarrow> P s \<Longrightarrow> P (f k p s)"
  shows "P (MinerRange f ms s)"
  using assms unfolding MinerRange_def by (induction ms arbitrary: s) auto

lemma addDeadlineParams_sel [simp]:
  "mID (addDeadlineParams m) = mID m" "CurrentDeadlineParams (addDeadlineParams m) = CurrentDeadlineParams m"
  "mStore (addDeadlineParams m) = mStore m"
  by (auto simp: addDeadlineParams_def split: option.splits)

lemma removeDeadlineParams_sel [simp]:
  "mID (removeDeadlineParams h m) = mID m"
  "CurrentDeadlineParams (removeDeadlineParams h m) = CurrentDeadlineParams m"
  "mStore (removeDeadlineParams h m) = mStore m"
  by (auto simp: removeDeadlineParams_def split: option.splits)

lemma CurrentBlockHeight_cong:
  "CurrentDeadlineParams m' = CurrentDeadlineParams m \<Longrightarrow> mStore m' = mStore m \<Longrightarrow>
   CurrentBlockHeight m' = CurrentBlockHeight m"
  by (simp add: CurrentBlockHeight_def dp_at_def split: option.splits)

lemma better_mID [simp]:
  "mID (better_current d m) = mID m" "mID (better_confirmed r h d b m) = mID m"
  "mID (first_deadline h d b m) = mID m"
  by (auto simp: better_current_def better_confirmed_def first_deadline_def Let_def split: option.splits)

lemma roll_miner_inv:
  assumes "cache_inv cfg c"
  shows "cache_inv cfg (roll_miner e height removed key p c)"
proof -
  have "cache_inv cfg (map_miner p (\<lambda>_. m) c)" if "miner_wf m" "mID m = mID (miner_at c p)" for m
    using assms that by (intro map_miner_inv) (auto simp: miner_at_def)
  moreover have "p < length (heap c) \<Longrightarrow> miner_wf (miner_at c p)"
    using assms by (auto simp: cache_inv_def miners_wf_def miner_at_def)
  moreover have "map_miner p (\<lambda>_. m) c = c" if "\<not> p < length (heap c)" for m
    using that by (simp add: map_miner_def not_less list_update_beyond)
  ultimately show ?thesis
    using assms unfolding roll_miner_def Let_def miner_at_def
    by (cases "p < length (heap c)") (auto intro!: inv_intros)
qed

lemma roll_miner_sel [simp]:
  "currentBlock (roll_miner e h r k p c) = currentBlock c" "slowBlocks (roll_miner e h r k p c) = slowBlocks c"
  "fastBlocks (roll_miner e h r k p c) = fastBlocks c" "length (heap (roll_miner e h r k p c)) = length (heap c)"
  "bestNonceSubmission (roll_miner e h r k p c) = bestNonceSubmission c"
  by (simp_all add: roll_miner_def Let_def map_miner_def DeleteMiner_def)

lemma roll_miner_keeps_current:
  "CurrentDeadlineParams (miner_at (roll_miner e h r k p c) q) = CurrentDeadlineParams (miner_at c q) \<and>
   mStore (miner_at (roll_miner e h r k p c) q) = mStore (miner_at c q) \<and>
   mID (miner_at (roll_miner e h r k p c) q) = mID (miner_at c q)"
  by (cases "p < length (heap c)"; cases "p = q")
    (auto simp: roll_miner_def Let_def map_miner_def DeleteMiner_def miner_at_def nth_list_update
      not_less list_update_beyond)

section \<open>New blocks\<close>

lemma cacheRewardRecipients_sel [simp]:
  "db (cacheRewardRecipients e w) = db w"
  "currentBlock (cc (cacheRewardRecipients e w)) = currentBlock (cc w)"
  "heap (cc (cacheRewardRecipients e w)) = heap (cc w)" "miners (cc (cacheRewardRecipients e w)) = miners (cc w)"
  "bestNonceSubmission (cc (cacheRewardRecipients e w)) = bestNonceSubmission (cc w)"
  by (auto simp: cacheRewardRecipients_def ask_def query_def cache_simps split: option.splits sum.splits)

lemma cacheRewardRecipients_inv [inv_intros]: "cache_inv cfg (cc w) \<Longrightarrow> cache_inv cfg (cc (cacheRewardRecipients e w))"
  by (auto simp: cacheRewardRecipients_def ask_def query_def intro: inv_intros split: option.splits sum.splits)

lemma AddBlock_sel [simp]:
  "currentBlock (fst (AddBlock cfg h t c)) = currentBlock c" "heap (fst (AddBlock cfg h t c)) = heap c"
  "miners (fst (AddBlock cfg h t c)) = miners c"
  "bestNonceSubmission (fst (AddBlock cfg h t c)) = bestNonceSubmission c"
  by (simp_all add: AddBlock_def split: prod.splits)

lemma AddBlock_cases:
  assumes "AddBlock cfg h t c = (c', r)"
  shows "cache_inv cf c \<Longrightarrow> cache_inv cf c'" "currentBlock c' = currentBlock c" "heap c' = heap c" "miners c' = miners c"
    "bestNonceSubmission c' = bestNonceSubmission c"
  using assms AddBlock_inv [of cf c cfg h t] AddBlock_sel [of cfg h t c] by simp_all

definition keeps :: "Config \<Rightarrow> world \<Rightarrow> world \<Rightarrow> bool" where
  "keeps cfg w w' \<longleftrightarrow> (cache_inv cfg (cc w) \<longrightarrow> cache_inv cfg (cc w')) \<and>
     currentBlock (cc w') = currentBlock (cc w) \<and> heap (cc w') = heap (cc w) \<and> miners (cc w') = miners (cc w) \<and>
     bestNonceSubmission (cc w') = bestNonceSubmission (cc w)"

lemma keeps_cache:
  assumes "AddBlock cfg' h t (cc w) = (c, r)"
  shows "keeps cfg w (w'\<lparr>cc := c\<rparr>)"
  using AddBlock_cases [OF assms] by (simp add: keeps_def)

lemma add_old_block_keeps:
  assumes "add_old_block e h w = Some (w', gt, rm, nb)"
  shows "keeps cfg w w' \<and> nb = None"
proof -
  obtain t c r where A: "AddBlock (ev_cfg e) h t (cc w) = (c, r)"
    and t: "t = (case hGenerationTime (ev_wallet e (tick w)) h of Inl err \<Rightarrow> 4 * 60 | Inr t \<Rightarrow> t)"
    by (metis surj_pair)
  then have "w' = (next_tick w)\<lparr>cc := c\<rparr>" "nb = None"
    using assms by (simp_all add: add_old_block_def ask_def Let_def)
  then show ?thesis using keeps_cache [OF A] by blast
qed

lemma close_current_keeps:
  assumes "close_current e bt gs gsb h w = Some (w', gt, rm, nb)"
  shows "keeps cfg w w' \<and> (\<exists>b. nb = Some b \<and> bHeight b = h)"
proof (cases "hGenerationTime (ev_wallet e (tick w)) (bHeight (currentBlock (cc w)))")
  case (Inl err)
  then show ?thesis using assms
    by (auto simp: close_current_def ask_def keeps_def new_block_value_def CurrentBlock_def)
next
  case (Inr t)
  let ?cur = "bHeight (currentBlock (cc w))"
  obtain c r where A: "AddBlock (ev_cfg e) ?cur t (cc w) = (c, r)" by (metis surj_pair)
  obtain w1 where w1: "mustExec e (sql_set_generation_time t ?cur) (next_tick w) = Some w1"
    using assms Inr by (auto simp: close_current_def ask_def CurrentBlock_def bind_eq_Some_conv Let_def)
  then have "cc w1 = cc w" by (auto simp: mustExec_Some)
  then have "w' = w1\<lparr>cc := c\<rparr>" "\<exists>b. nb = Some b \<and> bHeight b = h"
    using assms Inr A w1 by (auto simp: close_current_def ask_def CurrentBlock_def new_block_value_def Let_def)
  then show ?thesis using keeps_cache [OF A] by blast
qed

definition rolled :: "env \<Rightarrow> uint64 \<Rightarrow> uint64 \<Rightarrow> world \<Rightarrow> world" where
  "rolled e h rm w = upd_cache (\<lambda>c. MinerRange (roll_miner e h rm) (miners c) c) w"

lemma rolled_sel:
  "currentBlock (cc (rolled e h rm w)) = currentBlock (cc w)" "db (rolled e h rm w) = db w"
  "length (heap (cc (rolled e h rm w))) = length (heap (cc w))"
  "bestNonceSubmission (cc (rolled e h rm w)) = bestNonceSubmission (cc w)"
proof -
  let ?P = "\<lambda>c c'. currentBlock c' = currentBlock c \<and> length (heap c') = length (heap c) \<and>
    bestNonceSubmission c' = bestNonceSubmission c"
  have "?P c (MinerRange (roll_miner e h rm) ms c)" for ms c
    by (rule MinerRange_inv [where P = "?P c"]) simp_all
  then show "currentBlock (cc (rolled e h rm w)) = currentBlock (cc w)"
    "length (heap (cc (rolled e h rm w))) = length (heap (cc w))"
    "bestNonceSubmission (cc (rolled e h rm w)) = bestNonceSubmission (cc w)" by (simp_all add: rolled_def)
qed (simp add: rolled_def)

lemma rolled_inv [inv_intros]: "cache_inv cfg (cc w) \<Longrightarrow> cache_inv cfg (cc (rolled e h rm w))"
  by (auto simp: rolled_def intro: MinerRange_inv roll_miner_inv)

definition same_current :: "Miner \<Rightarrow> Miner \<Rightarrow> bool" where
  "same_current m m' \<longleftrightarrow> CurrentDeadlineParams m' = CurrentDeadlineParams m \<and> mStore m' = mStore m \<and> mID m' = mID m"

lemma rolled_current: "same_current (miner_at (cc w) q) (miner_at (cc (rolled e h rm w)) q)"
proof -
  have "same_current (miner_at c q) (miner_at (MinerRange (roll_miner e h rm) ms c) q)" for ms c
    by (rule MinerRange_inv [where P = "\<lambda>c'. same_current (miner_at c q) (miner_at c' q)"])
      (simp_all add: same_current_def roll_miner_keeps_current)
  then show ?thesis by (simp add: rolled_def)
qed

definition finish_block :: "env \<Rightarrow> Block option \<Rightarrow> world \<Rightarrow> world \<times> model_error option" where
  "finish_block e nb w = (case nb of None \<Rightarrow> (w, None)
     | Some b \<Rightarrow> (upd_cache (StoreCurrentBlock (ev_cfg e) b) (cacheRewardRecipients e w), None))"

lemma newBlock_insert:
  assumes "\<not> snd (WasSlowBlock h (cc w))" "DecodeGeneratorSignature gs = Inr gsb"
    and "\<not> (bHeight (currentBlock (cc w)) \<noteq> 0 \<and> h < bHeight (currentBlock (cc w)) - of_int (NAVG (ev_cfg e)))"
  shows "newBlock e bt gs h w =
    (if bHeight (currentBlock (cc w)) < h then close_current e bt gs gsb h w else add_old_block e h w) \<bind>
    (\<lambda>(w1, gt, rm, nb). mustExec e (sql_insert_block h bt (ev_scoop e h gsb) gs (time_now e w1) gt) w1 \<bind>
      (\<lambda>w2. Some (finish_block e nb (rolled e h rm w2))))"
  by (simp only: newBlock_def CurrentBlock_def rolled_def finish_block_def Let_def assms if_False sum.case)

text \<open>The outcome of \<open>newBlock\<close> when it does not end the process.\<close>

lemma newBlock_cases:
  assumes "newBlock e bt gs h w = Some (w', err)"
  obtains (skip) "w' = w"
    | (old) w1 rm d where "keeps cfg w w1" "h \<le> bHeight (currentBlock (cc w))"
        "w' = rolled e h rm ((next_tick w1)\<lparr>db := d\<rparr>)" "err = None"
    | (new) w1 rm d b where "keeps cfg w w1" "bHeight (currentBlock (cc w)) < h" "bHeight b = h"
        "w' = upd_cache (StoreCurrentBlock (ev_cfg e) b) (cacheRewardRecipients e (rolled e h rm ((next_tick w1)\<lparr>db := d\<rparr>)))"
        "err = None"
proof (cases "w' = w")
  case False
  let ?cur = "bHeight (currentBlock (cc w))"
  obtain gsb where gsb: "DecodeGeneratorSignature gs = Inr gsb"
    using assms False by (auto simp: newBlock_def Let_def split: if_splits sum.splits)
  have "\<not> snd (WasSlowBlock h (cc w))" "\<not> (?cur \<noteq> 0 \<and> h < ?cur - of_int (NAVG (ev_cfg e)))"
    using assms False by (auto simp: newBlock_def Let_def CurrentBlock_def split: if_splits)
  from trans [OF sym [OF newBlock_insert [OF this(1) gsb this(2), of bt]] assms]
  obtain w1 gt rm nb w2 where w1: "(if ?cur < h then close_current e bt gs gsb h w else add_old_block e h w) = Some (w1, gt, rm, nb)"
    and d: "mustExec e (sql_insert_block h bt (ev_scoop e h gsb) gs (time_now e w1) gt) w1 = Some w2"
    and rest: "finish_block e nb (rolled e h rm w2) = (w', err)"
    by (auto simp: bind_eq_Some_conv)
  obtain d where d: "w2 = (next_tick w1)\<lparr>db := d\<rparr>"
    using d by (auto simp: mustExec_Some)
  show ?thesis
  proof (cases "?cur < h")
    case True
    then obtain b where "keeps cfg w w1" "nb = Some b" "bHeight b = h"
      using w1 close_current_keeps [of e bt gs gsb h w w1 gt rm nb cfg] by auto
    then show ?thesis using new [of w1 b rm d] True rest d by (simp add: finish_block_def)
  next
    case False
    then have "keeps cfg w w1" "nb = None"
      using w1 add_old_block_keeps [of e h w w1 gt rm nb cfg] by auto
    then show ?thesis using old [of w1 rm d] False rest d by (simp add: finish_block_def)
  qed
qed (rule skip)

lemma switchBlock_no_effect:
  "db (fst (switchBlock e bt gs h w)) = db w" "cc (fst (switchBlock e bt gs h w)) = cc w"
  by (auto simp: switchBlock_def exec_def Let_def sql_switch_block_fails split: sum.splits)

lemma newBlock_inv:
  assumes "newBlock e bt gs h w = Some (w', err)" "cache_inv (ev_cfg e) (cc w)"
  shows "cache_inv (ev_cfg e) (cc w') \<and> bestNonceSubmission (cc w') = bestNonceSubmission (cc w) \<and>
    (currentBlock (cc w') = currentBlock (cc w) \<or>
     bHeight (currentBlock (cc w)) < h \<and> bHeight (currentBlock (cc w')) = h)"
  using assms(1)
proof (cases rule: newBlock_cases [where cfg = "ev_cfg e"])
  case skip
  then show ?thesis using assms(2) by simp
next
  case (old w1 rm d)
  then show ?thesis using assms(2) by (auto simp: keeps_def rolled_sel intro: inv_intros)
next
  case (new w1 rm d b)
  then show ?thesis using assms(2)
    by (auto simp: keeps_def rolled_sel cache_simps intro!: inv_intros StoreCurrentBlock_inv
        [unfolded cache_simps] rolled_inv)
qed

lemma MaybeSwitch_inv:
  assumes "MaybeSwitchOrNewBlock e bt gs h w = Some w'" and "cache_inv (ev_cfg e) (cc w)"
  shows "cache_inv (ev_cfg e) (cc w') \<and> bestNonceSubmission (cc w') = bestNonceSubmission (cc w) \<and>
    (currentBlock (cc w') = currentBlock (cc w) \<or>
     bHeight (currentBlock (cc w)) < h \<and> bHeight (currentBlock (cc w')) = h)"
  using assms newBlock_inv [of e bt gs h w]
  by (auto simp: MaybeSwitchOrNewBlock_def Let_def switchBlock_no_effect split: if_splits option.splits)


lemma zeros_decode: "DecodeGeneratorSignature (replicate 64 CHR ''0'') = Inr (replicate 32 0)"
  by (simp add: DecodeGeneratorSignature_def fromHexChar_def numeral_eq_Suc)

lemma sample_new_block:
  "\<exists>w'. MaybeSwitchOrNewBlock sample_env 70000 (replicate 64 CHR ''0'') 100001 sample_world = Some w'"
proof -
  let ?gs = "replicate 64 CHR ''0''"
  have cur: "currentBlock (cc sample_world) = sample_current"
    by (simp add: sample_world_def cache_simps)
  have known: "\<not> snd (WasSlowBlock 100001 (cc sample_world))"
    by (simp add: sample_world_def cache_simps sample_cache_def WasSlowBlock_def exists_height_def)
  have old: "\<not> (bHeight sample_current \<noteq> 0 \<and> 100001 < bHeight sample_current - of_int (NAVG (ev_cfg sample_env)))"
    by (simp add: sample_current_def sample_env_def with_defaults_def example_config_def)
  have h: "bHeight sample_current = 100000" by (simp add: sample_current_def)
  have q: "ask sample_env (\<lambda>h. hGenerationTime h 100000) sample_world = (next_tick sample_world, Inr 240)"
    by (simp add: ask_def sample_env_def sample_handler_def)
  obtain w0 where w0: "mustExec sample_env (sql_set_generation_time 240 100000) (next_tick sample_world) = Some w0"
      "kHeight ` set (block (db w0)) = {100000}"
    by (simp add: mustExec_Some sql_set_generation_time_def sample_env_def)
      (simp add: sample_world_def sample_db_def upd_where_def)
  obtain c r where A: "AddBlock (ev_cfg sample_env) 100000 240 (cc w0) = (c, r)" by (metis surj_pair)
  define w1 where "w1 = w0\<lparr>cc := c\<rparr>"
  obtain nb where w1: "close_current sample_env 70000 ?gs (replicate 32 0) 100001 sample_world = Some (w1, 240, r, nb)"
      "kHeight ` set (block (db w1)) = {100000}"
    using w0 A by (simp add: close_current_def q cur h CurrentBlock_def Let_def w1_def)
  have "\<exists>w2. mustExec sample_env (sql_insert_block 100001 70000 s ?gs t g) w1 = Some w2" for s t g
    by (simp add: mustExec_Some sql_insert_block_def has_block_def w1(2)) (simp add: sample_env_def)
  then obtain w2 where "mustExec sample_env (sql_insert_block 100001 70000 (ev_scoop sample_env 100001 (replicate 32 0))
      ?gs (time_now sample_env w1) 240) w1 = Some w2" by blast
  moreover obtain w' err where "finish_block sample_env nb (rolled sample_env 100001 r w2) = (w', err)" by (metis surj_pair)
  ultimately have "\<exists>w' err. newBlock sample_env 70000 ?gs 100001 sample_world = Some (w', err)"
    using newBlock_insert [of 100001 sample_world ?gs "replicate 32 0" sample_env 70000] known zeros_decode old w1(1)
    by (auto simp: cur h bind_eq_Some_conv)
  then show ?thesis by (auto simp: MaybeSwitchOrNewBlock_def CurrentBlock_def cur h)
qed


text \<open>
  The age check subtracts in unsigned arithmetic: below the averaging window it wraps around, and
  every announced block of such a height is refused as too old.
\<close>

lemma early_blocks_are_refused:
  assumes "DecodeGeneratorSignature gs = Inr gsb" "\<not> snd (WasSlowBlock h (cc w))"
    and "0 < bHeight (CurrentBlock (cc w))" "uint (bHeight (CurrentBlock (cc w))) < NAVG (ev_cfg e)"
    and "NAVG (ev_cfg e) < 2 ^ 31" "uint h < 2 ^ 63"
  shows "newBlock e bt gs h w = Some (w, Some (Msg ''bock too old''))"
proof -
  let ?c = "bHeight (CurrentBlock (cc w))" and ?n = "of_int (NAVG (ev_cfg e)) :: uint64"
  have "0 \<le> NAVG (ev_cfg e)" using assms(4) uint_ge_0 [of ?c] by linarith
  then have n: "uint ?n = NAVG (ev_cfg e)"
    using assms(5) by (simp add: uint_word_of_int)
  have "uint (?c - ?n) = 2 ^ 64 + uint ?c - uint ?n"
    using assms(4) n by (simp add: uint_sub_if')
  moreover have "(2 :: int) ^ 31 + 2 ^ 63 \<le> 2 ^ 64" by simp
  ultimately have "uint h < uint (?c - ?n)" using n assms(5,6) uint_ge_0 [of ?c] by linarith
  then have "h < ?c - ?n" by (simp add: word_less_def)
  then show ?thesis using assms by (simp add: newBlock_def Let_def word_neq_0_conv)
qed

text \<open>
  A fork is never taken over: when another block of the current height is announced, the update
  statement names a column that does not exist, so \<open>switchBlock\<close> returns an error and neither the
  database nor the cache changes.
\<close>

theorem fork_is_not_taken_over:
  assumes "bHeight (CurrentBlock (cc w)) = h" and "bGenerationSignature (CurrentBlock (cc w)) \<noteq> gs"
  shows "\<exists>w'. MaybeSwitchOrNewBlock e bt gs h w = Some w' \<and> db w' = db w \<and> cc w' = cc w \<and>
    snd (switchBlock e bt gs h w) \<noteq> None"
  using assms switchBlock_no_effect [of e bt gs h w]
  by (auto simp: MaybeSwitchOrNewBlock_def switchBlock_def exec_def Let_def sql_switch_block_fails split: sum.splits)

theorem fork_is_not_taken_over_witness:
  "\<exists>w'. MaybeSwitchOrNewBlock sample_env 70000 (replicate 64 CHR ''1'') 100000 sample_world = Some w' \<and>
     cc w' = cc sample_world"
proof -
  have "bHeight (CurrentBlock (cc sample_world)) = 100000"
    "bGenerationSignature (CurrentBlock (cc sample_world)) \<noteq> replicate 64 CHR ''1''"
    by (simp_all add: sample_world_def CurrentBlock_def cache_simps sample_current_def)
  from fork_is_not_taken_over [OF this, of sample_env 70000] show ?thesis by blast
qed

section \<open>Submissions\<close>

text \<open>The deadline that the cache holds for a miner and a height.\<close>

definition deadline_on :: "uint64 \<Rightarrow> Miner \<Rightarrow> uint64 option" where
  "deadline_on h m = (if CurrentDeadlineParams m \<noteq> None \<and> CurrentBlockHeight m = h then Some (CurrentDeadline m)
     else map_option (\<lambda>r. dpDeadline (dp_at m r)) (map_of (DeadlinesParams m) h))"

lemma deadline_on_better_current:
  assumes "CurrentDeadlineParams m = Some r" "r < length (mStore m)" "CurrentBlockHeight m = h"
  shows "deadline_on h (better_current d m) = Some d"
  using assms by (simp add: deadline_on_def better_current_def CurrentBlockHeight_def CurrentDeadline_def dp_at_def)

lemma deadline_on_better_confirmed:
  assumes "map_of (DeadlinesParams m) h = Some r" "r < length (mStore m)" "CurrentBlockHeight m \<noteq> h"
    "CurrentDeadlineParams m \<noteq> Some r"
  shows "deadline_on h (better_confirmed r h d b m) = Some d"
  using assms by (auto simp: deadline_on_def better_confirmed_def CurrentBlockHeight_def dp_at_def nth_list_update)

lemma deadline_on_first:
  assumes "\<forall>r \<in> set_option (CurrentDeadlineParams m). r < length (mStore m)" "CurrentBlockHeight m \<noteq> h"
  shows "deadline_on h (first_deadline h d b m) = Some d"
  using assms
  by (auto simp: deadline_on_def first_deadline_def Let_def CurrentBlockHeight_def CurrentDeadline_def
      dp_at_def nth_append update_conv' split: option.splits)

lemma MaybeSwitch_miner:
  assumes "MaybeSwitchOrNewBlock e bt gs h w = Some w'"
  shows "same_current (miner_at (cc w) q) (miner_at (cc w') q) \<and> length (heap (cc w')) = length (heap (cc w))"
proof -
  have nb: "same_current (miner_at (cc w) q) (miner_at (cc w') q) \<and> length (heap (cc w')) = length (heap (cc w))"
    if "newBlock e bt gs h w = Some (w', err)" for err
    using that
  proof (cases rule: newBlock_cases [where cfg = "ev_cfg e"])
    case (old w1 rm d)
    have "heap (cc ((next_tick w1)\<lparr>db := d\<rparr>)) = heap (cc w)" using old by (simp add: keeps_def)
    then show ?thesis using rolled_current [of "(next_tick w1)\<lparr>db := d\<rparr>" q e h rm] old
      by (simp add: rolled_sel miner_at_def)
  next
    case (new w1 rm d b)
    have "heap (cc ((next_tick w1)\<lparr>db := d\<rparr>)) = heap (cc w)" using new by (simp add: keeps_def)
    then show ?thesis using rolled_current [of "(next_tick w1)\<lparr>db := d\<rparr>" q e h rm] new
      by (simp add: rolled_sel miner_at_def cache_simps)
  qed (simp add: same_current_def)
  show ?thesis using assms nb
    by (auto simp: MaybeSwitchOrNewBlock_def Let_def switchBlock_no_effect same_current_def
        split: if_splits option.splits prod.splits)
qed

lemma map_miner_at [simp]:
  "p < length (heap c) \<Longrightarrow> miner_at (map_miner p f c) p = f (miner_at c p)"
  by (simp add: miner_at_def map_miner_def)

text \<open>The three branches of a submission.\<close>

lemma submission_current:
  assumes "CurrentBlockHeight (miner_at (cc w) p) = h"
  shows "UpdateOrCreateNonceSubmission e p h d n bt gs w =
    (if CurrentDeadline (miner_at (cc w) p) \<le> d then Some (w, None)
     else (case exec e (sql_update_submission d n (mID (miner_at (cc w) p)) h) w of
        (w', Some err) \<Rightarrow> Some (w', Some (Sql err))
      | (w', None) \<Rightarrow> if CurrentDeadlineParams (miner_at (cc w) p) = None then None
          else Some (upd_cache (map_miner p (better_current d)) w', None)))"
  using assms by (simp add: UpdateOrCreateNonceSubmission_def Let_def)

lemma submission_known:
  assumes "CurrentBlockHeight (miner_at (cc w) p) \<noteq> h" "map_of (DeadlinesParams (miner_at (cc w) p)) h = Some r"
  shows "UpdateOrCreateNonceSubmission e p h d n bt gs w =
    (if dpDeadline (dp_at (miner_at (cc w) p) r) \<le> d then Some (w, None)
     else (case exec e (sql_update_submission d n (mID (miner_at (cc w) p)) h) w of
        (w', Some err) \<Rightarrow> Some (w', Some (Sql err))
      | (w', None) \<Rightarrow> Some (upd_cache (map_miner p (better_confirmed r h d bt)) w', None)))"
  using assms by (simp add: UpdateOrCreateNonceSubmission_def Let_def WasSlowBlock_def)

lemma submission_first:
  assumes "CurrentBlockHeight (miner_at (cc w) p) \<noteq> h" "map_of (DeadlinesParams (miner_at (cc w) p)) h = None"
  shows "UpdateOrCreateNonceSubmission e p h d n bt gs w =
    (if \<not> fst (WasSlowBlock h (cc w)) then MaybeSwitchOrNewBlock e bt gs h w else Some w) \<bind>
    (\<lambda>w1. Some (case exec e (sql_insert_submission (mID (miner_at (cc w) p)) h d n) w1 of
        (w', Some err) \<Rightarrow> (w', Some (Sql err))
      | (w', None) \<Rightarrow> (upd_cache (map_miner p (first_deadline h d bt)) w', None)))"
  using assms by (simp add: UpdateOrCreateNonceSubmission_def Let_def WasSlowBlock_def)

lemma submission_min_current:
  assumes run: "UpdateOrCreateNonceSubmission e p h d n bt gs w = Some (w', None)"
    and p: "p < length (heap (cc w))" and wf: "miner_wf (miner_at (cc w) p)" and h: "h \<noteq> 0"
    and current: "CurrentBlockHeight (miner_at (cc w) p) = h"
  shows "deadline_on h (miner_at (cc w') p) = Some (case deadline_on h (miner_at (cc w) p) of
      None \<Rightarrow> d | Some d0 \<Rightarrow> min d d0)"
proof -
  let ?m = "miner_at (cc w) p"
  obtain r where r: "CurrentDeadlineParams ?m = Some r" "r < length (mStore ?m)"
    using h current wf by (auto simp: CurrentBlockHeight_def miner_wf_def split: option.splits)
  have old: "deadline_on h ?m = Some (CurrentDeadline ?m)" using current r by (simp add: deadline_on_def)
  note run = trans [OF submission_current [OF current, symmetric] run]
  obtain w1 er where x: "exec e (sql_update_submission d n (mID ?m) h) w = (w1, er)" by (metis surj_pair)
  show ?thesis
  proof (cases "CurrentDeadline ?m \<le> d")
    case True
    then show ?thesis using run old by (simp add: min_def)
  next
    case False
    then have "w' = upd_cache (map_miner p (better_current d)) w1" "cc w1 = cc w"
      using run r x exec_cc [OF x] by (cases er; simp)+
    then show ?thesis using False old p deadline_on_better_current [OF r current, of d]
      by (simp add: min_absorb1 not_le less_imp_le)
  qed
qed

lemma submission_min_known:
  assumes run: "UpdateOrCreateNonceSubmission e p h d n bt gs w = Some (w', None)"
    and p: "p < length (heap (cc w))" and wf: "miner_wf (miner_at (cc w) p)"
    and known: "CurrentBlockHeight (miner_at (cc w) p) \<noteq> h" "map_of (DeadlinesParams (miner_at (cc w) p)) h = Some r"
  shows "deadline_on h (miner_at (cc w') p) = Some (case deadline_on h (miner_at (cc w) p) of
      None \<Rightarrow> d | Some d0 \<Rightarrow> min d d0)"
proof -
  let ?m = "miner_at (cc w) p"
  have "(h, r) \<in> set (DeadlinesParams ?m)" using known(2) by (rule map_of_SomeD)
  then have r: "r < length (mStore ?m)" "dpHeight (dp_at ?m r) = h"
    using wf by (auto simp: miner_wf_def dp_at_def)
  have ne: "CurrentDeadlineParams ?m \<noteq> Some r" using known(1) r(2) by (auto simp: CurrentBlockHeight_def)
  have old: "deadline_on h ?m = Some (dpDeadline (dp_at ?m r))" using known by (simp add: deadline_on_def)
  note run = trans [OF submission_known [OF known, symmetric] run]
  obtain w1 er where x: "exec e (sql_update_submission d n (mID ?m) h) w = (w1, er)" by (metis surj_pair)
  show ?thesis
  proof (cases "dpDeadline (dp_at ?m r) \<le> d")
    case True
    then show ?thesis using run old by (simp add: min_def)
  next
    case False
    then have "w' = upd_cache (map_miner p (better_confirmed r h d bt)) w1" "cc w1 = cc w"
      using run x exec_cc [OF x] by (cases er; simp)+
    then show ?thesis using False old p deadline_on_better_confirmed [OF known(2) r(1) known(1) ne, of d bt]
      by (simp add: min_absorb1 not_le less_imp_le)
  qed
qed

lemma submission_min_first:
  assumes run: "UpdateOrCreateNonceSubmission e p h d n bt gs w = Some (w', None)"
    and p: "p < length (heap (cc w))" and wf: "miner_wf (miner_at (cc w) p)"
    and first: "CurrentBlockHeight (miner_at (cc w) p) \<noteq> h" "map_of (DeadlinesParams (miner_at (cc w) p)) h = None"
  shows "deadline_on h (miner_at (cc w') p) = Some (case deadline_on h (miner_at (cc w) p) of
      None \<Rightarrow> d | Some d0 \<Rightarrow> min d d0)"
proof -
  let ?m = "miner_at (cc w) p"
  have cur: "\<forall>r \<in> set_option (CurrentDeadlineParams ?m). r < length (mStore ?m)" using wf by (simp add: miner_wf_def)
  have old: "deadline_on h ?m = None" using first by (simp add: deadline_on_def)
  obtain w1 where w1: "(if \<not> fst (WasSlowBlock h (cc w)) then MaybeSwitchOrNewBlock e bt gs h w else Some w) = Some w1"
    "(case exec e (sql_insert_submission (mID ?m) h d n) w1 of (w, Some er) \<Rightarrow> (w, Some (Sql er))
      | (w, None) \<Rightarrow> (upd_cache (map_miner p (first_deadline h d bt)) w, None)) = (w', None)"
    using run submission_first [OF first, of e d n bt gs] by (auto simp: bind_eq_Some_conv)
  have m1: "same_current ?m (miner_at (cc w1) p)" "length (heap (cc w1)) = length (heap (cc w))"
    using w1(1) MaybeSwitch_miner [of e bt gs h w w1 p] by (auto simp: same_current_def split: if_splits)
  have sc: "CurrentDeadlineParams (miner_at (cc w1) p) = CurrentDeadlineParams ?m"
    "mStore (miner_at (cc w1) p) = mStore ?m" using m1(1) by (simp_all add: same_current_def)
  have "CurrentBlockHeight (miner_at (cc w1) p) \<noteq> h"
    "\<forall>r \<in> set_option (CurrentDeadlineParams (miner_at (cc w1) p)). r < length (mStore (miner_at (cc w1) p))"
    using first(1) cur CurrentBlockHeight_cong [OF sc] sc by simp_all
  note fd = deadline_on_first [OF this(2,1), of d bt]
  obtain w2 er where x: "exec e (sql_insert_submission (mID ?m) h d n) w1 = (w2, er)" by (metis surj_pair)
  have "w' = upd_cache (map_miner p (first_deadline h d bt)) w2" "cc w2 = cc w1"
    using w1(2) x exec_cc [OF x] by (cases er; simp)+
  then show ?thesis using fd m1(2) p old by simp
qed

lemma submission_minimum:
  assumes "UpdateOrCreateNonceSubmission e p h d n bt gs w = Some (w', None)"
    and "p < length (heap (cc w))" and "miner_wf (miner_at (cc w) p)" and "h \<noteq> 0"
  shows "deadline_on h (miner_at (cc w') p) = Some (case deadline_on h (miner_at (cc w) p) of
      None \<Rightarrow> d | Some d0 \<Rightarrow> min d d0)"
proof (cases "CurrentBlockHeight (miner_at (cc w) p) = h")
  case False
  then show ?thesis
    using submission_min_known [OF assms(1-3)] submission_min_first [OF assms(1-3)]
    by (cases "map_of (DeadlinesParams (miner_at (cc w) p)) h") simp_all
qed (use submission_min_current [OF assms] in simp)

text \<open>C14.
  The cached best deadline of a miner on a block is a running minimum. When a submission returns
  without an error, the cache afterwards holds for this miner and this height the better one of
  the submitted deadline and the one it held before. Only the height 0 is left out, which stands
  for "has not submitted anything".
\<close>

theorem submission_keeps_minimum:
  assumes "UpdateOrCreateNonceSubmission e p h d n bt gs w = Some (w', err)"
    and "p < length (heap (cc w))" and "miner_wf (miner_at (cc w) p)" and "h \<noteq> 0"
    and "err = None"
  shows "deadline_on h (miner_at (cc w') p) = Some (case deadline_on h (miner_at (cc w) p) of
      None \<Rightarrow> d | Some d0 \<Rightarrow> min d d0)"
  using assms by (simp add: submission_minimum)

lemma sample_miner_at: "miner_at (cc sample_world) 0 = sample_miner" "length (heap (cc sample_world)) = 1"
  by (simp_all add: sample_world_def cache_simps miner_at_def)

lemma sample_submission:
  "\<exists>w'. UpdateOrCreateNonceSubmission sample_env 0 100000 5000 42 70312 (replicate 64 CHR ''0'') sample_world = Some (w', None)"
proof -
  have m: "CurrentBlockHeight sample_miner \<noteq> 100000" "map_of (DeadlinesParams sample_miner) 100000 = None"
    by (simp_all add: sample_miner_def newMiner_def CurrentBlockHeight_def)
  have cur: "currentBlock (cc sample_world) = sample_current"
    by (simp add: sample_world_def cache_simps)
  have "MaybeSwitchOrNewBlock sample_env 70312 (replicate 64 CHR ''0'') 100000 sample_world = Some sample_world"
    by (simp add: MaybeSwitchOrNewBlock_def CurrentBlock_def cur sample_current_def)
  moreover have "\<not> fst (WasSlowBlock 100000 (cc sample_world))"
    by (simp add: sample_world_def cache_simps sample_cache_def WasSlowBlock_def exists_height_def)
  moreover have "\<exists>w'. exec sample_env (sql_insert_submission (mID sample_miner) 100000 5000 42) sample_world = (w', None)"
    by (simp add: exec_def sql_insert_submission_def sample_env_def sample_world_def sample_db_def
        has_account_def has_block_def sample_miner_def newMiner_def)
  ultimately show ?thesis
    using submission_first [of sample_world 0 100000] m by (auto simp: sample_miner_at)
qed

theorem submission_keeps_minimum_witness:
  "\<exists>w'. UpdateOrCreateNonceSubmission sample_env 0 100000 5000 42 70312 (replicate 64 CHR ''0'') sample_world = Some (w', None) \<and>
     deadline_on 100000 (miner_at (cc w') 0) = Some 5000"
proof -
  obtain w' where w': "UpdateOrCreateNonceSubmission sample_env 0 100000 5000 42 70312 (replicate 64 CHR ''0'') sample_world = Some (w', None)"
    using sample_submission by blast
  have "deadline_on 100000 sample_miner = None" by (simp add: deadline_on_def sample_miner_def newMiner_def)
  then show ?thesis
    using submission_keeps_minimum [OF w'] w' sample_miner_exact by (simp add: sample_miner_at)
qed

section \<open>Miners\<close>

lemma Encode_total: "\<exists>s. Encode n = Some s"
  using Encode_correct [of n] by blast

lemma createMiner_total: "\<exists>w' r. createMiner e i w = Some (w', r)"
  using Encode_total [of i] by (auto simp: createMiner_def Let_def split: prod.splits)

lemma createMiner_cc: "createMiner e i w = Some (w', r) \<Longrightarrow> cc w' = cc w"
  using Encode_total [of i]
  by (auto simp: createMiner_def Let_def ask_def begin_tx_def dest!: exec_cc split: if_splits prod.splits option.splits
      elim!: commit_cases)

lemma createMiner_ID: "createMiner e i w = Some (w', Inr m) \<Longrightarrow> mID m = i \<and> miner_wf m"
  using Encode_total [of i]
  by (auto simp: createMiner_def Let_def newMiner_wf split: if_splits prod.splits option.splits)
    (simp_all add: newMiner_def)

lemma getMinerFromDB_ID: "getMinerFromDB e i w = (w', Some m) \<Longrightarrow> mID m = i \<and> miner_wf m"
  by (auto simp: getMinerFromDB_def query_def sql_select_account_def newMiner_wf find_Some_iff
      split: if_splits option.splits sum.splits) (simp_all add: newMiner_def)

lemma getMinerFromDB_cc: "getMinerFromDB e i w = (w', m) \<Longrightarrow> cc w' = cc w"
  by (auto simp: getMinerFromDB_def query_def split: if_splits option.splits sum.splits)

lemma store_new_miner:
  assumes "cache_inv cfg c" "GetMiner i c = None" "mID m = i" "miner_wf m"
    and "new_miner_object m c = (p, c1)" "LoadOrStoreMiner p c1 = (q, c2)"
  shows "cache_inv cfg c2 \<and> GetMiner i c2 = Some q \<and> mID (miner_at c2 q) = i \<and>
    (\<forall>r < length (heap c). miner_at c2 r = miner_at c r) \<and>
    currentBlock c2 = currentBlock c \<and> bestNonceSubmission c2 = bestNonceSubmission c"
proof -
  have c1: "c1 = c\<lparr>heap := heap c @ [m]\<rparr>" "p = length (heap c)"
    using assms(5) by (simp_all add: new_miner_object_def)
  have i1: "cache_inv cfg c1" using new_miner_object_inv [OF assms(1,4)] assms(5) by simp
  have key: "mID (miner_at c1 p) = i" using assms(3) by (simp add: c1 miner_at_def)
  then have "GetMiner (mID (miner_at c1 p)) c1 = None" using assms(2) by (simp add: c1 GetMiner_def)
  from mm.store_absent [OF this] have q: "q = p" using assms(6) by simp
  have "cache_inv cfg c2" using LoadOrStoreMiner_inv [OF i1, of p] assms(6) c1 by simp
  moreover have "GetMiner i c2 = Some q" using mm.get_after_store [of c1 p] key assms(6) by simp
  moreover have "heap c2 = heap c1" using assms(6) by (auto simp: LoadOrStoreMiner_def split: option.splits)
  moreover have "currentBlock c2 = currentBlock c \<and> bestNonceSubmission c2 = bestNonceSubmission c"
    using assms(6) by (auto simp: LoadOrStoreMiner_def c1 split: option.splits)
  ultimately show ?thesis using key q by (auto simp: miner_at_def c1 nth_append)
qed

lemma FirstOrCreateMiner_spec:
  assumes "cache_inv cfg (cc w)"
  shows "\<exists>w' r. FirstOrCreateMiner e i w = Some (w', r) \<and> cache_inv cfg (cc w') \<and>
    (\<forall>p. r = Some p \<longrightarrow> GetMiner i (cc w') = Some p \<and> mID (miner_at (cc w') p) = i) \<and>
    (\<forall>q < length (heap (cc w)). miner_at (cc w') q = miner_at (cc w) q) \<and>
    currentBlock (cc w') = currentBlock (cc w) \<and> bestNonceSubmission (cc w') = bestNonceSubmission (cc w)"
proof (cases "GetMiner i (cc w)")
  case (Some p)
  then have "mID (miner_at (cc w) p) = i"
    using assms by (auto simp: GetMiner_def cache_inv_def miners_wf_def miner_at_def dest: map_of_SomeD)
  then show ?thesis using Some assms by (simp add: FirstOrCreateMiner_def)
next
  case None
  have found: "\<exists>w' r. Some (case m of None \<Rightarrow> (w1, None) | Some m \<Rightarrow>
        (let (p, c) = new_miner_object m (cc w1); (q, c) = LoadOrStoreMiner p c in (w1\<lparr>cc := c\<rparr>, Some q))) = Some (w', r) \<and>
      cache_inv cfg (cc w') \<and>
      (\<forall>p. r = Some p \<longrightarrow> GetMiner i (cc w') = Some p \<and> mID (miner_at (cc w') p) = i) \<and>
      (\<forall>q < length (heap (cc w)). miner_at (cc w') q = miner_at (cc w) q) \<and>
    currentBlock (cc w') = currentBlock (cc w) \<and> bestNonceSubmission (cc w') = bestNonceSubmission (cc w)"
    if "cc w1 = cc w" "\<forall>m' \<in> set_option m. mID m' = i \<and> miner_wf m'" for m and w1 :: world
  proof (cases m)
    case (Some m')
    obtain p c1 where p: "new_miner_object m' (cc w) = (p, c1)" by (metis surj_pair)
    obtain q c2 where q: "LoadOrStoreMiner p c1 = (q, c2)" by (metis surj_pair)
    show ?thesis using store_new_miner [OF assms None _ _ p q] that Some p q by simp
  qed (use that assms in simp)
  obtain w1 m where g: "getMinerFromDB e i w = (w1, m)" by (metis surj_pair)
  show ?thesis
  proof (cases m)
    case (Some m')
    then show ?thesis using found [of w1 "Some m'"] g None getMinerFromDB_ID getMinerFromDB_cc [OF g]
      by (simp add: FirstOrCreateMiner_def)
  next
    case m: None
    obtain w2 r where c: "createMiner e i w1 = Some (w2, r)" using createMiner_total by blast
    have cc: "cc w2 = cc w" using createMiner_cc [OF c] getMinerFromDB_cc [OF g] by simp
    show ?thesis
    proof (cases r)
      case (Inl err)
      then show ?thesis using found [OF cc, of None] g m c None by (simp add: FirstOrCreateMiner_def)
    next
      case (Inr m')
      then show ?thesis using found [OF cc, of "Some m'"] g m c None createMiner_ID [of e i w1 w2 m']
        by (simp add: FirstOrCreateMiner_def)
    qed
  qed
qed

text \<open>C29.
  \<open>FirstOrCreateMiner\<close> never ends the process, keeps the cache consistent and leaves all other
  miner objects alone; the object it returns is the one that the map holds for this account, so
  all later requests of the account work on the same object.
\<close>

theorem FirstOrCreateMiner_ok:
  assumes "cache_inv cfg (cc w)"
  shows "\<exists>w' r. FirstOrCreateMiner e i w = Some (w', r) \<and> cache_inv cfg (cc w') \<and>
    (\<forall>p. r = Some p \<longrightarrow> GetMiner i (cc w') = Some p \<and> mID (miner_at (cc w') p) = i) \<and>
    (\<forall>q < length (heap (cc w)). miner_at (cc w') q = miner_at (cc w) q)"
  using FirstOrCreateMiner_spec [OF assms, of e i] by blast

theorem FirstOrCreateMiner_ok_witness:
  "\<exists>w' r. FirstOrCreateMiner sample_env 77 sample_world = Some (w', r) \<and> cache_inv (ev_cfg sample_env) (cc w')"
  using FirstOrCreateMiner_ok [OF sample_world_inv] by blast

text \<open>
  The guard in \<open>createMiner\<close> does not keep the fee account from mining: its row always exists, so
  the account is taken from the database and the guard is never reached.
\<close>

lemma fee_account_can_mine:
  "\<exists>w' p. FirstOrCreateMiner sample_env (FeeAccountID (ev_cfg sample_env)) sample_world = Some (w', Some p)"
proof -
  have f: "FeeAccountID (ev_cfg sample_env) = 7"
    by (simp add: sample_env_def with_defaults_def example_config_def)
  have n: "GetMiner 7 (cc sample_world) = None" by (simp add: GetMiner_def sample_world_def cache_simps)
  have "\<exists>m. getMinerFromDB sample_env 7 sample_world = (next_tick sample_world, Some m)"
    by (simp add: getMinerFromDB_def query_def sample_env_def sql_select_account_def sample_world_def sample_db_def)
  then show ?thesis unfolding f by (auto simp: FirstOrCreateMiner_def n split: prod.splits)
qed

end
