(* ===== verification/Frames.thy ===== *)
theory Frames
  imports Rewards RoundsProofs
begin

text \<open>
  How a property of the world is carried through an operation: by rules that follow its control flow, collected in
  \<open>frames\<close>, and by what the effects do. The locale \<open>effects\<close> states what a property must allow for statements,
  transactions and questions to keep it; each extension adds the statements of one group of operations: payouts (\<open>create_frame\<close>,
  \<open>valid_frame\<close>, \<open>send_frame\<close>), rewards and settings (\<open>reward_frame\<close>), names (\<open>name_frame\<close>) and cleaning (\<open>clean_frame\<close>); \<open>job_frame\<close>
  joins them for the periodic jobs. The operations of mining follow in the theory \<open>Mining\<close>. The instances on properties of the cache
  say that the jobs touch pending amounts, names and payout details only, and leave the current round, the deadlines and the best submission alone.
\<close>

section \<open>Properties along an operation\<close>

definition holds :: "(world \<Rightarrow> bool) \<Rightarrow> world \<Rightarrow> bool" where
  "holds Q w \<longleftrightarrow> Q w"

definition holds_o :: "(world \<Rightarrow> bool) \<Rightarrow> world option \<Rightarrow> bool" where
  "holds_o Q x \<longleftrightarrow> (\<forall>w. x = Some w \<longrightarrow> Q w)"

definition holds_p :: "(world \<Rightarrow> bool) \<Rightarrow> world \<times> 'a \<Rightarrow> bool" where
  "holds_p Q x \<longleftrightarrow> Q (fst x)"

definition holds_op :: "(world \<Rightarrow> bool) \<Rightarrow> (world \<times> 'a) option \<Rightarrow> bool" where
  "holds_op Q x \<longleftrightarrow> (\<forall>w a. x = Some (w, a) \<longrightarrow> Q w)"

lemmas holds_defs = holds_def holds_o_def holds_p_def holds_op_def

named_theorems frames \<open>rules that carry a property through the control flow of an operation\<close>

text \<open>Control flow: pattern matches on results, tests, bindings and ends of a computation.\<close>

lemma frames_case_prod [frames]:
  "holds_p I x \<Longrightarrow> (\<And>w a. holds I w \<Longrightarrow> holds I (f w a)) \<Longrightarrow> holds I (case x of (w, a) \<Rightarrow> f w a)"
  "holds_p I x \<Longrightarrow> (\<And>w a. holds I w \<Longrightarrow> holds_o I (g w a)) \<Longrightarrow> holds_o I (case x of (w, a) \<Rightarrow> g w a)"
  "holds_p I x \<Longrightarrow> (\<And>w a. holds I w \<Longrightarrow> holds_p I (h w a)) \<Longrightarrow> holds_p I (case x of (w, a) \<Rightarrow> h w a)"
  "holds_p I x \<Longrightarrow> (\<And>w a. holds I w \<Longrightarrow> holds_op I (k w a)) \<Longrightarrow> holds_op I (case x of (w, a) \<Rightarrow> k w a)"
  by (cases x; simp add: holds_defs)+

lemma frames_case_option [frames]:
  "holds I a \<Longrightarrow> (\<And>y. holds I (f y)) \<Longrightarrow> holds I (case r of None \<Rightarrow> a | Some y \<Rightarrow> f y)"
  "holds_o I b \<Longrightarrow> (\<And>y. holds_o I (g y)) \<Longrightarrow> holds_o I (case r of None \<Rightarrow> b | Some y \<Rightarrow> g y)"
  "holds_p I c \<Longrightarrow> (\<And>y. holds_p I (h y)) \<Longrightarrow> holds_p I (case r of None \<Rightarrow> c | Some y \<Rightarrow> h y)"
  "holds_op I d \<Longrightarrow> (\<And>y. holds_op I (k y)) \<Longrightarrow> holds_op I (case r of None \<Rightarrow> d | Some y \<Rightarrow> k y)"
  by (cases r; simp)+

lemma frames_case_sum [frames]:
  "(\<And>x. holds I (f x)) \<Longrightarrow> (\<And>y. holds I (g y)) \<Longrightarrow> holds I (case r of Inl x \<Rightarrow> f x | Inr y \<Rightarrow> g y)"
  "(\<And>x. holds_o I (f2 x)) \<Longrightarrow> (\<And>y. holds_o I (g2 y)) \<Longrightarrow> holds_o I (case r of Inl x \<Rightarrow> f2 x | Inr y \<Rightarrow> g2 y)"
  "(\<And>x. holds_p I (f3 x)) \<Longrightarrow> (\<And>y. holds_p I (g3 y)) \<Longrightarrow> holds_p I (case r of Inl x \<Rightarrow> f3 x | Inr y \<Rightarrow> g3 y)"
  "(\<And>x. holds_op I (f4 x)) \<Longrightarrow> (\<And>y. holds_op I (g4 y)) \<Longrightarrow> holds_op I (case r of Inl x \<Rightarrow> f4 x | Inr y \<Rightarrow> g4 y)"
  by (cases r; simp)+

lemma frames_if [frames]:
  "holds I a \<Longrightarrow> holds I b \<Longrightarrow> holds I (if c then a else b)"
  "holds_o I a2 \<Longrightarrow> holds_o I b2 \<Longrightarrow> holds_o I (if c then a2 else b2)"
  "holds_p I a3 \<Longrightarrow> holds_p I b3 \<Longrightarrow> holds_p I (if c then a3 else b3)"
  "holds_op I a4 \<Longrightarrow> holds_op I b4 \<Longrightarrow> holds_op I (if c then a4 else b4)"
  "holds I a \<Longrightarrow> holds I b \<Longrightarrow> holds I (case c of True \<Rightarrow> a | False \<Rightarrow> b)"
  "holds_o I a2 \<Longrightarrow> holds_o I b2 \<Longrightarrow> holds_o I (case c of True \<Rightarrow> a2 | False \<Rightarrow> b2)"
  "holds_p I a3 \<Longrightarrow> holds_p I b3 \<Longrightarrow> holds_p I (case c of True \<Rightarrow> a3 | False \<Rightarrow> b3)"
  "holds I a \<Longrightarrow> (\<And>y ys. holds I (f y ys)) \<Longrightarrow> holds I (case l of [] \<Rightarrow> a | y # ys \<Rightarrow> f y ys)"
  by (cases c; simp)+ (cases l; simp)

lemma frames_bind [frames]:
  "holds_o I x \<Longrightarrow> (\<And>w. holds I w \<Longrightarrow> holds_o I (f w)) \<Longrightarrow> holds_o I (x \<bind> f)"
  "holds_op I y \<Longrightarrow> (\<And>w a. holds I w \<Longrightarrow> holds_o I (g (w, a))) \<Longrightarrow> holds_o I (y \<bind> g)"
  "holds_o I x \<Longrightarrow> (\<And>w. holds I w \<Longrightarrow> holds_op I (h w)) \<Longrightarrow> holds_op I (x \<bind> h)"
  "holds_op I y \<Longrightarrow> (\<And>w a. holds I w \<Longrightarrow> holds_op I (k (w, a))) \<Longrightarrow> holds_op I (y \<bind> k)"
  by (auto simp: holds_defs bind_eq_Some_conv) metis

lemma frames_end [frames]:
  "holds_o I None" "holds I w \<Longrightarrow> holds_o I (Some w)" "holds_op I None" "holds_p I z \<Longrightarrow> holds_op I (Some z)"
  "holds I w \<Longrightarrow> holds_p I (w, a)" "holds_p I z \<Longrightarrow> holds I (fst z)"
  by (auto simp: holds_defs)

text \<open>Bindings of computations without effects.\<close>

lemma frames_bind_pure: "(\<And>t. holds_o I (f t)) \<Longrightarrow> holds_o I (x \<bind> f)" "(\<And>t. holds_op I (g t)) \<Longrightarrow> holds_op I (x \<bind> g)"
  by (cases x; simp add: holds_defs)+

lemma frames_case_pair: "(\<And>a b. holds_o I (f a b)) \<Longrightarrow> holds_o I (case x of (a, b) \<Rightarrow> f a b)"
  "(\<And>a b. holds_op I (g a b)) \<Longrightarrow> holds_op I (case x of (a, b) \<Rightarrow> g a b)"
  "(\<And>a b. holds_p I (h a b)) \<Longrightarrow> holds_p I (case x of (a, b) \<Rightarrow> h a b)"
  by (cases x; simp)+

section \<open>Effects\<close>

text \<open>\<open>S\<close> are the statements that keep the property. A rollback goes back to an earlier database.\<close>

locale effects =
  fixes Q :: "world \<Rightarrow> bool" and S :: "(database \<Rightarrow> sql_error + database) \<Rightarrow> bool" and e :: env
  assumes tick: "Q w \<Longrightarrow> Q (next_tick w)"
    and run: "Q w \<Longrightarrow> S st \<Longrightarrow> st (db w) = Inr d \<Longrightarrow> Q ((next_tick w)\<lparr>db := d\<rparr>)"
    and reverts: "Q w \<Longrightarrow> Q w' \<Longrightarrow> Q (w\<lparr>db := db w'\<rparr>)"
begin

lemma exec: "holds Q w \<Longrightarrow> S st \<Longrightarrow> holds_p Q (exec e st w)"
  by (cases "exec e st w") (auto simp: holds_defs elim!: exec_cases intro: tick run)

lemma start: "holds Q w \<Longrightarrow> holds_p Q (begin_tx e w)" "holds Q w \<Longrightarrow> holds_p Q (prepare e w)"
  by (cases "begin_tx e w"; cases "prepare e w"; auto simp: holds_defs dest!: begin_tx_next prepare_next intro: tick)+

lemma finish:
  "holds Q w0 \<Longrightarrow> holds Q w \<Longrightarrow> holds_p Q (commit e (db w0) w)"
  "holds Q w0 \<Longrightarrow> holds Q w \<Longrightarrow> holds Q (rollback (db w0) w)"
  by (cases "commit e (db w0) w"; auto simp: holds_defs rollback_def elim!: commit_cases intro: tick reverts)+

lemma must: "holds Q w \<Longrightarrow> S st \<Longrightarrow> holds_o Q (mustExec e st w)"
  by (auto simp: holds_defs mustExec_Some intro: run)

lemma questions: "holds Q w \<Longrightarrow> holds_p Q (query e q w)" "holds Q w \<Longrightarrow> holds_p Q (ask e a w)"
  by (simp_all add: holds_defs query_def ask_def tick)

lemmas effects = exec start finish must questions

end

section \<open>Miner objects\<close>

text \<open>The part of a miner object that mining works with.\<close>

definition same_mining :: "Miner \<Rightarrow> Miner \<Rightarrow> bool" where
  "same_mining m m' \<longleftrightarrow> mID m' = mID m \<and> mStore m' = mStore m \<and> CurrentDeadlineParams m' = CurrentDeadlineParams m \<and>
     DeadlinesParams m' = DeadlinesParams m \<and> WeightedDeadlineSum m' = WeightedDeadlineSum m"

locale object_frame = effects +
  assumes update: "Q w \<Longrightarrow> (\<And>m. same_mining m (f m)) \<Longrightarrow> Q (upd_cache (map_miner p f) w)"
begin

lemma fold_updates:
  assumes "Q w" "\<And>x w. Q w \<Longrightarrow> Q (upd_cache (g x) w)"
  shows "Q (upd_cache (fold g xs) w)"
  using assms(1)
proof (induction xs arbitrary: w)
  case (Cons x xs)
  from Cons.IH [OF assms(2) [OF Cons.prems]] show ?case by (simp add: upd_cache_def)
qed (simp add: upd_cache_def)

lemma update_miner: "Q w \<Longrightarrow> (\<And>m. same_mining m (f m)) \<Longrightarrow>
    Q (upd_cache (\<lambda>c. case GetMiner i c of Some p \<Rightarrow> map_miner p f c | None \<Rightarrow> c) w)"
  using update by (cases "GetMiner i (cc w)") (simp_all add: upd_cache_def)

lemma world_updates:
  "holds Q w \<Longrightarrow> (\<And>m. same_mining m (f m)) \<Longrightarrow> holds Q (upd_cache (map_miner p f) w)"
  "holds Q w \<Longrightarrow> holds Q (upd_cache (deduct_cached infos) w)"
  "holds Q w \<Longrightarrow> holds Q (upd_cache (credit_cached ms) w)"
proof -
  show "holds Q w \<Longrightarrow> (\<And>m. same_mining m (f m)) \<Longrightarrow> holds Q (upd_cache (map_miner p f) w)"
    by (simp add: holds_def update)
  show "holds Q w \<Longrightarrow> holds Q (upd_cache (deduct_cached infos) w)" unfolding holds_def deduct_cached_def
    by (rule fold_updates, assumption, rule update_miner, assumption) (simp add: same_mining_def)
  show "holds Q w \<Longrightarrow> holds Q (upd_cache (credit_cached ms) w)" unfolding holds_def credit_cached_def
    by (rule fold_updates, assumption, simp only: case_prod_beta, rule update_miner, assumption) (simp add: same_mining_def)
qed

end

text \<open>The names of the miners are read again.\<close>

locale name_frame = object_frame +
  assumes name_stmts: "S (sql_set_name n i)"
begin

lemma RereadMinerNames: "holds Q w \<Longrightarrow> holds Q (RereadMinerNames e w)"
  unfolding RereadMinerNames_def
proof (rule MinerRange_inv)
  fix k p w assume "holds Q w"
  then show "holds Q (reread_name e k p w)" unfolding reread_name_def Let_def
    by (intro frames effects name_stmts world_updates | assumption | simp add: same_mining_def)+
qed

end

section \<open>Payouts\<close>

locale money_frame = object_frame +
  assumes add_pending: "S (sql_add_pending x i)"

locale create_frame = money_frame +
  assumes create_stmts: "S (sql_insert_tx t)" "S (sql_set_next_date d i)" "S (sql_insert_recipient k i a)"
begin

lemma insert_txs: "holds Q w \<Longrightarrow> holds_p Q (insert_txs e k ids w)"
  by (induction k arbitrary: ids w) (simp_all add: Let_def frames effects create_stmts)

lemma update_next_date: "holds Q w \<Longrightarrow> holds_p Q (update_next_date e info w)"
  unfolding update_next_date_def Let_def by (intro frames effects create_stmts | assumption)+

lemma pay_accounts: "holds Q w \<Longrightarrow> holds_op Q (pay_accounts e ids i infos w)"
proof (induction infos arbitrary: i w)
  case (Cons info infos)
  show ?case unfolding pay_accounts.simps
    by (intro frames effects frames_bind_pure update_next_date create_stmts add_pending Cons | assumption)+
qed (simp add: frames)

lemma create_in_tx: "holds Q w \<Longrightarrow> holds_op Q (create_in_tx e infos w)"
  unfolding create_in_tx_def Let_def by (intro frames effects insert_txs pay_accounts add_pending | assumption)+

lemma createTransactions: "holds Q w \<Longrightarrow> holds_o Q (createTransactions e w)"
  unfolding createTransactions_def Let_def
  by (intro frames effects create_in_tx world_updates | assumption)+

end

text \<open>Transactions that were sent are validated; those that were not are sent, and what is sent is logged.\<close>

locale valid_frame = effects +
  assumes valid_stmts: "S (sql_forget_tx_id tx)" "S (sql_confirm_tx h tx)"
begin

lemma validateTransactions: "holds Q w \<Longrightarrow> holds_o Q (validateTransactions e w)"
proof -
  have "holds Q w \<Longrightarrow> holds_o Q (validate_each e txs w)" for txs w
  proof (induction txs arbitrary: w)
    case (Cons tx txs)
    show ?case unfolding validate_each.simps by (intro frames effects valid_stmts Cons | assumption | rule frames_case_pair)+
  qed (simp add: frames)
  then show "holds Q w \<Longrightarrow> holds_o Q (validateTransactions e w)"
    unfolding validateTransactions_def by (intro frames effects valid_stmts | assumption)+
qed

end

locale send_frame = effects +
  assumes log: "Q w \<Longrightarrow> Q (w\<lparr>payments := ps\<rparr>)"
    and send_stmts: "S (sql_set_tx_id tx now t)"
begin

lemma logged: "holds Q w \<Longrightarrow> holds Q (w\<lparr>payments := ps\<rparr>)"
  by (simp add: holds_def log)

lemmas send_rules = frames effects send_stmts

lemma sendMoney: "holds Q w \<Longrightarrow> holds_o Q (sendMoney e w)"
proof -
  have tx: "holds Q w \<Longrightarrow> holds_op Q (send_tx e rs w)" for rs w
    unfolding send_tx_def by (intro send_rules | assumption)+
  have "holds Q w \<Longrightarrow> holds_o Q (send_each e txs w)" for txs w
  proof (induction txs arbitrary: w)
    case (Cons t txs)
    show ?case unfolding send_each.simps Let_def by (intro send_rules logged tx Cons | assumption)+
  qed (simp add: frames)
  then show "holds Q w \<Longrightarrow> holds_o Q (sendMoney e w)" unfolding sendMoney_def by (intro send_rules | assumption)+
qed

end

section \<open>Rewards and settings\<close>

text \<open>A minimum payout that a miner sets is a 64-bit number.\<close>

lemma int_i64: "\<not> 2 ^ 63 \<le> n \<Longrightarrow> is_i64 (int n)" "\<not> 2 ^ 63 < n \<Longrightarrow> is_i64 (- int n)"
  by (simp_all add: is_i64_def)

lemma ParseInt_i64: "ParseInt s = Inr v \<Longrightarrow> is_i64 v"
  unfolding ParseInt_def Let_def by (auto intro: int_i64 simp del: of_nat_unat split: if_splits sum.splits)

lemma f_to_int_i64: "is_i64 (f_to_int 64 x)"
  by (cases x) (simp_all add: f_to_int_def Let_def is_i64_def)

lemma parse_min_payout_i64: "parse_min_payout e msg = Some v \<Longrightarrow> is_i64 v"
  by (auto simp: parse_min_payout_def f_to_int_i64 split: sum.splits intro: ParseInt_i64)

lemma interval_setting_no_value: "interval_setting e i msg t cost w = (w', Some s) \<Longrightarrow> psMinPayoutValue s = None"
  by (auto simp: interval_setting_def split: prod.splits sum.splits bool.splits)

lemma payout_request_i64: "payout_request e i msg w = (w', Some s) \<Longrightarrow> pred_option is_i64 (psMinPayoutValue s)"
  by (auto simp: payout_request_def Let_def parse_min_payout_i64 dest!: interval_setting_no_value
      split: if_splits option.splits prod.splits sum.splits bool.splits)

locale reward_frame = money_frame +
  assumes setting_stmt: "pred_option is_i64 v \<Longrightarrow> S (sql_set_min_payout v iv d x i)"
    and reward_stmts: "S (sql_set_capacity x i)" "S (sql_set_won x i h)" "S (sql_set_verified h)"
      "S (sql_pick_best h now)" "S (sql_verify_empty h now)"
begin

lemmas reward_rules = frames effects reward_stmts add_pending world_updates

lemma payout_request: "holds Q w \<Longrightarrow> holds_p Q (payout_request e i msg w)"
proof -
  have "holds Q w \<Longrightarrow> holds_p Q (interval_setting e i msg t cost w)" for msg t cost w
    unfolding interval_setting_def by (intro reward_rules | assumption)+
  then show "holds Q w \<Longrightarrow> holds_p Q (payout_request e i msg w)"
    unfolding payout_request_def Let_def by (intro reward_rules | assumption)+
qed

lemma apply_setting: "holds Q w \<Longrightarrow> pred_option is_i64 (psMinPayoutValue s) \<Longrightarrow> holds Q (apply_setting e i s w)"
  unfolding apply_setting_def Let_def
  by (intro reward_rules setting_stmt | assumption | simp add: same_mining_def cached_setting_def Let_def)+

lemma SetMinPayout: "holds Q w \<Longrightarrow> holds Q (SetMinPayout e msgs w)"
proof (induction msgs arbitrary: w)
  case (Cons m msgs)
  obtain i msg where m: "m = (i, msg)" by (metis surj_pair)
  obtain w1 r where x: "payout_request e i msg w = (w1, r)" by (metis surj_pair)
  have q: "holds Q w1" using payout_request [OF Cons.prems, of i msg] by (simp add: x holds_p_def holds_def)
  show ?case
  proof (cases r)
    case None
    then show ?thesis using Cons.IH [OF q] by (simp add: m x)
  next
    case (Some s)
    then show ?thesis using Cons.IH [OF apply_setting [OF q payout_request_i64 [OF x [unfolded Some]]]] by (simp add: m x)
  qed
qed simp

lemma rewardBlock: "holds Q w \<Longrightarrow> holds_o Q (rewardBlock e b w)"
proof -
  have each: "holds Q w \<Longrightarrow> holds_op Q (eeps_each e f args m x w)" for f args m x w
  proof (induction args arbitrary: m x w)
    case (Cons a args)
    obtain i y n where a: "a = (i, y, n)" by (metis surj_pair)
    show ?case unfolding a eeps_each.simps Let_def by (intro reward_rules Cons | assumption)+
  qed (simp add: frames)
  have eeps: "holds Q w \<Longrightarrow> holds_op Q (GetEEPSsOnBlock e h f w)" for h f w
    unfolding GetEEPSsOnBlock_def by (intro reward_rules each | assumption | rule frames_case_pair)+
  have shares: "holds Q w \<Longrightarrow> holds_op Q (GetSharesOnBlock e h w)" for h w
    unfolding GetSharesOnBlock_def by (intro reward_rules eeps | assumption | rule frames_case_pair)+
  have credit: "holds Q w \<Longrightarrow> holds_p Q (credit_each e m w)" for m w
  proof (induction m arbitrary: w)
    case (Cons a m)
    obtain i x where a: "a = (i, x)" by (metis surj_pair)
    show ?case unfolding a credit_each.simps by (intro reward_rules Cons | assumption)+
  qed (simp add: frames)
  show "holds Q w \<Longrightarrow> holds_o Q (rewardBlock e b w)"
    unfolding rewardBlock_def Let_def
    by (intro reward_rules shares credit | assumption)+
qed

lemma RewardBlocks: "holds Q w \<Longrightarrow> holds_o Q (RewardBlocks e w)"
proof -
  have ve: "holds Q w \<Longrightarrow> holds_o Q (verify_each e infos w)" for infos w
  proof (induction infos arbitrary: w)
    case (Cons a infos)
    show ?case unfolding verify_each.simps by (intro reward_rules rewardBlock Cons | assumption | rule frames_case_pair)+
  qed (simp add: frames)
  then show "holds Q w \<Longrightarrow> holds_o Q (RewardBlocks e w)"
    unfolding RewardBlocks_def Let_def by (intro reward_rules SetMinPayout ve | assumption)+
qed

end

section \<open>The periodic jobs\<close>

locale clean_frame = effects +
  assumes clean_stmts: "S (sql_delete_blocks_below h)" "S sql_delete_idle_miners"
      "S (sql_transfer_pending (FeeAccountID (ev_cfg e)))" "S (sql_delete_old_accounts (FeeAccountID (ev_cfg e)))"
begin

lemma CleanDB: "holds Q w \<Longrightarrow> holds_o Q (CleanDB e w)"
  unfolding CleanDB_def Let_def by (intro frames effects clean_stmts | assumption)+

end

locale job_stmts = reward_frame + valid_frame + send_frame + name_frame + clean_frame

text \<open>
  That \<open>createTransactions\<close> keeps the property is an assumption here, as it can do so without each of its statements
  doing so; \<open>statement_frame\<close> is the case where it follows from the statements.
\<close>

locale job_frame = job_stmts +
  assumes create: "holds Q w \<Longrightarrow> holds_o Q (createTransactions e w)"
begin

lemma Payout: "holds Q w \<Longrightarrow> holds_o Q (Payout e w)"
  unfolding Payout_def by (intro frames effects create validateTransactions sendMoney | assumption)+

end

locale statement_frame = job_stmts + create_frame

sublocale statement_frame \<subseteq> job_frame
  by unfold_locales (rule createTransactions)

section \<open>What the jobs leave alone\<close>

text \<open>The caches that agree in everything but pending amounts, names and payout details of the miners.\<close>

definition quiet :: "cache \<Rightarrow> cache \<Rightarrow> bool" where
  "quiet c c' \<longleftrightarrow> list_all2 same_mining (heap c) (heap c') \<and> miners c' = miners c \<and>
     bestNonceSubmission c' = bestNonceSubmission c \<and> currentBlock c' = currentBlock c \<and>
     rewardRecipient c' = rewardRecipient c \<and> slowBlocks c' = slowBlocks c \<and> fastBlocks c' = fastBlocks c \<and>
     alphas c' = alphas c \<and> miningInfoJSON c' = miningInfoJSON c \<and> roundInfo c' = roundInfo c"

lemma same_mining_refl [simp]: "same_mining m m"
  by (simp add: same_mining_def)

lemma same_mining_wf: "same_mining m m' \<Longrightarrow> miner_wf m' \<longleftrightarrow> miner_wf m"
  by (simp add: same_mining_def miner_wf_def)

lemma same_mining_trans: "same_mining a b \<Longrightarrow> same_mining b c \<Longrightarrow> same_mining a c"
  by (simp add: same_mining_def)

lemma quiet_refl [simp]: "quiet c c"
  by (simp add: quiet_def list_all2_refl)

lemma quiet_update:
  assumes "quiet c c'" "\<And>m. same_mining m (f m)"
  shows "quiet c (map_miner p f c')"
proof -
  have "list_all2 same_mining (heap c) ((heap c')[p := f (heap c' ! p)])"
  proof (cases "p < length (heap c')")
    case True
    then have "same_mining (heap c ! p) (heap c' ! p)"
      using assms(1) list_all2_nthD2 [of same_mining "heap c" "heap c'" p] by (simp add: quiet_def)
    then have "same_mining (heap c ! p) (f (heap c' ! p))" using assms(2) same_mining_trans by blast
    then have "list_all2 same_mining ((heap c)[p := heap c ! p]) ((heap c')[p := f (heap c' ! p)])"
      using assms(1) by (intro list_all2_update_cong) (simp_all add: quiet_def)
    then show ?thesis by simp
  qed (use assms in \<open>simp add: quiet_def list_update_beyond not_less\<close>)
  then show ?thesis using assms(1) by (simp add: quiet_def map_miner_def)
qed

text \<open>Statements do not touch the cache; what is left are the updates of miner objects.\<close>

definition on_cache :: "(cache \<Rightarrow> bool) \<Rightarrow> world \<Rightarrow> bool" where
  "on_cache I w \<longleftrightarrow> I (cc w)"

interpretation jobs: statement_frame "on_cache (quiet c)" "\<lambda>_. True" e for c e
  by unfold_locales (simp_all add: on_cache_def quiet_update)

text \<open>The jobs keep the cache consistent as well.\<close>

lemma same_mining_inv:
  assumes "cache_inv cfg c" "\<And>m. same_mining m (f m)"
  shows "cache_inv cfg (map_miner p f c)"
proof -
  have "p < length (heap c) \<Longrightarrow> miner_wf (heap c ! p)" using assms(1) by (auto simp: cache_inv_def miners_wf_def)
  then show ?thesis using assms same_mining_wf [OF assms(2)] assms(2)
    by (intro map_miner_inv) (simp_all add: same_mining_def)
qed

interpretation jobs_inv: statement_frame "on_cache (cache_inv cfg)" "\<lambda>_. True" e for cfg e
  by unfold_locales (simp_all add: on_cache_def same_mining_inv)

end
