(* ===== verification/PayoutProofs.thy ===== *)
theory PayoutProofs
  imports Payout
begin

text \<open>
  Correctness of payments: no money is created or lost when pending amounts become transactions,
  whatever statement fails; transactions have at most 64 recipients; nothing is sent twice.
\<close>

section \<open>Statements and money\<close>

definition account_ids :: "database \<Rightarrow> uint64 list" where
  "account_ids d = map aID (account d)"

definition total_pending :: "database \<Rightarrow> int" where
  "total_pending d = sum_list (map aPending (account d))"

definition total_payments :: "database \<Rightarrow> int" where
  "total_payments d = sum_list (map pAmount (transaction_recipient d))"

lemma has_account_ids: "has_account i d \<longleftrightarrow> i \<in> set (account_ids d)"
  by (simp add: has_account_def account_ids_def)

lemma upd_where_none: "(\<And>r. r \<in> set rs \<Longrightarrow> \<not> P r) \<Longrightarrow> upd_where P f rs = rs"
  by (induction rs) (auto simp: upd_where_def)

lemma upd_where_ids: "(\<And>a. aID (f a) = aID a) \<Longrightarrow> map aID (upd_where P f as) = map aID as"
  by (simp add: upd_where_def)

lemma upd_where_sum:
  assumes "distinct (map aID as)" "i \<in> set (map aID as)" "\<And>a. aPending (f a) = aPending a + x"
  shows "sum_list (map aPending (upd_where (\<lambda>a. aID a = i) f as)) = sum_list (map aPending as) + x"
  using assms
proof (induction as)
  case (Cons a as)
  show ?case
  proof (cases "aID a = i")
    case True
    then have "upd_where (\<lambda>a. aID a = i) f as = as"
      using Cons.prems True by (intro upd_where_none) (force simp: image_iff)
    then show ?thesis using True Cons.prems by (simp add: upd_where_def)
  next
    case False
    then show ?thesis using Cons by (simp add: upd_where_def)
  qed
qed simp

lemma sql_add_pending_ok:
  assumes "sql_add_pending x i d = Inr d'"
  shows "account_ids d' = account_ids d" "transaction_recipient d' = transaction_recipient d"
    "transaction d' = transaction d" "next_tx d' = next_tx d" "next_recipient d' = next_recipient d"
    "distinct (account_ids d) \<Longrightarrow> i \<in> set (account_ids d) \<Longrightarrow> total_pending d' = total_pending d + x"
    "i \<notin> set (account_ids d) \<Longrightarrow> d' = d"
proof -
  let ?f = "\<lambda>a. a\<lparr>aPending := aPending a + x\<rparr>"
  have d': "d' = d\<lparr>account := upd_where (\<lambda>a. aID a = i) ?f (account d)\<rparr>"
    using assms by (auto simp: sql_add_pending_def split: if_splits)
  show "account_ids d' = account_ids d" "transaction_recipient d' = transaction_recipient d"
    "transaction d' = transaction d" "next_tx d' = next_tx d" "next_recipient d' = next_recipient d"
    by (simp_all add: d' account_ids_def upd_where_ids)
  show "distinct (account_ids d) \<Longrightarrow> i \<in> set (account_ids d) \<Longrightarrow> total_pending d' = total_pending d + x"
    using upd_where_sum [of "account d" i ?f x] by (simp add: d' account_ids_def total_pending_def)
  show "d' = d" if "i \<notin> set (account_ids d)"
  proof -
    have "upd_where (\<lambda>a. aID a = i) ?f (account d) = account d"
      using that by (intro upd_where_none) (auto simp: account_ids_def)
    then show ?thesis by (simp add: d')
  qed
qed

lemma sql_set_next_date_ok:
  assumes "sql_set_next_date t i d = Inr d'"
  shows "account_ids d' = account_ids d" "transaction_recipient d' = transaction_recipient d"
    "transaction d' = transaction d" "next_tx d' = next_tx d" "next_recipient d' = next_recipient d"
    "total_pending d' = total_pending d"
  using assms
  by (auto simp: sql_set_next_date_def account_ids_def total_pending_def upd_where_def comp_def
      intro!: arg_cong [of _ _ sum_list])

lemma sql_insert_recipient_ok:
  assumes "sql_insert_recipient t i x d = Inr d'"
  shows "account_ids d' = account_ids d" "transaction d' = transaction d" "next_tx d' = next_tx d"
    "total_pending d' = total_pending d" "next_recipient d' = next_recipient d + 1"
    "transaction_recipient d' = transaction_recipient d @
       [\<lparr>pID = next_recipient d, pTx = t, pRecipient = i, pAmount = x\<rparr>]"
  using assms by (auto simp: sql_insert_recipient_def account_ids_def total_pending_def split: if_splits)

text \<open>What every statement inside the payout transaction leaves alone.\<close>

definition same_frame :: "world \<Rightarrow> world \<Rightarrow> bool" where
  "same_frame w w' \<longleftrightarrow> cc w' = cc w \<and> payments w' = payments w \<and> account_ids (db w') = account_ids (db w)"

lemma same_frame_refl [simp]: "same_frame w w"
  by (simp add: same_frame_def)

lemma same_frame_trans: "same_frame w w' \<Longrightarrow> same_frame w' w'' \<Longrightarrow> same_frame w w''"
  by (simp add: same_frame_def)

lemma exec_frame:
  assumes "exec e st w = (w', r)" "\<And>d. st (db w) = Inr d \<Longrightarrow> account_ids d = account_ids (db w)"
  shows "same_frame w w'"
  using assms(1) by (cases rule: exec_cases) (auto simp: same_frame_def next_tick_def assms(2))

section \<open>The loop over the accounts\<close>

text \<open>The rows that the loop adds, starting at account number \<open>i\<close> and row id \<open>nxt\<close>.\<close>

fun pay_rows :: "int64 list \<Rightarrow> int64 \<Rightarrow> int64 \<Rightarrow> nat \<Rightarrow> PendingInfo list \<Rightarrow> recipient_row list" where
  "pay_rows ids fee nxt i [] = []"
| "pay_rows ids fee nxt i (info # infos) =
     \<lparr>pID = nxt, pTx = ids ! (i div MaxMultiRecipients), pRecipient = piID info,
       pAmount = i64 (piPending info - fee)\<rparr> # pay_rows ids fee (nxt + 1) (i + 1) infos"

lemma pay_rows_total:
  "sum_list (map pAmount (pay_rows ids fee nxt i infos)) = sum_list (map (\<lambda>f. i64 (piPending f - fee)) infos)"
  by (induction ids fee nxt i infos rule: pay_rows.induct) simp_all

lemma pay_rows_count:
  assumes "distinct ids" "\<forall>j < i + length infos. j div MaxMultiRecipients < length ids" "q < length ids"
  shows "length (filter (\<lambda>r. pTx r = ids ! q) (pay_rows ids fee nxt i infos)) \<le>
    card {j \<in> {i..<i + length infos}. j div MaxMultiRecipients = q}"
  using assms
proof (induction ids fee nxt i infos rule: pay_rows.induct)
  case (2 ids fee nxt i info infos)
  let ?S = "{j \<in> {i + 1..<i + 1 + length infos}. j div MaxMultiRecipients = q}"
  let ?T = "{j \<in> {i..<i + length (info # infos)}. j div MaxMultiRecipients = q}"
  have IH: "length (filter (\<lambda>r. pTx r = ids ! q) (pay_rows ids fee (nxt + 1) (i + 1) infos)) \<le> card ?S"
    using 2 by simp
  have i: "i div MaxMultiRecipients < length ids" using "2.prems"(2) by simp
  show ?case
  proof (cases "ids ! (i div MaxMultiRecipients) = ids ! q")
    case True
    then have "i div MaxMultiRecipients = q" using i "2.prems" by (simp add: nth_eq_iff_index_eq)
    then have "?T = insert i ?S" by auto
    then have "card ?T = Suc (card ?S)" by simp
    then show ?thesis using IH True by simp
  next
    case False
    have "card ?S \<le> card ?T" by (intro card_mono) auto
    then show ?thesis using IH False by simp
  qed
qed simp

lemma batch_card: "card {j \<in> {i..<i + n}. j div MaxMultiRecipients = q} \<le> MaxMultiRecipients"
proof -
  have "{j \<in> {i..<i + n}. j div MaxMultiRecipients = q} \<subseteq> {MaxMultiRecipients * q..<MaxMultiRecipients * q + MaxMultiRecipients}"
    by (auto simp: MaxMultiRecipients_def)
  then have "card {j \<in> {i..<i + n}. j div MaxMultiRecipients = q} \<le>
      card {MaxMultiRecipients * q..<MaxMultiRecipients * q + MaxMultiRecipients}"
    by (intro card_mono) auto
  then show ?thesis by simp
qed

lemma pay_rows_tx: "r \<in> set (pay_rows ids fee nxt i infos) \<Longrightarrow>
    \<forall>j < i + length infos. j div MaxMultiRecipients < length ids \<Longrightarrow> pTx r \<in> set ids"
  by (induction ids fee nxt i infos rule: pay_rows.induct) auto

lemma update_next_date_ok:
  assumes "update_next_date e info w = (w', None)"
  shows "same_frame w w'" "transaction_recipient (db w') = transaction_recipient (db w)"
    "transaction (db w') = transaction (db w)" "next_tx (db w') = next_tx (db w)"
    "next_recipient (db w') = next_recipient (db w)" "total_pending (db w') = total_pending (db w)"
  using assms sql_set_next_date_ok
  by (auto simp: update_next_date_def same_frame_def next_tick_def elim!: exec_cases split: option.splits if_splits)

lemma pay_accounts_ok:
  assumes "pay_accounts e ids i infos w = Some (w', ok)"
    and "distinct (account_ids (db w))" and "\<forall>f \<in> set infos. piID f \<in> set (account_ids (db w))"
  shows "same_frame w w' \<and> (ok \<longrightarrow>
    transaction_recipient (db w') = transaction_recipient (db w) @
      pay_rows ids (MinerTxFee (ev_cfg e)) (next_recipient (db w)) i infos \<and>
    transaction (db w') = transaction (db w) \<and> next_tx (db w') = next_tx (db w) \<and>
    total_pending (db w') = total_pending (db w) - sum_list (map piPending infos))"
  using assms
proof (induction infos arbitrary: i w)
  case (Cons info infos)
  obtain w1 r1 where x1: "exec e (sql_add_pending (- piPending info) (piID info)) w = (w1, r1)" by (metis surj_pair)
  have f1: "same_frame w w1" using x1 by (rule exec_frame) (rule sql_add_pending_ok(1))
  show ?case
  proof (cases r1)
    case (Some _)
    then show ?thesis using Cons.prems(1) x1 f1 by auto
  next
    case r1: None
    then obtain d1 where d1: "sql_add_pending (- piPending info) (piID info) (db w) = Inr d1" "db w1 = d1"
      using x1 by (auto elim: exec_cases)
    note A = sql_add_pending_ok [OF d1(1)]
    obtain w2 r2 where x2: "update_next_date e info w1 = (w2, r2)" by (metis surj_pair)
    have f2: "same_frame w1 w2"
      using x2 sql_set_next_date_ok(1)
      by (auto simp: update_next_date_def intro: exec_frame split: option.splits if_splits)
    show ?thesis
    proof (cases r2)
      case (Some _)
      then show ?thesis using Cons.prems(1) x1 r1 x2 same_frame_trans [OF f1 f2] by auto
    next
      case r2: None
      note U = update_next_date_ok [OF x2 [unfolded r2]]
      obtain t where t: "idx ids (i div MaxMultiRecipients) = Some t"
        using Cons.prems(1) x1 r1 x2 r2 by (auto simp: bind_eq_Some_conv)
      let ?a = "i64 (piPending info - MinerTxFee (ev_cfg e))"
      obtain w3 r3 where x3: "exec e (sql_insert_recipient t (piID info) ?a) w2 = (w3, r3)" by (metis surj_pair)
      have f3: "same_frame w w3"
        using same_frame_trans [OF same_frame_trans [OF f1 f2] exec_frame [OF x3 sql_insert_recipient_ok(1)]] .
      show ?thesis
      proof (cases r3)
        case (Some _)
        then show ?thesis using Cons.prems(1) x1 r1 x2 r2 t x3 f3 by auto
      next
        case r3: None
        then obtain d3 where d3: "sql_insert_recipient t (piID info) ?a (db w2) = Inr d3" "db w3 = d3"
          using x3 by (auto elim: exec_cases)
        note I = sql_insert_recipient_ok [OF d3(1)]
        have rest: "pay_accounts e ids (i + 1) infos w3 = Some (w', ok)"
          using Cons.prems(1) x1 r1 x2 r2 t x3 r3 by simp
        have "account_ids (db w3) = account_ids (db w)" using f3 by (simp add: same_frame_def)
        then have ih: "same_frame w3 w' \<and> (ok \<longrightarrow>
            transaction_recipient (db w') = transaction_recipient (db w3) @
              pay_rows ids (MinerTxFee (ev_cfg e)) (next_recipient (db w3)) (i + 1) infos \<and>
            transaction (db w') = transaction (db w3) \<and> next_tx (db w') = next_tx (db w3) \<and>
            total_pending (db w') = total_pending (db w3) - sum_list (map piPending infos))"
          using Cons.IH [OF rest] Cons.prems by simp
        have "ids ! (i div MaxMultiRecipients) = t" using t by (simp add: idx_eq_Some)
        then show ?thesis
          using ih same_frame_trans [OF f3] A U I d1(2) d3(2) Cons.prems(2,3) by simp
      qed
    qed
  qed
qed simp

lemma pay_accounts_total:
  assumes "\<forall>j < i + length infos. j div MaxMultiRecipients < length ids"
  shows "\<exists>w' ok. pay_accounts e ids i infos w = Some (w', ok)"
  using assms
proof (induction infos arbitrary: i w)
  case (Cons info infos)
  have "i div MaxMultiRecipients < length ids" using Cons.prems by simp
  then have "idx ids (i div MaxMultiRecipients) = Some (ids ! (i div MaxMultiRecipients))" by simp
  moreover have "\<And>w. \<exists>w' ok. pay_accounts e ids (i + 1) infos w = Some (w', ok)"
    using Cons by simp
  ultimately show ?case by (auto split: prod.splits option.splits)
next
  case Nil
  show ?case by (rule exI, rule exI, rule pay_accounts.simps)
qed

section \<open>The new transactions\<close>

lemma insert_txs_ok:
  assumes "insert_txs e n acc w = (w', r)"
  shows "same_frame w w' \<and> (\<forall>ids. r = Some ids \<longrightarrow>
    ids = acc @ map (\<lambda>j. next_tx (db w) + int j) [0..<n] \<and>
    map tID (transaction (db w')) = map tID (transaction (db w)) @ map (\<lambda>j. next_tx (db w) + int j) [0..<n] \<and>
    transaction_recipient (db w') = transaction_recipient (db w) \<and>
    next_recipient (db w') = next_recipient (db w) \<and> next_tx (db w') = next_tx (db w) + int n \<and>
    total_pending (db w') = total_pending (db w))"
  using assms
proof (induction n arbitrary: acc w)
  case (Suc n)
  let ?st = "sql_insert_tx (sql_now (time_now e w))"
  obtain w1 r1 where x: "exec e ?st w = (w1, r1)" by (metis surj_pair)
  have f: "same_frame w w1" using x by (rule exec_frame) (auto simp: sql_insert_tx_def account_ids_def)
  show ?case
  proof (cases r1)
    case (Some _)
    then show ?thesis using Suc.prems x f by (auto simp: Let_def)
  next
    case None
    then have d: "db w1 = (db w)\<lparr>transaction := transaction (db w) @
        [\<lparr>tID = next_tx (db w), tTxID = None, tHeight = None, tCreated = sql_now (time_now e w)\<rparr>],
        next_tx := next_tx (db w) + 1\<rparr>"
      using x by (auto simp: sql_insert_tx_def elim: exec_cases)
    have rest: "insert_txs e n (acc @ [next_tx (db w)]) w1 = (w', r)" using Suc.prems x None by (simp add: Let_def)
    have up: "map (\<lambda>j. next_tx (db w) + int j) [0..<Suc n] =
        next_tx (db w) # map (\<lambda>j. next_tx (db w) + 1 + int j) [0..<n]"
      by (subst upt_conv_Cons) (simp_all add: map_Suc_upt [symmetric] comp_def algebra_simps del: upt_Suc)
    show ?thesis using Suc.IH [OF rest] same_frame_trans [OF f] d
      unfolding up by (simp add: total_pending_def algebra_simps)
  qed
qed auto

section \<open>The whole transaction\<close>

lemma number_of_txs_enough: "j < n \<Longrightarrow> j div MaxMultiRecipients < number_of_txs n"
  by (auto simp: number_of_txs_def MaxMultiRecipients_def)

lemma number_of_txs_pos: "0 < n \<Longrightarrow> 0 < number_of_txs n"
  by (auto simp: number_of_txs_def MaxMultiRecipients_def)

lemma number_of_txs_le: "number_of_txs n \<le> n"
  by (auto simp: number_of_txs_def MaxMultiRecipients_def)

definition new_ids :: "database \<Rightarrow> nat \<Rightarrow> int64 list" where
  "new_ids d k = map (\<lambda>j. next_tx d + int j) [0..<k]"

lemma new_ids_simps [simp]: "length (new_ids d k) = k" "distinct (new_ids d k)"
  by (simp_all add: new_ids_def distinct_map inj_on_def)

lemma new_ids_fresh: "t \<in> set (new_ids d k) \<Longrightarrow> next_tx d \<le> t \<and> t < next_tx d + int k"
  by (auto simp: new_ids_def)

text \<open>What the fee account gains.\<close>

definition fee_gain :: "Config \<Rightarrow> PendingInfo list \<Rightarrow> int" where
  "fee_gain cfg infos = i64 (i64 (int (length infos) * MinerTxFee cfg) -
     i64 (int (number_of_txs (length infos)) * PoolTxFee cfg))"

text \<open>The rows of a database in which the accounts of \<open>infos\<close> have been paid.\<close>

definition paid :: "Config \<Rightarrow> PendingInfo list \<Rightarrow> database \<Rightarrow> database \<Rightarrow> bool" where
  "paid cfg infos d d' \<longleftrightarrow> (let ids = new_ids d (number_of_txs (length infos)) in
     account_ids d' = account_ids d \<and>
     transaction_recipient d' = transaction_recipient d @
       pay_rows ids (MinerTxFee cfg) (next_recipient d) 0 infos \<and>
     map tID (transaction d') = map tID (transaction d) @ ids \<and>
     next_tx d' = next_tx d + int (length ids) \<and>
     (FeeAccountID cfg \<in> set (account_ids d) \<longrightarrow>
       total_pending d' = total_pending d - sum_list (map piPending infos) + fee_gain cfg infos))"

lemma create_in_tx_ok:
  assumes "create_in_tx e infos w = Some (w', ok)"
    and "distinct (account_ids (db w))" "\<forall>f \<in> set infos. piID f \<in> set (account_ids (db w))"
  shows "same_frame w w' \<and> (ok \<longrightarrow> paid (ev_cfg e) infos (db w) (db w'))"
proof -
  let ?k = "number_of_txs (length infos)" and ?cfg = "ev_cfg e"
  obtain w1 r1 where x1: "insert_txs e ?k [] w = (w1, r1)" by (metis surj_pair)
  note T = insert_txs_ok [OF x1]
  show ?thesis
  proof (cases r1)
    case None
    then show ?thesis using assms(1) x1 T by (auto simp: create_in_tx_def)
  next
    case (Some ids)
    then have ids: "ids = new_ids (db w) ?k" using T by (simp add: new_ids_def)
    have "create_in_tx e infos w = do { (w2, b) \<leftarrow> pay_accounts e ids 0 infos w1;
        Some (if \<not> b then (w2, False) else (case exec e (sql_add_pending (fee_gain ?cfg infos)
          (FeeAccountID ?cfg)) w2 of (w, Some err) \<Rightarrow> (w, False) | (w, None) \<Rightarrow> (w, True))) }"
      using x1 Some unfolding create_in_tx_def Let_def fee_gain_def by simp
    from trans [OF this [symmetric] assms(1)]
    obtain w2 b where x2: "pay_accounts e ids 0 infos w1 = Some (w2, b)"
      and rest: "Some (if \<not> b then (w2, False) else (case exec e (sql_add_pending (fee_gain ?cfg infos)
          (FeeAccountID ?cfg)) w2 of (w, Some err) \<Rightarrow> (w, False) | (w, None) \<Rightarrow> (w, True))) = Some (w', ok)"
      by (auto simp: bind_eq_Some_conv)
    have f1: "same_frame w w1" using T by simp
    then have a1: "account_ids (db w1) = account_ids (db w)" by (simp add: same_frame_def)
    note P = pay_accounts_ok [OF x2, unfolded a1, OF assms(2,3)]
    obtain w3 r3 where x3: "exec e (sql_add_pending (fee_gain ?cfg infos) (FeeAccountID ?cfg)) w2 = (w3, r3)"
      by (metis surj_pair)
    have f2: "same_frame w w2" using f1 P same_frame_trans by blast
    have f3: "same_frame w w3"
      using same_frame_trans [OF f2 exec_frame [OF x3 sql_add_pending_ok(1)]] .
    show ?thesis
    proof (cases "b \<and> r3 = None")
      case False
      then show ?thesis using rest x3 f2 f3 by (auto split: if_splits option.splits)
    next
      case True
      then have ok: "w' = w3" using rest x3 by simp
      obtain d3 where d3: "sql_add_pending (fee_gain ?cfg infos) (FeeAccountID ?cfg) (db w2) = Inr d3" "db w3 = d3"
        using x3 True by (auto elim: exec_cases)
      have a2: "account_ids (db w2) = account_ids (db w)" using f2 by (simp add: same_frame_def)
      note A = sql_add_pending_ok [OF d3(1), unfolded a2]
      have "paid ?cfg infos (db w) (db w3)"
        using A P T True Some ids d3(2) a2 assms(2) unfolding paid_def Let_def by (simp add: new_ids_def)
      then show ?thesis using ok f3 by simp
    qed
  qed
qed

lemma create_in_tx_total: "\<exists>w' ok. create_in_tx e infos w = Some (w', ok)"
proof -
  let ?k = "number_of_txs (length infos)"
  obtain w1 r1 where x1: "insert_txs e ?k [] w = (w1, r1)" by (metis surj_pair)
  show ?thesis
  proof (cases r1)
    case None
    then have "create_in_tx e infos w = Some (w1, False)" using x1 by (simp add: create_in_tx_def)
    then show ?thesis by blast
  next
    case (Some ids)
    then have "length ids = ?k" using insert_txs_ok [OF x1] by simp
    then have "\<forall>j < 0 + length infos. j div MaxMultiRecipients < length ids" using number_of_txs_enough by simp
    then obtain w2 b where "pay_accounts e ids 0 infos w1 = Some (w2, b)"
      using pay_accounts_total by blast
    then show ?thesis using x1 Some
      by (auto simp: create_in_tx_def Let_def split: prod.splits option.splits)
  qed
qed

text \<open>The end of the transaction, on a database \<open>v\<close> as it was before.\<close>

definition finish_create :: "env \<Rightarrow> PendingInfo list \<Rightarrow> world \<Rightarrow> world option" where
  "finish_create e infos v = do { (w, ok) \<leftarrow> create_in_tx e infos v;
     Some (if \<not> ok then rollback (db v) w else (case commit e (db v) w of
       (w, Some err) \<Rightarrow> w | (w, None) \<Rightarrow> upd_cache (deduct_cached infos) w)) }"

lemma finish_create_cases:
  assumes "distinct (account_ids (db v))" "\<forall>f \<in> set infos. piID f \<in> set (account_ids (db v))"
  obtains (same) w' where "finish_create e infos v = Some w'" "db w' = db v" "cc w' = cc v" "payments w' = payments v"
    | (paid) w' where "finish_create e infos v = Some w'" "payments w' = payments v"
        "paid (ev_cfg e) infos (db v) (db w')" "cc w' = deduct_cached infos (cc v)"
proof -
  obtain w6 ok where x6: "create_in_tx e infos v = Some (w6, ok)" using create_in_tx_total by blast
  note C = create_in_tx_ok [OF x6 assms]
  obtain w7 r7 where x7: "commit e (db v) w6 = (w7, r7)" by (metis surj_pair)
  have eq: "finish_create e infos v = Some (if \<not> ok then rollback (db v) w6
      else (case r7 of Some err \<Rightarrow> w7 | None \<Rightarrow> upd_cache (deduct_cached infos) w7))"
    using x6 x7 by (simp add: finish_create_def)
  show ?thesis
  proof (cases "ok \<and> r7 = None")
    case False
    then have "\<exists>w'. finish_create e infos v = Some w' \<and> db w' = db v \<and> cc w' = cc v \<and> payments w' = payments v" using eq C x7
      by (auto simp: rollback_def next_tick_def same_frame_def elim: commit_cases split: option.splits)
    then show ?thesis using same by blast
  next
    case True
    then have "w7 = next_tick w6" using x7 by (auto elim: commit_cases)
    then show ?thesis using True eq C
      by (intro paid [of "upd_cache (deduct_cached infos) w7"]) (simp_all add: next_tick_def same_frame_def upd_cache_def)
  qed
qed

text \<open>Before that: the payable accounts are read and the statements prepared.\<close>

lemma createTransactions_attempt:
  obtains (stop) v where "createTransactions e w = Some v" "db v = db w" "cc v = cc w" "payments v = payments w"
    | (finish) v infos now where "db v = db w" "cc v = cc w" "payments v = payments w" "infos \<noteq> []" "createTransactions e w = finish_create e infos v"
        "sql_pending_infos (MinerTxFee (ev_cfg e)) (i64 (MinimumPayout (ev_cfg e) + MinerTxFee (ev_cfg e))) now (db w) = Inr infos"
proof -
  let ?now = "sql_now (time_now e w)"
  let ?q = "sql_pending_infos (MinerTxFee (ev_cfg e)) (i64 (MinimumPayout (ev_cfg e) + MinerTxFee (ev_cfg e))) ?now"
  obtain w1 r1 where x1: "query e ?q w = (w1, r1)" by (metis surj_pair)
  have w1: "w1 = next_tick w" using x1 by (rule query_next)
  obtain w2 r2 where x2: "begin_tx e w1 = (w2, r2)" by (metis surj_pair)
  obtain w3 r3 where x3: "prepare e w2 = (w3, r3)" by (metis surj_pair)
  obtain w4 r4 where x4: "prepare e w3 = (w4, r4)" by (metis surj_pair)
  obtain w5 r5 where x5: "prepare e w4 = (w5, r5)" by (metis surj_pair)
  have ws: "w2 = next_tick w1" "w3 = next_tick w2" "w4 = next_tick w3" "w5 = next_tick w4"
    using x2 x3 x4 x5 by (simp_all add: begin_tx_next prepare_next)
  have sel: "\<And>v. v \<in> {w1, w2, w3, w4, w5} \<Longrightarrow> db v = db w \<and> cc v = cc w \<and> payments v = payments w"
    by (auto simp: ws w1 next_tick_def)
  have d15: "db w1 = db w5" by (simp add: ws next_tick_def)
  have eq: "createTransactions e w = (case r1 of Inl err \<Rightarrow> Some w1 | Inr infos \<Rightarrow>
      if length infos = 0 then Some w1 else (case r2 of Some err \<Rightarrow> Some w2 | None \<Rightarrow> (case r3 of Some err \<Rightarrow> Some w3 | None \<Rightarrow>
        (case r4 of Some err \<Rightarrow> Some w4 | None \<Rightarrow> (case r5 of Some err \<Rightarrow> Some w5 | None \<Rightarrow> finish_create e infos w5)))))"
    by (simp only: createTransactions_def finish_create_def Let_def x1 x2 x3 x4 x5 prod.case d15)
  show ?thesis
  proof (cases "\<exists>infos. r1 = Inr infos \<and> infos \<noteq> [] \<and> r2 = None \<and> r3 = None \<and> r4 = None \<and> r5 = None")
    case False
    then have "\<exists>v \<in> {w1, w2, w3, w4, w5}. createTransactions e w = Some v"
      unfolding eq by (cases r1; cases r2; cases r3; cases r4; cases r5) (simp_all split: if_splits)
    then show ?thesis using stop sel by blast
  next
    case True
    then obtain infos where r: "r1 = Inr infos" "infos \<noteq> []" "r2 = None" "r3 = None" "r4 = None" "r5 = None" by blast
    have "?q (db w) = Inr infos" using query_Inr [OF x1 [unfolded r(1)]] by simp
    moreover have "createTransactions e w = finish_create e infos w5" using r by (simp add: eq)
    moreover have "db w5 = db w" "cc w5 = cc w" "payments w5 = payments w" by (simp_all add: ws w1 next_tick_def)
    ultimately show ?thesis using finish r(2) by blast
  qed
qed

text \<open>
  All runs of \<open>createTransactions\<close>: it returns, and either the database is unchanged or the payable
  accounts, as the query found them, are paid.
\<close>

lemma createTransactions_cases:
  assumes "distinct (account_ids (db w))"
  obtains (same) w' where "createTransactions e w = Some w'" "db w' = db w" "cc w' = cc w" "payments w' = payments w"
    | (paid) w' infos now where "createTransactions e w = Some w'" "infos \<noteq> []" "payments w' = payments w"
        "sql_pending_infos (MinerTxFee (ev_cfg e)) (i64 (MinimumPayout (ev_cfg e) + MinerTxFee (ev_cfg e))) now (db w) = Inr infos"
        "paid (ev_cfg e) infos (db w) (db w')" "cc w' = deduct_cached infos (cc w)"
proof (cases rule: createTransactions_attempt [of e w])
  case (finish v infos now)
  have d: "distinct (account_ids (db v))" "\<forall>f \<in> set infos. piID f \<in> set (account_ids (db v))"
    using finish(6) assms by (auto simp: sql_pending_infos_def account_ids_def finish(1) split: if_splits)
  show ?thesis by (cases rule: finish_create_cases [OF d, of e]) (use that finish in auto)
qed (use that(1) in auto)

section \<open>Conservation of money\<close>

lemma payable_infos:
  assumes "sql_pending_infos fee mn now d = Inr infos"
  shows "length infos \<le> length (account d)" "\<forall>f \<in> set infos. \<exists>a \<in> set (account d).
      piID f = aID a \<and> piPending f = aPending a \<and> payable fee mn now a"
    "distinct (account_ids d) \<Longrightarrow> distinct (map piID infos)"
proof -
  have i: "infos = map (\<lambda>a. \<lparr>piID = aID a, piPayoutInterval = aInterval a, piPending = aPending a\<rparr>)
      (filter (payable fee mn now) (account d))"
    using assms by (simp add: sql_pending_infos_def split: if_splits)
  show "length infos \<le> length (account d)" by (simp add: i)
  show "\<forall>f \<in> set infos. \<exists>a \<in> set (account d).
      piID f = aID a \<and> piPending f = aPending a \<and> payable fee mn now a" by (force simp: i)
  show "distinct (map piID infos)" if "distinct (account_ids d)"
    using that by (simp add: i account_ids_def comp_def distinct_map inj_on_def)
qed

lemma payments_total:
  assumes "\<forall>f \<in> set infos. is_i64 (piPending f - fee)"
  shows "sum_list (map (\<lambda>f. i64 (piPending f - fee)) infos) =
    sum_list (map piPending infos) - int (length infos) * fee"
  using assms by (induction infos) (simp_all add: algebra_simps)

lemma small_product: "0 \<le> x \<Longrightarrow> x < 2 ^ 40 \<Longrightarrow> n < 2 ^ 20 \<Longrightarrow> 0 \<le> int n * x \<and> int n * x < 2 ^ 60"
  using mult_strict_mono [of "int n" "2 ^ 20" x "2 ^ 40"] by simp

lemma fee_gain_exact:
  assumes "0 \<le> MinerTxFee cfg" "MinerTxFee cfg < 2 ^ 40" "0 \<le> PoolTxFee cfg" "PoolTxFee cfg < 2 ^ 40"
    and "length infos < 2 ^ 20"
  shows "fee_gain cfg infos = int (length infos) * MinerTxFee cfg -
    int (number_of_txs (length infos)) * PoolTxFee cfg"
proof -
  let ?n = "length infos" and ?k = "number_of_txs (length infos)"
  define A B where AB: "A = int ?n * MinerTxFee cfg" "B = int ?k * PoolTxFee cfg"
  have "?k < 2 ^ 20" using number_of_txs_le [of ?n] assms(5) by simp
  then have "0 \<le> A" "A < 2 ^ 60" "0 \<le> B" "B < 2 ^ 60"
    using small_product [of "MinerTxFee cfg" ?n] small_product [of "PoolTxFee cfg" ?k] assms
    unfolding AB by blast+
  then have "is_i64 A" "is_i64 B" "is_i64 (A - B)" by (simp_all add: is_i64_def)
  then show ?thesis unfolding fee_gain_def AB [symmetric] by simp
qed

text \<open>What one run records: the new payments, their transactions, and where the money comes from.\<close>

definition recorded :: "Config \<Rightarrow> recipient_row list \<Rightarrow> database \<Rightarrow> database \<Rightarrow> bool" where
  "recorded cfg new d d' \<longleftrightarrow> transaction_recipient d' = transaction_recipient d @ new \<and>
     length (transaction d') = length (transaction d) + number_of_txs (length new) \<and> (new = [] \<longrightarrow> d' = d) \<and>
     total_pending d' + sum_list (map pAmount new) + int (number_of_txs (length new)) * PoolTxFee cfg = total_pending d \<and>
     (\<forall>r \<in> set new. pRecipient r \<in> set (account_ids d') \<and> pTx r \<in> tID ` set (transaction d') \<and> next_tx d \<le> pTx r)"

lemma pay_rows_length: "length (pay_rows ids fee nxt i infos) = length infos"
  by (induction ids fee nxt i infos rule: pay_rows.induct) simp_all

lemma pay_rows_recipient: "r \<in> set (pay_rows ids fee nxt i infos) \<Longrightarrow> pRecipient r \<in> piID ` set infos"
  by (induction ids fee nxt i infos rule: pay_rows.induct) auto

lemma no_txs: "number_of_txs 0 = 0"
  by (simp add: number_of_txs_def)

lemma createTransactions_books:
  assumes "distinct (account_ids (db w))" and "FeeAccountID (ev_cfg e) \<in> set (account_ids (db w))"
    and "\<And>now a. a \<in> set (account (db w)) \<Longrightarrow>
      payable (MinerTxFee (ev_cfg e)) (i64 (MinimumPayout (ev_cfg e) + MinerTxFee (ev_cfg e))) now a \<Longrightarrow> is_i64 (aPending a - MinerTxFee (ev_cfg e))"
    and "length (account (db w)) < 2 ^ 20"
    and "0 \<le> MinerTxFee (ev_cfg e)" and "MinerTxFee (ev_cfg e) < 2 ^ 40"
    and "0 \<le> PoolTxFee (ev_cfg e)" and "PoolTxFee (ev_cfg e) < 2 ^ 40"
  shows "\<exists>w' new. createTransactions e w = Some w' \<and> payments w' = payments w \<and> recorded (ev_cfg e) new (db w) (db w')"
  using assms(1)
proof (cases rule: createTransactions_cases [where e = e])
  case (same w')
  then have "recorded (ev_cfg e) [] (db w) (db w')" by (simp add: recorded_def no_txs)
  with same show ?thesis by blast
next
  case (paid w' infos now)
  let ?k = "number_of_txs (length infos)" and ?M = "MinerTxFee (ev_cfg e)" and ?ids = "new_ids (db w) (number_of_txs (length infos))"
  let ?new = "pay_rows ?ids ?M (next_recipient (db w)) 0 infos"
  note Q = payable_infos [OF paid(4)] and P = paid(5) [unfolded paid_def Let_def]
  have n: "length infos < 2 ^ 20" using Q(1) assms(4) by simp
  have "\<forall>f \<in> set infos. is_i64 (piPending f - ?M)" using Q(2) assms(3) by fastforce
  then have total: "total_pending (db w') + sum_list (map pAmount ?new) + int ?k * PoolTxFee (ev_cfg e) = total_pending (db w)"
    using P payments_total [of infos ?M] fee_gain_exact [OF assms(5-8) n] assms(2) by (simp add: pay_rows_total)
  have ne: "?new \<noteq> []" using paid(2) pay_rows_length by (metis length_0_conv)
  have len: "length (transaction (db w')) = length (transaction (db w)) + ?k"
    using P by (metis length_append length_map new_ids_simps(1))
  have "pTx r \<in> tID ` set (transaction (db w')) \<and> next_tx (db w) \<le> pTx r \<and> pRecipient r \<in> set (account_ids (db w'))"
    if r: "r \<in> set ?new" for r
  proof -
    have "pTx r \<in> set ?ids" using pay_rows_tx [OF r] number_of_txs_enough by simp
    moreover have "set ?ids \<subseteq> tID ` set (transaction (db w'))" using P by (metis set_append set_map Un_upper2)
    moreover obtain f where "f \<in> set infos" "pRecipient r = piID f" using pay_rows_recipient [OF r] by blast
    then have "pRecipient r \<in> set (account_ids (db w'))" using Q(2) P by (force simp: account_ids_def)
    ultimately show ?thesis using new_ids_fresh by blast
  qed
  then have "recorded (ev_cfg e) ?new (db w) (db w')"
    using P total ne len unfolding recorded_def by (simp add: pay_rows_length)
  with paid(1,3) show ?thesis by blast
qed

text \<open>C4.
  No money is created or lost when pending amounts are turned into transactions, whichever
  statement of the transaction fails: what the accounts have pending plus what the recorded
  transactions pay out falls by exactly the network fee for each new transaction (so nothing
  changes at all when none is created), nothing is sent yet, and the code does not panic.
\<close>

theorem createTransactions_conserves:
  assumes "distinct (account_ids (db w))" and "FeeAccountID (ev_cfg e) \<in> set (account_ids (db w))"
    and "\<forall>a \<in> set (account (db w)). \<bar>aPending a\<bar> < 2 ^ 62" and "length (account (db w)) < 2 ^ 20"
    and "0 \<le> MinerTxFee (ev_cfg e)" and "MinerTxFee (ev_cfg e) < 2 ^ 40"
    and "0 \<le> PoolTxFee (ev_cfg e)" and "PoolTxFee (ev_cfg e) < 2 ^ 40"
  shows "\<exists>w' k. createTransactions e w = Some w' \<and> payments w' = payments w \<and>
    length (transaction (db w')) = length (transaction (db w)) + k \<and> (k = 0 \<longrightarrow> db w' = db w) \<and>
    total_pending (db w') + total_payments (db w') + int k * PoolTxFee (ev_cfg e) =
      total_pending (db w) + total_payments (db w)"
proof -
  have "is_i64 (aPending a - MinerTxFee (ev_cfg e))" if "a \<in> set (account (db w))" for a
  proof -
    have "\<bar>aPending a\<bar> < 2 ^ 62" using assms(3) that by simp
    then have "- (2 ^ 62) < aPending a" "aPending a < 2 ^ 62" by linarith+
    then show ?thesis using assms(5,6) unfolding is_i64_def by simp
  qed
  then obtain w' new where "createTransactions e w = Some w'" "payments w' = payments w" "recorded (ev_cfg e) new (db w) (db w')"
    using createTransactions_books [OF assms(1,2) _ assms(4-8)] by blast
  then show ?thesis using number_of_txs_pos [of "length new"]
    by (intro exI [of _ w'] exI [of _ "number_of_txs (length new)"]) (auto simp: recorded_def total_payments_def)
qed

end
