(* ===== verification/Sending.thy ===== *)
theory Sending
  imports PayoutProofs
begin

text \<open>
  The tables of the payments: what every operation of \<open>Payout\<close> keeps of them, that no transaction
  ever has more recipients than the network accepts, that money is sent once, and that a payout
  returns.
\<close>

section \<open>Cascading deletes\<close>

lemma filter_all_kept: "length (filter P xs) = length xs \<Longrightarrow> filter P xs = xs"
  by (metis length_filter_less less_irrefl filter_True)

lemma cascade_round_le:
  "length (nonce_submission (cascade_round d)) \<le> length (nonce_submission d)"
  "length (block (cascade_round d)) \<le> length (block d)" "length (miner (cascade_round d)) \<le> length (miner d)"
  "length (transaction (cascade_round d)) \<le> length (transaction d)"
  "length (transaction_recipient (cascade_round d)) \<le> length (transaction_recipient d)"
  by (simp_all add: cascade_round_def)

lemma cascade_round_kept:
  "length (nonce_submission (cascade_round d)) = length (nonce_submission d) \<Longrightarrow>
    nonce_submission (cascade_round d) = nonce_submission d"
  "length (block (cascade_round d)) = length (block d) \<Longrightarrow> block (cascade_round d) = block d"
  "length (miner (cascade_round d)) = length (miner d) \<Longrightarrow> miner (cascade_round d) = miner d"
  "length (transaction (cascade_round d)) = length (transaction d) \<Longrightarrow>
    transaction (cascade_round d) = transaction d"
  "length (transaction_recipient (cascade_round d)) = length (transaction_recipient d) \<Longrightarrow>
    transaction_recipient (cascade_round d) = transaction_recipient d"
  by (simp_all add: cascade_round_def filter_all_kept)

lemma cascade_round_others:
  "account (cascade_round d) = account d" "next_submission (cascade_round d) = next_submission d"
  "next_tx (cascade_round d) = next_tx d" "next_recipient (cascade_round d) = next_recipient d"
  "database.more (cascade_round d) = database.more d"
  by (simp_all add: cascade_round_def)

lemma cascade_round_shrinks: "cascade_round d = d \<or> row_count (cascade_round d) < row_count d"
proof (cases "row_count d \<le> row_count (cascade_round d)")
  case True
  then have "length (nonce_submission (cascade_round d)) = length (nonce_submission d)"
    "length (block (cascade_round d)) = length (block d)" "length (miner (cascade_round d)) = length (miner d)"
    "length (transaction (cascade_round d)) = length (transaction d)"
    "length (transaction_recipient (cascade_round d)) = length (transaction_recipient d)"
    using cascade_round_le [of d] unfolding row_count_def by linarith+
  then show ?thesis
    using cascade_round_kept [of d] cascade_round_others [of d] by (intro disjI1 database.equality) blast+
qed simp

text \<open>After \<open>row_count\<close> rounds no row with a missing reference is left.\<close>

lemma cascade_fixpoint: "cascade_round (cascade d) = cascade d"
proof -
  have "cascade_round ((cascade_round ^^ n) d) = (cascade_round ^^ n) d" if "row_count d \<le> n" for n
    using that
  proof (induction n arbitrary: d)
    case 0
    then show ?case using cascade_round_shrinks [of d] by auto
  next
    case (Suc n)
    show ?case
    proof (cases "cascade_round d = d")
      case True
      then have "(cascade_round ^^ k) d = d" for k by (induction k) simp_all
      then show ?thesis using True by metis
    next
      case False
      then have "row_count (cascade_round d) \<le> n" using cascade_round_shrinks [of d] Suc.prems by simp
      from Suc.IH [OF this] show ?thesis by (simp add: funpow_swap1)
    qed
  qed
  then show ?thesis unfolding cascade_def by blast
qed

lemma cascade_preserves:
  assumes "P d" "\<And>d. P d \<Longrightarrow> P (cascade_round d)"
  shows "P (cascade d)"
proof -
  have "P ((cascade_round ^^ n) d)" for n using assms by (induction n) auto
  then show ?thesis by (simp add: cascade_def)
qed

section \<open>The invariant of the payment tables\<close>

definition tx_ids :: "database \<Rightarrow> int64 list" where
  "tx_ids d = map tID (transaction d)"

definition recipients_of :: "int64 \<Rightarrow> database \<Rightarrow> recipient_row list" where
  "recipients_of t d = filter (\<lambda>r. pTx r = t) (transaction_recipient d)"

definition batches_ok :: "database \<Rightarrow> bool" where
  "batches_ok d \<longleftrightarrow> distinct (account_ids d) \<and> distinct (tx_ids d) \<and> (\<forall>t \<in> set (tx_ids d). t < next_tx d) \<and>
     (\<forall>t. length (recipients_of t d) \<le> MaxMultiRecipients)"

definition payout_inv :: "database \<Rightarrow> bool" where
  "payout_inv d \<longleftrightarrow> batches_ok d \<and> (\<forall>r \<in> set (transaction_recipient d). pTx r \<in> set (tx_ids d))"

lemma batches_ok_cascade_round: "batches_ok d \<Longrightarrow> batches_ok (cascade_round d)"
proof -
  assume b: "batches_ok d"
  have "recipients_of t (cascade_round d) = filter (\<lambda>r. has_account (pRecipient r) d \<and>
      pTx r \<in> tID ` set (transaction d)) (recipients_of t d)" for t
    by (simp add: recipients_of_def cascade_round_def conj_commute)
  then have "length (recipients_of t (cascade_round d)) \<le> length (recipients_of t d)" for t by simp
  then have "\<forall>t. length (recipients_of t (cascade_round d)) \<le> MaxMultiRecipients"
    using b unfolding batches_ok_def by (meson order_trans)
  then show ?thesis
    using b by (auto simp: batches_ok_def account_ids_def tx_ids_def cascade_round_def distinct_map_filter)
qed

lemma payout_inv_cascade: "batches_ok d \<Longrightarrow> payout_inv (cascade d)"
proof -
  assume "batches_ok d"
  then have b: "batches_ok (cascade d)" by (rule cascade_preserves) (rule batches_ok_cascade_round)
  let ?d = "cascade d"
  have "transaction_recipient ?d = filter (\<lambda>r. has_account (pRecipient r) ?d \<and> pTx r \<in> tID ` set (transaction ?d))
      (transaction_recipient ?d)"
    using arg_cong [OF cascade_fixpoint [of d], of transaction_recipient] by (simp add: cascade_round_def)
  then have "\<forall>r \<in> set (transaction_recipient ?d). pTx r \<in> tID ` set (transaction ?d)"
    by (metis (mono_tags, lifting) mem_Collect_eq set_filter)
  then show ?thesis using b by (simp add: payout_inv_def tx_ids_def)
qed

text \<open>A statement that keeps ids and recipients keeps the invariant.\<close>

lemma payout_inv_frame:
  "payout_inv d \<Longrightarrow> account_ids d' = account_ids d \<Longrightarrow> tx_ids d' = tx_ids d \<Longrightarrow> next_tx d' = next_tx d \<Longrightarrow>
    transaction_recipient d' = transaction_recipient d \<Longrightarrow> payout_inv d'"
  by (simp add: payout_inv_def batches_ok_def recipients_of_def)

section \<open>New transactions\<close>

lemma paid_inv:
  assumes "paid cfg infos d d'" "payout_inv d"
  shows "payout_inv d'"
proof -
  let ?k = "number_of_txs (length infos)"
  let ?ids = "new_ids d ?k"
  let ?rows = "pay_rows ?ids (MinerTxFee cfg) (next_recipient d) 0 infos"
  have P: "account_ids d' = account_ids d" "transaction_recipient d' = transaction_recipient d @ ?rows"
    "tx_ids d' = tx_ids d @ ?ids" "next_tx d' = next_tx d + int ?k"
    using assms(1) by (simp_all add: paid_def Let_def tx_ids_def)
  have old: "t < next_tx d" if "t \<in> set (tx_ids d)" for t
    using assms(2) that by (simp add: payout_inv_def batches_ok_def)
  have idx: "\<forall>j < 0 + length infos. j div MaxMultiRecipients < length ?ids" by (simp add: number_of_txs_enough)
  have rows: "pTx r \<in> set ?ids" if "r \<in> set ?rows" for r using pay_rows_tx [OF that idx] .
  have "length (recipients_of t d') \<le> MaxMultiRecipients" for t
  proof (cases "t \<in> set ?ids")
    case True
    then obtain q where q: "q < ?k" "t = ?ids ! q" by (metis in_set_conv_nth new_ids_simps(1))
    have "recipients_of t d = []"
      using True new_ids_fresh old assms(2) by (fastforce simp: recipients_of_def filter_empty_conv payout_inv_def)
    then have "recipients_of t d' = filter (\<lambda>r. pTx r = ?ids ! q) ?rows"
      using P(2) q(2) by (simp add: recipients_of_def)
    then show ?thesis
      using pay_rows_count [of ?ids 0 infos q "MinerTxFee cfg" "next_recipient d"] batch_card [of 0 "length infos" q] idx q(1)
      by simp
  next
    case False
    then have "recipients_of t d' = recipients_of t d"
      using P(2) rows by (auto simp: recipients_of_def filter_empty_conv)
    then show ?thesis using assms(2) by (simp add: payout_inv_def batches_ok_def)
  qed
  moreover have "distinct (tx_ids d @ ?ids)"
    using assms(2) old new_ids_fresh by (fastforce simp: payout_inv_def batches_ok_def)
  moreover have "t < next_tx d'" if "t \<in> set (tx_ids d @ ?ids)" for t
    using that old new_ids_fresh [of t d ?k] by (fastforce simp: P(4))
  ultimately show ?thesis
    using assms(2) rows by (auto simp: payout_inv_def batches_ok_def P(1-3))
qed

lemma pay_rows_map: "map (\<lambda>r. (pRecipient r, pAmount r)) (pay_rows ids fee nxt i infos) =
    map (\<lambda>f. (piID f, i64 (piPending f - fee))) infos"
  by (induction ids fee nxt i infos rule: pay_rows.induct) simp_all

text \<open>C20.
  When transactions are created, every payable account receives exactly one payment, of what it
  had pending less the transaction fee; the payments are spread over new transactions, and no
  transaction has more recipients than the network accepts.
\<close>

theorem createTransactions_batches:
  assumes "payout_inv (db w)" and "createTransactions e w = Some w'" and "db w' \<noteq> db w"
  shows "payout_inv (db w') \<and> (\<exists>rows now. transaction_recipient (db w') = transaction_recipient (db w) @ rows \<and>
    distinct (map pRecipient rows) \<and>
    set (map (\<lambda>r. (pRecipient r, pAmount r)) rows) =
      (\<lambda>a. (aID a, i64 (aPending a - MinerTxFee (ev_cfg e)))) ` {a \<in> set (account (db w)).
        payable (MinerTxFee (ev_cfg e)) (i64 (MinimumPayout (ev_cfg e) + MinerTxFee (ev_cfg e))) now a} \<and>
    (\<forall>r \<in> set rows. pTx r \<in> set (tx_ids (db w')) - set (tx_ids (db w))))"
proof -
  have d: "distinct (account_ids (db w))" using assms(1) by (simp add: payout_inv_def batches_ok_def)
  then show ?thesis
  proof (cases rule: createTransactions_cases [where e = e])
    case (same w'')
    then show ?thesis using assms by simp
  next
    case (paid w'' infos now)
    let ?k = "number_of_txs (length infos)" and ?fee = "MinerTxFee (ev_cfg e)"
    let ?ids = "new_ids (db w) ?k"
    let ?rows = "pay_rows ?ids ?fee (next_recipient (db w)) 0 infos"
    have w'': "w'' = w'" using paid(1) assms(2) by simp
    have P: "transaction_recipient (db w') = transaction_recipient (db w) @ ?rows"
      "tx_ids (db w') = tx_ids (db w) @ ?ids"
      using paid(5) by (simp_all add: w'' paid_def Let_def tx_ids_def)
    have m: "map pRecipient ?rows = map piID infos"
      using arg_cong [OF pay_rows_map, of "map fst"] by (simp add: comp_def)
    have "infos = map (\<lambda>a. \<lparr>piID = aID a, piPayoutInterval = aInterval a, piPending = aPending a\<rparr>)
        (filter (payable ?fee (i64 (MinimumPayout (ev_cfg e) + ?fee)) now) (account (db w)))"
      using paid(4) by (simp add: sql_pending_infos_def split: if_splits)
    then have i: "set (map (\<lambda>r. (pRecipient r, pAmount r)) ?rows) = (\<lambda>a. (aID a, i64 (aPending a - ?fee))) `
        {a \<in> set (account (db w)). payable ?fee (i64 (MinimumPayout (ev_cfg e) + ?fee)) now a}"
      unfolding pay_rows_map by (simp add: image_image)
    have "pTx r \<in> set ?ids" if "r \<in> set ?rows" for r
      using that by (rule pay_rows_tx) (simp add: number_of_txs_enough)
    moreover have "t \<notin> set (tx_ids (db w))" if "t \<in> set ?ids" for t
      using new_ids_fresh [OF that] assms(1) by (fastforce simp: payout_inv_def batches_ok_def)
    moreover have "distinct (map pRecipient ?rows)" unfolding m using payable_infos(3) [OF paid(4) d] .
    ultimately show ?thesis
      using paid_inv [OF paid(5) assms(1)] P i by (intro conjI exI [of _ ?rows] exI [of _ now]) (auto simp: w'')
  qed
qed

lemma createTransactions_inv:
  assumes "payout_inv (db w)"
  shows "\<exists>w'. createTransactions e w = Some w' \<and> payout_inv (db w') \<and> payments w' = payments w"
proof -
  have "distinct (account_ids (db w))" using assms by (simp add: payout_inv_def batches_ok_def)
  then show ?thesis
    by (cases rule: createTransactions_cases [where e = e]) (auto simp: assms intro: paid_inv)
qed

section \<open>Confirming transactions\<close>

text \<open>Without failures of the database a \<open>MustExec\<close> of a statement that cannot fail itself goes through.\<close>

definition healthy :: "env \<Rightarrow> bool" where
  "healthy e \<longleftrightarrow> (\<forall>t. \<not> ev_fault e t)"

definition uses_wallets :: "env \<Rightarrow> bool" where
  "uses_wallets e \<longleftrightarrow> (\<forall>t. \<exists>secret ws. ev_wallet e t = walletHandler (ev_cfg e) secret ws)"

lemma mustExec_healthy: "healthy e \<Longrightarrow> st (db w) = Inr d \<Longrightarrow> mustExec e st w = Some ((next_tick w)\<lparr>db := d\<rparr>)"
  by (simp add: mustExec_Some healthy_def)

lemma upd_where_tIDs: "(\<And>t. tID (f t) = tID t) \<Longrightarrow> map tID (upd_where P f ts) = map tID ts"
  by (simp add: upd_where_def)

lemma sql_forget_tx_id_inv: "payout_inv d \<Longrightarrow> \<exists>d'. sql_forget_tx_id tx d = Inr d' \<and> payout_inv d'"
  by (simp add: sql_forget_tx_id_def)
    (erule payout_inv_frame, simp_all add: account_ids_def tx_ids_def upd_where_tIDs)

lemma sql_set_tx_id_inv: "payout_inv d \<Longrightarrow> \<exists>d'. sql_set_tx_id tx now t d = Inr d' \<and> payout_inv d'"
  by (simp add: sql_set_tx_id_def)
    (erule payout_inv_frame, simp_all add: account_ids_def tx_ids_def upd_where_tIDs)

lemma sql_confirm_tx_inv:
  assumes "payout_inv d"
  shows "\<exists>d'. sql_confirm_tx h tx d = Inr d' \<and> payout_inv d'"
proof (cases "has_block h d")
  case True
  then show ?thesis
    by (simp add: sql_confirm_tx_def)
      (rule payout_inv_frame [OF assms], simp_all add: account_ids_def tx_ids_def upd_where_tIDs)
next
  case False
  have "batches_ok (d\<lparr>transaction := filter (\<lambda>r. tTxID r \<noteq> Some tx) (transaction d)\<rparr>)"
    using assms
    by (auto simp: payout_inv_def batches_ok_def account_ids_def tx_ids_def recipients_of_def distinct_map_filter)
  then show ?thesis using False by (simp add: sql_confirm_tx_def payout_inv_cascade)
qed

lemma validate_each_inv:
  assumes "healthy e" "payout_inv (db w)"
  shows "\<exists>w'. validate_each e txs w = Some w' \<and> payout_inv (db w')"
  using assms(2)
proof (induction txs arbitrary: w)
  case (Cons tx txs)
  obtain w1 q r where x: "ask e (\<lambda>h. hTransaction h tx) w = (w1, q, r)" by (metis surj_pair)
  have d1: "db w1 = db w" using ask_next [OF x] by simp
  show ?case
  proof (cases q)
    case False
    then show ?thesis using x Cons d1 by simp
  next
    case True
    obtain d2 where d2: "(case r of Inl err \<Rightarrow> sql_forget_tx_id tx (db w1)
        | Inr txInfo \<Rightarrow> sql_confirm_tx (gtHeight txInfo) tx (db w1)) = Inr d2" "payout_inv d2"
      using sql_forget_tx_id_inv sql_confirm_tx_inv Cons.prems d1 by (cases r) (metis sum.case)+
    then have "validate_each e (tx # txs) w = validate_each e txs ((next_tick w1)\<lparr>db := d2\<rparr>)"
      using x True by (cases r) (simp_all add: mustExec_healthy [OF assms(1)])
    then show ?thesis using Cons.IH [of "(next_tick w1)\<lparr>db := d2\<rparr>"] d2(2) by simp
  qed
qed simp

lemma validateTransactions_inv:
  assumes "healthy e" "payout_inv (db w)"
  shows "\<exists>w'. validateTransactions e w = Some w' \<and> payout_inv (db w')"
proof -
  obtain w1 r where x: "query e (sql_unconfirmed (sql_now (time_now e w))) w = (w1, r)" by (metis surj_pair)
  then have "db w1 = db w" using query_next by fastforce
  then show ?thesis
    using x validate_each_inv [OF assms(1), of w1] assms(2) by (cases r) (simp_all add: validateTransactions_def)
qed

section \<open>Sending\<close>

lemma amounts_map: "length (fold (\<lambda>(i, a). AList.update i a) rs m) \<le> length rs + length m"
proof (induction rs arbitrary: m)
  case (Cons r rs)
  obtain i a where r: "r = (i, a)" by (metis surj_pair)
  have "length (AList.update i a m) \<le> Suc (length m)" by (induction m) auto
  then show ?case using Cons.IH [of "AList.update i a m"] r by simp
qed simp

lemma send_tx_total:
  assumes "uses_wallets e" "length rs \<le> MaxMultiRecipients"
  shows "\<exists>w' r. send_tx e rs w = Some (w', r) \<and> w' = next_tick w"
proof (cases "length rs = 1")
  case True
  then show ?thesis by (simp add: send_tx_def ask_def)
next
  case False
  obtain secret ws where h: "ev_wallet e (tick w) = walletHandler (ev_cfg e) secret ws"
    using assms(1) unfolding uses_wallets_def by blast
  let ?m = "fold (\<lambda>(i, a). AList.update i a) rs []"
  have "length ?m \<le> MaxMultiRecipients" using amounts_map [of rs "[]"] assms(2) by simp
  then have "EncodeRecipients ?m \<noteq> None" by (simp add: EncodeRecipients_def Let_def)
  then have "hSendPayments (walletHandler (ev_cfg e) secret ws) ?m \<noteq> None"
    by (auto simp: walletHandler_def whSendPayments_def Let_def split: option.splits sum.splits)
  then show ?thesis using False h by (auto simp: send_tx_def ask_def)
qed

text \<open>
  \<open>sends_once d d' ps\<close>: the payments \<open>ps\<close> are made to the recipients that \<open>d\<close> records, one per
  transaction; \<open>d'\<close> marks exactly these transactions as sent and is otherwise unchanged.
\<close>

definition sends_once :: "database \<Rightarrow> database \<Rightarrow> (int64 \<times> (uint64 \<times> int64) list \<times> uint64) list \<Rightarrow> bool" where
  "sends_once d d' ps \<longleftrightarrow> distinct (map fst ps) \<and>
     (\<forall>(t, rs, i) \<in> set ps. rs = map (\<lambda>r. (pRecipient r, pAmount r)) (recipients_of t d)) \<and>
     account d' = account d \<and> transaction_recipient d' = transaction_recipient d \<and>
     tx_ids d' = tx_ids d \<and> next_tx d' = next_tx d \<and>
     (\<forall>r \<in> set (transaction d'). (\<exists>rs i. (tID r, rs, i) \<in> set ps \<and> tTxID r = Some i) \<or>
       r \<in> set (transaction d) \<and> tID r \<notin> fst ` set ps)"

lemma sends_once_refl: "sends_once d d []"
  by (simp add: sends_once_def)

lemma sends_once_Cons:
  assumes "sends_once (d\<lparr>transaction := upd_where (\<lambda>r. tID r = t) (\<lambda>r. r\<lparr>tTxID := Some i, tCreated := now\<rparr>)
      (transaction d)\<rparr>) d' ps"
    and "t \<notin> fst ` set ps"
  shows "sends_once d d' ((t, map (\<lambda>r. (pRecipient r, pAmount r)) (recipients_of t d), i) # ps)"
proof -
  let ?d = "d\<lparr>transaction := upd_where (\<lambda>r. tID r = t) (\<lambda>r. r\<lparr>tTxID := Some i, tCreated := now\<rparr>) (transaction d)\<rparr>"
  have rows: "r \<in> set (transaction d) \<and> tID r \<noteq> t \<or> tID r = t \<and> tTxID r = Some i"
    if "r \<in> set (transaction ?d)" for r
    using that by (auto simp: upd_where_def split: if_splits)
  have ids: "tx_ids ?d = tx_ids d" by (simp add: tx_ids_def upd_where_tIDs)
  have rec: "recipients_of s ?d = recipients_of s d" for s by (simp add: recipients_of_def)
  have "(\<exists>rs j. (tID r, rs, j) \<in> set ((t, map (\<lambda>r. (pRecipient r, pAmount r)) (recipients_of t d), i) # ps) \<and> tTxID r = Some j) \<or>
      r \<in> set (transaction d) \<and> tID r \<notin> insert t (fst ` set ps)" if "r \<in> set (transaction d')" for r
  proof -
    have "(\<exists>rs j. (tID r, rs, j) \<in> set ps \<and> tTxID r = Some j) \<or> r \<in> set (transaction ?d) \<and> tID r \<notin> fst ` set ps"
      using assms(1) that unfolding sends_once_def by blast
    then show ?thesis using rows [of r] by auto
  qed
  then show ?thesis using assms ids rec by (simp add: sends_once_def)
qed

lemma send_each_once:
  assumes "send_each e txs w = Some w'" "distinct txs"
  shows "\<exists>ps. payments w' = payments w @ ps \<and> fst ` set ps \<subseteq> set txs \<and> sends_once (db w) (db w') ps"
  using assms
proof (induction txs arbitrary: w)
  case Nil
  then show ?case by (intro exI [of _ "[]"]) (simp add: sends_once_refl)
next
  case (Cons t txs)
  obtain w1 r1 where x1: "query e (sql_recipients t) w = (w1, r1)" by (metis surj_pair)
  have w1: "w1 = next_tick w" using query_next [OF x1] .
  have skip: ?case if "send_each e txs v = Some w'" "db v = db w" "payments v = payments w" for v
    using Cons.IH [OF that(1)] Cons.prems(2) that(2,3) by auto
  show ?case
  proof (cases r1)
    case (Inl err)
    then show ?thesis using skip [of w1] Cons.prems(1) x1 w1 by (simp add: next_tick_def)
  next
    case (Inr rs)
    then have rs: "rs = map (\<lambda>r. (pRecipient r, pAmount r)) (recipients_of t (db w))"
      using query_Inr [OF x1 [unfolded Inr]] by (simp add: sql_recipients_def recipients_of_def)
    from Cons.prems(1) x1 Inr obtain w2 r2 where x2: "send_tx e rs w1 = Some (w2, r2)"
      and rest: "(case r2 of Inl err \<Rightarrow> send_each e txs w2 | Inr txID \<Rightarrow>
          do { w \<leftarrow> mustExec e (sql_set_tx_id txID (sql_now (time_now e (w2\<lparr>payments := payments w2 @ [(t, rs, txID)]\<rparr>))) t)
                 (w2\<lparr>payments := payments w2 @ [(t, rs, txID)]\<rparr>); send_each e txs w }) = Some w'"
      by (auto simp: bind_eq_Some_conv Let_def)
    have w2: "db w2 = db w" "payments w2 = payments w"
      using x2 w1 by (auto simp: send_tx_def next_tick_def dest!: ask_next split: if_splits prod.splits option.splits)
    show ?thesis
    proof (cases r2)
      case (Inl err)
      then show ?thesis using skip [of w2] rest w2 by simp
    next
      case (Inr i)
      let ?w3 = "w2\<lparr>payments := payments w2 @ [(t, rs, i)]\<rparr>"
      obtain w4 where x4: "mustExec e (sql_set_tx_id i (sql_now (time_now e ?w3)) t) ?w3 = Some w4"
        and rest: "send_each e txs w4 = Some w'"
        using rest Inr by (auto simp: bind_eq_Some_conv Let_def)
      have w4: "db w4 = (db w)\<lparr>transaction := upd_where (\<lambda>r. tID r = t)
          (\<lambda>r. r\<lparr>tTxID := Some i, tCreated := sql_now (time_now e ?w3)\<rparr>) (transaction (db w))\<rparr>"
        "payments w4 = payments w @ [(t, rs, i)]"
        using x4 w2 by (auto simp: mustExec_Some sql_set_tx_id_def next_tick_def)
      obtain ps where ps: "payments w' = payments w4 @ ps" "fst ` set ps \<subseteq> set txs" "sends_once (db w4) (db w') ps"
        using Cons.IH [OF rest] Cons.prems(2) by auto
      have "t \<notin> fst ` set ps" using ps(2) Cons.prems(2) by auto
      from sends_once_Cons [OF ps(3) [unfolded w4(1)] this]
      show ?thesis using ps(1,2) w4(2) rs by (intro exI [of _ "(t, rs, i) # ps"]) auto
    qed
  qed
qed


lemma send_each_total:
  assumes "healthy e" "uses_wallets e" "payout_inv (db w)"
  shows "\<exists>w'. send_each e txs w = Some w' \<and> payout_inv (db w')"
  using assms(3)
proof (induction txs arbitrary: w)
  case (Cons t txs)
  have ih: "\<exists>w'. send_each e txs v = Some w' \<and> payout_inv (db w')" if "payout_inv (db v)" for v
    using Cons.IH [OF that] .
  obtain w1 r1 where x1: "query e (sql_recipients t) w = (w1, r1)" by (metis surj_pair)
  have w1: "db w1 = db w" using query_next [OF x1] by simp
  show ?case
  proof (cases r1)
    case (Inl err)
    then show ?thesis using x1 ih [of w1] Cons.prems w1 by simp
  next
    case (Inr rs)
    then have "rs = map (\<lambda>r. (pRecipient r, pAmount r)) (recipients_of t (db w))"
      using query_Inr [OF x1 [unfolded Inr]] by (simp add: sql_recipients_def recipients_of_def)
    then have "length rs \<le> MaxMultiRecipients" using Cons.prems by (simp add: payout_inv_def batches_ok_def)
    then obtain r2 where x2: "send_tx e rs w1 = Some (next_tick w1, r2)" using send_tx_total [OF assms(2)] by metis
    show ?thesis
    proof (cases r2)
      case (Inl err)
      then show ?thesis using x1 Inr x2 ih [of "next_tick w1"] Cons.prems w1 by simp
    next
      case (Inr i)
      let ?w3 = "(next_tick w1)\<lparr>payments := payments (next_tick w1) @ [(t, rs, i)]\<rparr>"
      from sql_set_tx_id_inv [OF Cons.prems, of i "sql_now (time_now e ?w3)" t]
      obtain d where d0: "sql_set_tx_id i (sql_now (time_now e ?w3)) t (db w) = Inr d" "payout_inv d" by blast
      then have d: "sql_set_tx_id i (sql_now (time_now e ?w3)) t (db ?w3) = Inr d" "payout_inv d"
        by (simp_all add: w1)
      show ?thesis
        using x1 \<open>r1 = Inr rs\<close> x2 Inr d(1)
          mustExec_healthy [of e "sql_set_tx_id i (sql_now (time_now e ?w3)) t" ?w3 d, OF assms(1)] ih [of "(next_tick ?w3)\<lparr>db := d\<rparr>"] d(2)
        by (simp add: Let_def)
    qed
  qed
qed simp

text \<open>C17.
  A payout returns: as long as the database accepts the statements, and with the wallets behind the
  wallet handler answering whatever they like, no step of a payout panics, because no transaction
  ever has more recipients than \<open>EncodeRecipients\<close> accepts; and the payment tables stay well formed.
\<close>

theorem Payout_returns:
  assumes "payout_inv (db w)" and "healthy e" and "uses_wallets e"
  shows "\<exists>w'. Payout e w = Some w' \<and> payout_inv (db w')"
proof -
  obtain w1 where w1: "createTransactions e w = Some w1" "payout_inv (db w1)"
    using createTransactions_inv [OF assms(1)] by blast
  obtain w2 where w2: "validateTransactions e w1 = Some w2" "payout_inv (db w2)"
    using validateTransactions_inv [OF assms(2) w1(2)] by blast
  obtain w3 r where x: "query e sql_unsent w2 = (w3, r)" by (metis surj_pair)
  then have "db w3 = db w2" using query_next by fastforce
  then have "\<exists>w'. sendMoney e w2 = Some w' \<and> payout_inv (db w')"
    using x w2(2) send_each_total [OF assms(2,3), of w3] by (cases r) (simp_all add: sendMoney_def)
  then show ?thesis using w1(1) w2(1) by (simp add: Payout_def)
qed

section \<open>A run\<close>

definition sample_pay_env :: env where
  "sample_pay_env = sample_env\<lparr>ev_wallet := (\<lambda>t. walletHandler (ev_cfg sample_env) ''secret''
     [(''http://127.0.0.1:8125'', sample_wallet 100000)])\<rparr>"

lemma sample_pay: "ev_cfg sample_pay_env = ev_cfg sample_env" "healthy sample_pay_env" "uses_wallets sample_pay_env"
  by (auto simp: sample_pay_env_def healthy_def uses_wallets_def sample_env_def)

lemma sample_cfg: "MinerTxFee (ev_cfg sample_env) = 5000000" "PoolTxFee (ev_cfg sample_env) = 10000000"
  "MinimumPayout (ev_cfg sample_env) = 25000000000" "FeeAccountID (ev_cfg sample_env) = 7"
  by (simp_all add: sample_env_def with_defaults_def example_config_def)

lemma sample_payout_inv: "payout_inv (db sample_world)"
  by (simp add: payout_inv_def batches_ok_def account_ids_def tx_ids_def recipients_of_def sample_world_def sample_db_def)

lemma sample_infos: "sql_pending_infos 5000000 25005000000 now (db sample_world) =
    Inr [\<lparr>piID = 77, piPayoutInterval = None, piPending = 30000000000\<rparr>]"
  by (simp add: sql_pending_infos_def payable_def sample_world_def sample_db_def)

lemma sample_exec: "exec sample_env st w = (case st (db w) of Inl err \<Rightarrow> (next_tick w, Some err)
   | Inr d \<Rightarrow> ((next_tick w)\<lparr>db := d\<rparr>, None))"
  by (simp add: exec_def sample_env_def Let_def)

lemma sample_same: "exec sample_env Inr w = (next_tick w, None)"
  by (simp add: sample_exec next_tick_def)

lemma sample_query: "query sample_env q w = (next_tick w, q (db w))"
  by (simp add: query_def sample_env_def)

lemma sample_created:
  "\<exists>w'. createTransactions sample_env sample_world = Some w' \<and> transaction (db w') \<noteq> []"
proof -
  let ?infos = "[\<lparr>piID = 77, piPayoutInterval = None, piPending = 30000000000\<rparr>]"
  let ?w = "next_tick (next_tick (next_tick (next_tick (next_tick sample_world))))"
  have "\<exists>w'. create_in_tx sample_env ?infos ?w = Some (w', True) \<and> transaction (db w') \<noteq> []"
    by (simp add: create_in_tx_def number_of_txs_def MaxMultiRecipients_def sample_exec sql_insert_tx_def
        update_next_date_def sql_add_pending_def sql_insert_recipient_def)
      (simp add: sample_world_def sample_db_def upd_where_def has_account_def is_i64_def sample_cfg)
  then show ?thesis
    by (auto simp: createTransactions_def sample_query sample_cfg is_i64_def sample_infos begin_tx_def prepare_def
        sample_same commit_def Let_def)
qed

theorem createTransactions_conserves_witness:
  "\<exists>w' k. createTransactions sample_env sample_world = Some w' \<and>
    total_pending (db w') + total_payments (db w') + int k * 10000000 = 30000000000"
proof -
  have "distinct (account_ids (db sample_world))" "FeeAccountID (ev_cfg sample_env) \<in> set (account_ids (db sample_world))"
    "\<forall>a \<in> set (account (db sample_world)). \<bar>aPending a\<bar> < 2 ^ 62" "length (account (db sample_world)) < 2 ^ 20"
    "total_pending (db sample_world) + total_payments (db sample_world) = 30000000000"
    by (simp_all add: sample_cfg sample_world_def sample_db_def account_ids_def total_pending_def total_payments_def)
  with createTransactions_conserves [of sample_world sample_env] show ?thesis by (auto simp: sample_cfg)
qed

theorem createTransactions_batches_witness:
  "\<exists>w' rows. createTransactions sample_env sample_world = Some w' \<and> payout_inv (db w') \<and>
    transaction_recipient (db w') = rows \<and> distinct (map pRecipient rows)"
proof -
  obtain w' where w': "createTransactions sample_env sample_world = Some w'" "transaction (db w') \<noteq> []"
    using sample_created by blast
  then have "db w' \<noteq> db sample_world" by (auto simp: sample_world_def sample_db_def)
  from createTransactions_batches [OF sample_payout_inv w'(1) this] w'(1) show ?thesis
    by (auto simp: sample_world_def sample_db_def)
qed

definition sample_unsent :: world where
  "sample_unsent = sample_world\<lparr>db := sample_db\<lparr>transaction := [\<lparr>tID = 1, tTxID = None, tHeight = None, tCreated = 0\<rparr>],
     transaction_recipient := [\<lparr>pID = 1, pTx = 1, pRecipient = 77, pAmount = 29995000000\<rparr>], next_tx := 2\<rparr>\<rparr>"

lemma sample_unsent_inv: "payout_inv (db sample_unsent)"
  by (simp add: payout_inv_def batches_ok_def account_ids_def tx_ids_def recipients_of_def sample_unsent_def
      sample_db_def MaxMultiRecipients_def)

lemma sample_sent: "\<exists>w'. sendMoney sample_env sample_unsent = Some w' \<and> payments w' = [(1, [(77, 29995000000)], 4711)]"
proof -
  have "ev_wallet sample_env t = sample_handler" for t by (simp add: sample_env_def)
  then show ?thesis
    by (simp add: sendMoney_def sample_query sql_unsent_def sample_unsent_def sample_db_def sql_recipients_def
        send_tx_def ask_def sample_handler_def mustExec_def sample_exec sql_set_tx_id_def next_tick_def)
      (simp add: sample_world_def)
qed


theorem Payout_returns_witness: "\<exists>w'. Payout sample_pay_env sample_unsent = Some w' \<and> payout_inv (db w')"
  by (rule Payout_returns [OF sample_unsent_inv sample_pay(2,3)])

end
