(* ===== verification/Startup.thy ===== *)
theory Startup
  imports RoundsProofs
begin

text \<open>
  The start of the pool: \<open>NewModelX\<close> with the loading of the current block and the filling of the cache
  from the database. Opening the connections and running the migrations is not modelled; \<open>None\<close> is
  \<open>Logger.Fatal\<close> or a panic.
\<close>

section \<open>The current block\<close>

text \<open>
  Scanning a row fails if the winner's id does not fit the signed \<open>sql.NullInt64\<close>; the row counts as
  missing then.
\<close>

definition block_of_row :: "block_row \<Rightarrow> Block" where
  "block_of_row k = zero_Block\<lparr>bHeight := kHeight k, bBaseTarget := kBaseTarget k, bScoop := kScoop k,
     bGenerationSignature := kGenSig k, bWinnerVerified := kVerified k,
     bWinnerID := map_option uint (kWinner k), bReward := kReward k, bBestNonceSubmissionID := kBest k,
     bCreated := kCreated k, bGenerationTime := kGenTime k\<rparr>"

definition scans :: "block_row \<Rightarrow> bool" where
  "scans k \<longleftrightarrow> (case kWinner k of None \<Rightarrow> True | Some i \<Rightarrow> uint i < 2 ^ 63)"

definition loadCurrentBlock :: "env \<Rightarrow> world \<Rightarrow> (world \<times> bool) option" where
  "loadCurrentBlock e w =
     (case query e sql_latest_block w of
        (w, Inl err) \<Rightarrow> Some (w, False)
      | (w, Inr k) \<Rightarrow>
          if \<not> scans k then Some (w, False)
          else (case DecodeGeneratorSignature (kGenSig k) of
             Inl err \<Rightarrow> None
           | Inr genSigBytes \<Rightarrow> Some (upd_cache (StoreCurrentBlock (ev_cfg e)
               ((block_of_row k)\<lparr>bGenerationSignatureBytes := genSigBytes\<rparr>)) w, True)))"

section \<open>The miners\<close>

definition load_deadline :: "uint64 \<Rightarrow> DeadlineParams \<Rightarrow> Miner \<Rightarrow> Miner" where
  "load_deadline currentHeight dp m =
     (let r = length (mStore m);
          m1 = m\<lparr>mStore := mStore m @ [dp]\<rparr>;
          m2 = (if dpHeight dp \<noteq> currentHeight
            then m1\<lparr>DeadlinesParams := AList.update (dpHeight dp) r (DeadlinesParams m1),
              WeightedDeadlineSum := fadd (WeightedDeadlineSum m1) (weightDeadline (dpDeadline dp) (dpBaseTarget dp))\<rparr>
            else m1)
      in if CurrentBlockHeight m2 < dpHeight dp then m2\<lparr>CurrentDeadlineParams := Some r\<rparr> else m2)"

definition cached_or_new :: "Miner \<Rightarrow> cache \<Rightarrow> nat \<times> cache" where
  "cached_or_new m c = (case GetMiner (mID m) c of
     Some p \<Rightarrow> (p, c)
   | None \<Rightarrow> (let (p, c) = new_miner_object m c in (p, snd (LoadOrStoreMiner p c))))"

definition cache_submission :: "uint64 \<Rightarrow> submissionData \<Rightarrow> cache \<Rightarrow> cache" where
  "cache_submission currentHeight sd c =
     (let (p, c) = cached_or_new (sdMiner sd) c
      in map_miner p (load_deadline currentHeight
           \<lparr>dpDeadline = sdDeadline sd, dpBaseTarget = sdBaseTarget sd, dpHeight = sdHeight sd\<rparr>) c)"

text \<open>An error of the query for the fast blocks is overwritten before it is looked at.\<close>

definition add_blocks :: "Config \<Rightarrow> int32 \<Rightarrow> uint64 list \<Rightarrow> cache \<Rightarrow> cache" where
  "add_blocks cfg generationTime hs c = fold (\<lambda>h c. fst (AddBlock cfg h generationTime c)) hs c"

definition cacheMiners :: "env \<Rightarrow> world \<Rightarrow> world option" where
  "cacheMiners e w =
     (let cfg = ev_cfg e in
      case query e (sql_slow_heights (TMin cfg) (NAVG cfg + 1)) w of
        (w, Inl err) \<Rightarrow> None
      | (w, Inr slowBlockHeights) \<Rightarrow>
          if length slowBlockHeights = 0 then Some w
          else (case query e (sql_fast_heights (TMin cfg) (NAVG cfg)) w of (w, r) \<Rightarrow>
            let fastBlockHeights = (case r of Inl err \<Rightarrow> [] | Inr hs \<Rightarrow> hs);
                w = upd_cache (add_blocks cfg (i32 (TMin cfg + 1)) (tl slowBlockHeights)) w;
                w = upd_cache (add_blocks cfg 0 fastBlockHeights) w
            in (case query e (sql_submissions_on (ev_date_text e) slowBlockHeights) w of
                 (w, Inl err) \<Rightarrow> None
               | (w, Inr sds) \<Rightarrow> Some (upd_cache (fold (cache_submission (hd slowBlockHeights)) sds) w))))"

section \<open>Start\<close>

definition createFeeAccount :: "env \<Rightarrow> world \<Rightarrow> world option" where
  "createFeeAccount e w = do {
     address \<leftarrow> Encode (FeeAccountID (ev_cfg e));
     mustExec e (sql_insert_account (FeeAccountID (ev_cfg e)) address None) w }"

definition NewModelX :: "env \<Rightarrow> world \<Rightarrow> world option" where
  "NewModelX e w = do {
     w \<leftarrow> (if FeeAccountID (ev_cfg e) \<noteq> 0 then createFeeAccount e w else Some w);
     (w, loaded) \<leftarrow> loadCurrentBlock e w;
     if loaded then do { w \<leftarrow> cacheMiners e w; Some (cacheRewardRecipients e w) }
     else (case ask e hMiningInfo w of
         (w, Inl err) \<Rightarrow> None
       | (w, Inr miningInfo) \<Rightarrow>
           (case newBlock e (miBaseTarget miningInfo) (miGenerationSignature miningInfo) (miHeight miningInfo) w of
              None \<Rightarrow> None
            | Some (w, Some err) \<Rightarrow> None
            | Some (w, None) \<Rightarrow> Some w)) }"

section \<open>Loading one submission\<close>

lemma load_deadline_ID [simp]: "mID (load_deadline cur dp m) = mID m"
  by (simp add: load_deadline_def Let_def)

lemma load_deadline_wf:
  assumes "miner_wf m" "map_of (DeadlinesParams m) (dpHeight dp) = None"
  shows "miner_wf (load_deadline cur dp m)"
proof -
  have st: "mStore (load_deadline cur dp m) = mStore m @ [dp]" by (simp add: load_deadline_def Let_def)
  have DP: "DeadlinesParams (load_deadline cur dp m) = (if dpHeight dp \<noteq> cur
      then DeadlinesParams m @ [(dpHeight dp, length (mStore m))] else DeadlinesParams m)"
    using update_new [OF assms(2)] by (simp add: load_deadline_def Let_def)
  have cu: "CurrentDeadlineParams (load_deadline cur dp m) \<in> {CurrentDeadlineParams m, Some (length (mStore m))}"
    by (simp add: load_deadline_def Let_def)
  have "r < length (mStore m @ [dp]) \<and> dpHeight ((mStore m @ [dp]) ! r) = h"
    if "(h, r) \<in> set (DeadlinesParams (load_deadline cur dp m))" for h r
    using that assms(1) by (auto simp: DP miner_wf_def nth_append less_Suc_eq split: if_splits)
  moreover have "distinct (map fst (DeadlinesParams (load_deadline cur dp m)))"
    using assms by (simp add: DP miner_wf_def map_of_eq_None_iff)
  moreover have "r < length (mStore m @ [dp])" if "CurrentDeadlineParams (load_deadline cur dp m) = Some r" for r
    using cu that assms(1) by (auto simp: miner_wf_def less_Suc_eq)
  ultimately show ?thesis by (simp add: miner_wf_def st)
qed

text \<open>The current deadline of a miner is also in the window, unless it is on the newest height.\<close>

definition current_in_window :: "uint64 \<Rightarrow> Miner \<Rightarrow> bool" where
  "current_in_window cur m \<longleftrightarrow> CurrentBlockHeight m \<le> cur \<and>
     (\<forall>r. CurrentDeadlineParams m = Some r \<longrightarrow> dpHeight (dp_at m r) \<noteq> cur \<longrightarrow>
        map_of (DeadlinesParams m) (dpHeight (dp_at m r)) = Some r)"

lemma load_deadline_sel:
  assumes "miner_wf m" "dpHeight dp \<noteq> 0"
  shows "CurrentBlockHeight (load_deadline cur dp m) = max (CurrentBlockHeight m) (dpHeight dp)"
    "CurrentDeadlineParams (load_deadline cur dp m) =
       (if CurrentBlockHeight m < dpHeight dp then Some (length (mStore m)) else CurrentDeadlineParams m)"
    "map_of (DeadlinesParams (load_deadline cur dp m)) h =
       (if h = dpHeight dp \<and> h \<noteq> cur then Some (length (mStore m)) else map_of (DeadlinesParams m) h)"
    "mStore (load_deadline cur dp m) = mStore m @ [dp]"
proof -
  have b: "\<forall>r \<in> set_option (CurrentDeadlineParams m). r < length (mStore m)" using assms(1) by (simp add: miner_wf_def)
  then have cb: "CurrentBlockHeight (m\<lparr>mStore := mStore m @ [dp], DeadlinesParams := x, WeightedDeadlineSum := y\<rparr>) = CurrentBlockHeight m"
    "CurrentBlockHeight (m\<lparr>mStore := mStore m @ [dp]\<rparr>) = CurrentBlockHeight m" for x y
    by (auto simp: CurrentBlockHeight_def dp_at_def nth_append split: option.splits)
  show c: "CurrentDeadlineParams (load_deadline cur dp m) =
      (if CurrentBlockHeight m < dpHeight dp then Some (length (mStore m)) else CurrentDeadlineParams m)"
    by (simp add: load_deadline_def Let_def cb)
  show st: "mStore (load_deadline cur dp m) = mStore m @ [dp]" by (simp add: load_deadline_def Let_def)
  show "map_of (DeadlinesParams (load_deadline cur dp m)) h =
      (if h = dpHeight dp \<and> h \<noteq> cur then Some (length (mStore m)) else map_of (DeadlinesParams m) h)"
    by (simp add: load_deadline_def Let_def update_conv')
  show "CurrentBlockHeight (load_deadline cur dp m) = max (CurrentBlockHeight m) (dpHeight dp)"
  proof (cases "CurrentBlockHeight m < dpHeight dp")
    case True
    then have "CurrentBlockHeight (load_deadline cur dp m) = dpHeight dp"
      by (simp add: CurrentBlockHeight_def [of "load_deadline cur dp m"] c st dp_at_def)
    then show ?thesis using True by (simp add: max_absorb2 less_imp_le)
  next
    case False
    then have "CurrentBlockHeight (load_deadline cur dp m) = CurrentBlockHeight m"
      using b by (auto simp: CurrentBlockHeight_def c st dp_at_def nth_append split: option.splits)
    then show ?thesis using False by (simp add: max_def)
  qed
qed

lemma CurrentBlockHeight_pos: "0 < CurrentBlockHeight m \<Longrightarrow> CurrentDeadlineParams m \<noteq> None"
  by (auto simp: CurrentBlockHeight_def split: option.splits)

lemma dp_at_append:
  "r < length (mStore m) \<Longrightarrow> mStore m' = mStore m @ [dp] \<Longrightarrow> dp_at m' r = dp_at m r"
  by (simp add: dp_at_def nth_append)

lemma load_deadline_adds:
  assumes wf: "miner_wf m" and win: "current_in_window cur m"
    and h: "dpHeight dp \<noteq> 0" "dpHeight dp \<le> cur"
    and fresh: "deadline_on (dpHeight dp) m = None"
  shows "deadline_on h (load_deadline cur dp m) =
      (if h = dpHeight dp then Some (dpDeadline dp) else deadline_on h m)" (is ?on)
    and "current_in_window cur (load_deadline cur dp m)" (is ?win)
proof -
  let ?m = "load_deadline cur dp m" and ?H = "dpHeight dp" and ?n = "length (mStore m)"
  note sel = load_deadline_sel [OF wf h(1), of cur]
  have new: "dp_at ?m ?n = dp" by (simp add: dp_at_def sel(4))
  have old: "dp_at ?m r = dp_at m r" if "r < ?n" for r using that by (rule dp_at_append) (simp add: sel(4))
  have lt: "CurrentDeadlineParams m = Some r \<Longrightarrow> r < ?n" "map_of (DeadlinesParams m) k = Some r \<Longrightarrow> r < ?n" for r k
    using wf by (auto simp: miner_wf_def dest: map_of_SomeD)
  have ne: "CurrentBlockHeight m \<noteq> ?H"
  proof
    assume "CurrentBlockHeight m = ?H"
    moreover from this have "CurrentDeadlineParams m \<noteq> None" using CurrentBlockHeight_pos h(1) word_gt_0 by metis
    ultimately show False using fresh by (simp add: deadline_on_def)
  qed
  have cbh: "CurrentBlockHeight m \<le> cur" using win by (simp add: current_in_window_def)
  have stays: "map_of (DeadlinesParams m) (dpHeight (dp_at m r)) = Some r"
    if "CurrentDeadlineParams m = Some r" "dpHeight (dp_at m r) \<noteq> cur" for r
    using win that by (simp add: current_in_window_def)
  have cur_h: "CurrentBlockHeight m = dpHeight (dp_at m r)" if "CurrentDeadlineParams m = Some r" for r
    using that by (simp add: CurrentBlockHeight_def)
  have dl: "CurrentDeadline m = dpDeadline (dp_at m r)" if "CurrentDeadlineParams m = Some r" for r
    using that by (simp add: CurrentDeadline_def)
  have nofresh: "map_of (DeadlinesParams m) ?H = None"
    using fresh ne by (simp add: deadline_on_def split: if_splits)
  show ?on
  proof (cases "CurrentBlockHeight m < ?H")
    case True
    then have cs: "CurrentDeadlineParams ?m = Some ?n" "CurrentBlockHeight ?m = ?H" "CurrentDeadline ?m = dpDeadline dp"
      using sel(1,2) new by (simp_all add: max_absorb2 less_imp_le CurrentDeadline_def)
    have "deadline_on h ?m = deadline_on h m" if "h \<noteq> ?H"
    proof -
      have "deadline_on h ?m = map_option (\<lambda>r. dpDeadline (dp_at m r)) (map_of (DeadlinesParams m) h)"
        using cs that sel(3) [of h] lt(2) old by (auto simp: deadline_on_def intro!: option.map_cong)
      also have "\<dots> = deadline_on h m"
      proof (cases "CurrentDeadlineParams m")
        case (Some r)
        then show ?thesis using stays [OF Some] cur_h [OF Some] dl [OF Some] True h(2) by (auto simp: deadline_on_def)
      qed (simp add: deadline_on_def)
      finally show ?thesis .
    qed
    then show ?thesis using cs by (simp add: deadline_on_def)
  next
    case False
    then have gt: "?H < CurrentBlockHeight m" using ne by simp
    then obtain r where r: "CurrentDeadlineParams m = Some r" using CurrentBlockHeight_pos word_gt_0
      by (metis not_less_iff_gr_or_eq option.exhaust word_not_simps(1))
    have cs: "CurrentDeadlineParams ?m = Some r" "CurrentBlockHeight ?m = CurrentBlockHeight m"
      "CurrentDeadline ?m = CurrentDeadline m"
      using sel(1,2) False r gt old [OF lt(1) [OF r]]
      by (simp_all add: max_absorb1 less_imp_le CurrentDeadline_def)
    have "?H \<noteq> cur" using gt cbh by simp
    then show ?thesis using cs r gt sel(3) [of h] new old lt(2)
      by (auto simp: deadline_on_def intro!: option.map_cong)
  qed
  show ?win
  proof (cases "CurrentBlockHeight m < ?H")
    case True
    then show ?thesis using sel(1,2) sel(3) [of ?H] new h(2) by (auto simp: current_in_window_def max_absorb2 less_imp_le)
  next
    case False
    then have le: "CurrentBlockHeight ?m = CurrentBlockHeight m" using sel(1) by (simp add: max_absorb1)
    have "map_of (DeadlinesParams ?m) (dpHeight (dp_at ?m r)) = Some r"
      if "CurrentDeadlineParams ?m = Some r" "dpHeight (dp_at ?m r) \<noteq> cur" for r
    proof -
      have r: "CurrentDeadlineParams m = Some r" using that(1) sel(2) False by simp
      then show ?thesis using that(2) old [OF lt(1) [OF r]] stays [OF r] sel(3) ne cur_h [OF r] by auto
    qed
    then show ?thesis using le cbh by (simp add: current_in_window_def)
  qed
qed

section \<open>Loading all submissions\<close>

text \<open>The deadline an account has in the cache on a height, and in a list of loaded submissions.\<close>

definition cached_deadline :: "cache \<Rightarrow> uint64 \<Rightarrow> uint64 \<Rightarrow> uint64 option" where
  "cached_deadline c i h = (case GetMiner i c of None \<Rightarrow> None | Some p \<Rightarrow> deadline_on h (miner_at c p))"

definition submission_entry :: "submissionData \<Rightarrow> (uint64 \<times> uint64) \<times> uint64" where
  "submission_entry sd = ((mID (sdMiner sd), sdHeight sd), sdDeadline sd)"

definition windows_ok :: "uint64 \<Rightarrow> cache \<Rightarrow> bool" where
  "windows_ok cur c \<longleftrightarrow> (\<forall>i p. GetMiner i c = Some p \<longrightarrow> current_in_window cur (miner_at c p))"

definition fresh_miner :: "Miner \<Rightarrow> bool" where
  "fresh_miner m \<longleftrightarrow> mStore m = [] \<and> CurrentDeadlineParams m = None \<and> DeadlinesParams m = []"

lemma fresh_miner_facts:
  assumes "fresh_miner m"
  shows "miner_wf m" "deadline_on h m = None" "current_in_window cur m"
  using assms by (simp_all add: fresh_miner_def miner_wf_def deadline_on_def current_in_window_def CurrentBlockHeight_def)

lemma GetMiner_pointer:
  assumes "cache_inv cfg c" "GetMiner i c = Some p"
  shows "p < length (heap c)" "mID (miner_at c p) = i" "miner_wf (miner_at c p)"
  using assms by (auto simp: cache_inv_def miners_wf_def GetMiner_def miner_at_def dest: map_of_SomeD)

lemma GetMiner_inj:
  "cache_inv cfg c \<Longrightarrow> GetMiner i c = Some p \<Longrightarrow> GetMiner j c = Some q \<Longrightarrow> p = q \<longleftrightarrow> i = j"
  by (metis GetMiner_pointer(2) option.inject)

lemma GetMiner_map_miner [simp]: "GetMiner i (map_miner p f c) = GetMiner i c"
  by (simp add: GetMiner_def map_miner_def)

lemma cached_or_new_ok:
  assumes inv: "cache_inv cfg c" and fresh: "fresh_miner m" and win: "windows_ok cur c"
    and x: "cached_or_new m c = (p, c')"
  shows "cache_inv cfg c'" "GetMiner (mID m) c' = Some p" "windows_ok cur c'"
    "cached_deadline c' i h = cached_deadline c i h"
proof -
  have "cache_inv cfg c' \<and> GetMiner (mID m) c' = Some p \<and> windows_ok cur c' \<and>
      cached_deadline c' i h = cached_deadline c i h"
  proof (cases "GetMiner (mID m) c")
    case None
    then have p: "p = length (heap c)" and c': "c' = c\<lparr>heap := heap c @ [m], miners := AList.update (mID m) p (miners c)\<rparr>"
      using x by (auto simp: cached_or_new_def new_miner_object_def LoadOrStoreMiner_def miner_at_def GetMiner_def)
    have "c' = snd (LoadOrStoreMiner p (snd (new_miner_object m c)))"
      using x None by (simp add: cached_or_new_def new_miner_object_def p Let_def)
    moreover have "cache_inv cfg (snd (new_miner_object m c))"
      using inv fresh_miner_facts(1) [OF fresh] by (rule new_miner_object_inv)
    ultimately have i1: "cache_inv cfg c'"
      using LoadOrStoreMiner_inv [of cfg "snd (new_miner_object m c)" p] by (simp add: new_miner_object_def p)
    have get: "GetMiner j c' = (if j = mID m then Some p else GetMiner j c)" for j
      by (simp add: GetMiner_def c' update_conv')
    have at: "miner_at c' q = miner_at c q" if "GetMiner j c = Some q" for j q
      using GetMiner_pointer(1) [OF inv that] by (simp add: miner_at_def c' nth_append)
    have atp: "miner_at c' p = m" by (simp add: miner_at_def c' p)
    have "windows_ok cur c'" using win fresh_miner_facts(3) [OF fresh] at atp
      by (auto simp: windows_ok_def get)
    moreover have "cached_deadline c' i h = cached_deadline c i h"
      using at atp None fresh_miner_facts(2) [OF fresh]
      by (cases "i = mID m"; cases "GetMiner i c") (simp_all add: cached_deadline_def get)
    ultimately show ?thesis using i1 get by simp
  qed (use x inv win in \<open>simp add: cached_or_new_def\<close>)
  then show "cache_inv cfg c'" "GetMiner (mID m) c' = Some p" "windows_ok cur c'"
    "cached_deadline c' i h = cached_deadline c i h" by simp_all
qed

lemma cache_submission_ok:
  assumes inv: "cache_inv cfg c" and win: "windows_ok cur c" and fresh: "fresh_miner (sdMiner sd)"
    and h: "sdHeight sd \<noteq> 0" "sdHeight sd \<le> cur"
    and first: "cached_deadline c (mID (sdMiner sd)) (sdHeight sd) = None"
  shows "cache_inv cfg (cache_submission cur sd c)" "windows_ok cur (cache_submission cur sd c)"
    "cached_deadline (cache_submission cur sd c) i k = (if (i, k) = fst (submission_entry sd)
       then Some (snd (submission_entry sd)) else cached_deadline c i k)"
proof -
  obtain p c' where x: "cached_or_new (sdMiner sd) c = (p, c')" by (metis surj_pair)
  note ok = cached_or_new_ok [OF inv fresh win x]
  define dp where "dp = \<lparr>dpDeadline = sdDeadline sd, dpBaseTarget = sdBaseTarget sd, dpHeight = sdHeight sd\<rparr>"
  have cs: "cache_submission cur sd c = map_miner p (load_deadline cur dp) c'"
    by (simp add: cache_submission_def x dp_def)
  note ptr = GetMiner_pointer [OF ok(1,2)]
  have none: "deadline_on (dpHeight dp) (miner_at c' p) = None"
    using first ok(4) [of "mID (sdMiner sd)" "sdHeight sd"] ok(2) by (simp add: cached_deadline_def dp_def)
  have add: "deadline_on k (load_deadline cur dp (miner_at c' p)) =
      (if k = dpHeight dp then Some (dpDeadline dp) else deadline_on k (miner_at c' p))" for k
    using load_deadline_adds(1) ptr(3) ok(2,3) h none by (simp add: windows_ok_def dp_def)
  have w1: "current_in_window cur (load_deadline cur dp (miner_at c' p))"
    using load_deadline_adds(2) ptr(3) ok(2,3) h none by (simp add: windows_ok_def dp_def)
  have wf1: "miner_wf (load_deadline cur dp (miner_at c' p))"
  proof (rule load_deadline_wf [OF ptr(3)])
    show "map_of (DeadlinesParams (miner_at c' p)) (dpHeight dp) = None"
      using none by (simp add: deadline_on_def split: if_splits)
  qed
  have at: "miner_at (cache_submission cur sd c) q =
      (if q = p then load_deadline cur dp (miner_at c' p) else miner_at c' q)" for q
    using ptr(1) by (simp add: cs map_miner_def miner_at_def nth_list_update)
  have get: "GetMiner j (cache_submission cur sd c) = GetMiner j c'" for j by (simp add: cs)
  show "cache_inv cfg (cache_submission cur sd c)"
    unfolding cs using ok(1) wf1 by (intro map_miner_inv) (simp_all add: miner_at_def)
  show "windows_ok cur (cache_submission cur sd c)"
    using ok(3) w1 by (auto simp: windows_ok_def get at)
  show "cached_deadline (cache_submission cur sd c) i k = (if (i, k) = fst (submission_entry sd)
       then Some (snd (submission_entry sd)) else cached_deadline c i k)"
  proof (cases "GetMiner i c'")
    case None
    then show ?thesis using ok(2) ok(4) [of i k] by (auto simp: cached_deadline_def get submission_entry_def)
  next
    case (Some q)
    then show ?thesis using ok(4) [of i k] add GetMiner_inj [OF ok(1) ok(2) Some]
      by (auto simp: cached_deadline_def get at submission_entry_def dp_def)
  qed
qed

lemma cache_submissions_ok:
  assumes "cache_inv cfg c" "windows_ok cur c" "\<forall>sd \<in> set sds. fresh_miner (sdMiner sd) \<and> sdHeight sd \<noteq> 0 \<and> sdHeight sd \<le> cur"
    and "distinct (map (fst \<circ> submission_entry) sds)"
    and "\<forall>sd \<in> set sds. cached_deadline c (mID (sdMiner sd)) (sdHeight sd) = None"
  shows "cache_inv cfg (fold (cache_submission cur) sds c)"
    "cached_deadline (fold (cache_submission cur) sds c) i k = (case map_of (map submission_entry sds) (i, k) of
       Some d \<Rightarrow> Some d | None \<Rightarrow> cached_deadline c i k)"
proof -
  have "cache_inv cfg (fold (cache_submission cur) sds c) \<and>
    cached_deadline (fold (cache_submission cur) sds c) i k = (case map_of (map submission_entry sds) (i, k) of
       Some d \<Rightarrow> Some d | None \<Rightarrow> cached_deadline c i k)"
    using assms
  proof (induction sds arbitrary: c)
    case (Cons sd sds)
    have sd: "fresh_miner (sdMiner sd)" "sdHeight sd \<noteq> 0" "sdHeight sd \<le> cur"
      "cached_deadline c (mID (sdMiner sd)) (sdHeight sd) = None" using Cons.prems by simp_all
    note ok = cache_submission_ok [OF Cons.prems(1,2) sd]
    have rest: "\<forall>x \<in> set sds. cached_deadline (cache_submission cur sd c) (mID (sdMiner x)) (sdHeight x) = None"
      using Cons.prems(4,5) by (auto simp: ok(3) submission_entry_def rev_image_eqI)
    have no: "map_of (map submission_entry sds) (fst (submission_entry sd)) = None"
      using Cons.prems(4) by (simp add: map_of_eq_None_iff image_comp)
    show ?case using Cons.IH [OF ok(1,2)] Cons.prems(3,4) rest no ok(3)
      by (cases "submission_entry sd") (auto split: option.splits)
  qed simp
  then show "cache_inv cfg (fold (cache_submission cur) sds c)"
    "cached_deadline (fold (cache_submission cur) sds c) i k = (case map_of (map submission_entry sds) (i, k) of
       Some d \<Rightarrow> Some d | None \<Rightarrow> cached_deadline c i k)" by simp_all
qed

section \<open>The rows that are loaded\<close>

text \<open>
  The keys and foreign keys of the schema that the loading relies on, and what the table of
  submissions says of an account on a height.
\<close>

definition submission_keys :: "database \<Rightarrow> bool" where
  "submission_keys d \<longleftrightarrow> distinct (map aID (account d)) \<and> distinct (map kHeight (block d)) \<and>
     distinct (map (\<lambda>s. (sMiner s, sHeight s)) (nonce_submission d)) \<and>
     list_all (\<lambda>s. sMiner s \<in> set (map aID (account d)) \<and> sHeight s \<in> set (map kHeight (block d))) (nonce_submission d)"

definition table_deadline :: "database \<Rightarrow> uint64 \<Rightarrow> uint64 \<Rightarrow> uint64 option" where
  "table_deadline d i h = map_of (map (\<lambda>s. ((sMiner s, sHeight s), sDeadline s)) (nonce_submission d)) (i, h)"

lemma filter_key: "distinct (map f xs) \<Longrightarrow> y \<in> set xs \<Longrightarrow> filter (\<lambda>x. f x = f y) xs = [y]"
proof (induction xs)
  case (Cons a xs)
  show ?case
  proof (cases "f a = f y")
    case True
    then have "a = y" "f y \<notin> f ` set xs" using Cons.prems by (auto simp: rev_image_eqI)
    then show ?thesis by (auto simp: filter_empty_conv rev_image_eqI)
  qed (use Cons in auto)
qed simp

lemma concat_map_if: "concat (map (\<lambda>x. if P x then [f x] else []) xs) = map f (filter P xs)"
  by (induction xs) simp_all

lemma loaded_entries:
  assumes "submission_keys d" "sql_submissions_on date_text hs d = Inr sds"
  shows "map submission_entry sds = map (\<lambda>s. ((sMiner s, sHeight s), sDeadline s))
      (filter (\<lambda>s. sHeight s \<in> set hs) (sort_key sHeight (nonce_submission d)))"
    and "\<forall>sd \<in> set sds. fresh_miner (sdMiner sd) \<and> sdHeight sd \<in> set hs"
proof -
  define row where "row s a k = \<lparr>sdMiner = (newMiner (aID a) (aAddress a) (case aName a of Some n \<Rightarrow> n | None \<Rightarrow> []) (aPending a))
          \<lparr>PayoutDetail := payout_detail date_text a\<rparr>,
        sdDeadline = sDeadline s, sdHeight = sHeight s, sdBaseTarget = kBaseTarget k\<rparr>" for s :: submission_row and a :: account_row and k :: block_row
  define rows where "rows s = concat (map (\<lambda>a. map (row s a) (filter (\<lambda>k. kHeight k = sHeight s \<and> kHeight k \<in> set hs) (block d)))
     (filter (\<lambda>a. aID a = sMiner s) (account d)))" for s
  have sds: "sds = concat (map rows (sort_key sHeight (nonce_submission d)))"
    using assms(2) by (simp add: sql_submissions_on_def rows_def [abs_def] row_def [abs_def])
  have e: "submission_entry (row s a k) = ((aID a, sHeight s), sDeadline s)" "fresh_miner (sdMiner (row s a k))" "sdHeight (row s a k) = sHeight s" for s a k
    by (simp_all add: submission_entry_def row_def newMiner_def fresh_miner_def)
  have one: "map submission_entry (rows s) = (if sHeight s \<in> set hs then [((sMiner s, sHeight s), sDeadline s)] else [])"
    if s: "s \<in> set (nonce_submission d)" for s
  proof -
    obtain a where a: "a \<in> set (account d)" "aID a = sMiner s"
      using assms(1) s by (auto simp: submission_keys_def list_all_iff)
    obtain k where k: "k \<in> set (block d)" "kHeight k = sHeight s"
      using assms(1) s by (fastforce simp: submission_keys_def list_all_iff)
    have fa: "filter (\<lambda>x. aID x = sMiner s) (account d) = [a]"
      using filter_key [of aID, OF _ a(1)] assms(1) a(2) by (simp add: submission_keys_def)
    have fk: "filter (\<lambda>x. kHeight x = sHeight s) (block d) = [k]"
      using filter_key [of kHeight, OF _ k(1)] assms(1) k(2) by (simp add: submission_keys_def)
    have "filter (\<lambda>x. kHeight x = sHeight s \<and> kHeight x \<in> set hs) (block d) =
        filter (\<lambda>x. kHeight x \<in> set hs) (filter (\<lambda>x. kHeight x = sHeight s) (block d))"
      by (simp add: conj_commute)
    also have "\<dots> = (if sHeight s \<in> set hs then [k] else [])" by (simp add: fk k(2))
    finally show ?thesis using a(2) by (simp add: rows_def fa e)
  qed
  have "map submission_entry sds = concat (map (\<lambda>s. map submission_entry (rows s)) (sort_key sHeight (nonce_submission d)))"
    by (simp add: sds map_concat comp_def)
  also have "\<dots> = concat (map (\<lambda>s. if sHeight s \<in> set hs then [((sMiner s, sHeight s), sDeadline s)] else [])
      (sort_key sHeight (nonce_submission d)))"
    using one by (intro arg_cong [where f = concat] map_cong) auto
  finally show "map submission_entry sds = map (\<lambda>s. ((sMiner s, sHeight s), sDeadline s))
      (filter (\<lambda>s. sHeight s \<in> set hs) (sort_key sHeight (nonce_submission d)))" by (simp add: concat_map_if)
  show "\<forall>sd \<in> set sds. fresh_miner (sdMiner sd) \<and> sdHeight sd \<in> set hs"
    by (auto simp: sds rows_def e)
qed

lemma option_ext: "(\<And>v. x = Some v \<longleftrightarrow> y = Some v) \<Longrightarrow> x = y"
  by (cases x; cases y) auto

lemma loaded_lookup:
  assumes "submission_keys d"
  shows "map_of (map (\<lambda>s. ((sMiner s, sHeight s), sDeadline s))
      (filter (\<lambda>s. sHeight s \<in> set hs) (sort_key sHeight (nonce_submission d)))) (i, h) =
    (if h \<in> set hs then table_deadline d i h else None)"
    and "distinct (map (\<lambda>s. (sMiner s, sHeight s))
      (filter (\<lambda>s. sHeight s \<in> set hs) (sort_key sHeight (nonce_submission d))))"
proof -
  let ?k = "\<lambda>s. (sMiner s, sHeight s)" and ?e = "\<lambda>s. ((sMiner s, sHeight s), sDeadline s)"
    and ?l = "filter (\<lambda>s. sHeight s \<in> set hs) (sort_key sHeight (nonce_submission d))"
  have dn: "distinct (nonce_submission d)" "inj_on ?k (set (nonce_submission d))"
    using assms by (simp_all add: submission_keys_def distinct_map)
  then show dl: "distinct (map ?k ?l)" by (auto simp: distinct_map inj_on_def)
  have mo: "map_of (map ?e xs) (i, h) = Some v \<longleftrightarrow> (\<exists>s \<in> set xs. ?e s = ((i, h), v))" if "distinct (map ?k xs)" for xs v
    using that by (subst map_of_eq_Some_iff) (auto simp: comp_def)
  have "distinct (map ?k (nonce_submission d))" using assms by (simp add: submission_keys_def)
  then have "map_of (map ?e ?l) (i, h) = Some v \<longleftrightarrow> (if h \<in> set hs then table_deadline d i h else None) = Some v" for v
    using dl by (auto simp: mo table_deadline_def)
  then show "map_of (map ?e ?l) (i, h) = (if h \<in> set hs then table_deadline d i h else None)"
    by (rule option_ext)
qed

lemma slow_heights_newest_first:
  assumes "sql_slow_heights t n d = Inr hs" "h \<in> set hs"
  shows "h \<le> hd hs"
proof -
  define ks where "ks = sort_key (\<lambda>k. - uint (kHeight k)) (filter (\<lambda>k. t \<le> kGenTime k) (block d))"
  have "sorted (map (\<lambda>k. - uint (kHeight k)) (take (nat n) ks))"
    using sorted_wrt_take [of "(\<le>)" "map (\<lambda>k. - uint (kHeight k)) ks" "nat n"] by (simp add: ks_def take_map)
  moreover have hs: "hs = map kHeight (take (nat n) ks)" using assms(1) by (simp add: sql_slow_heights_def ks_def take_map)
  ultimately show ?thesis using assms(2) by (cases "take (nat n) ks") (auto simp: word_le_def)
qed

lemma add_blocks_ok:
  "miners (add_blocks cfg t hs c) = miners c" "heap (add_blocks cfg t hs c) = heap c"
  "currentBlock (add_blocks cfg t hs c) = currentBlock c"
  "cache_inv cfg' c \<Longrightarrow> cache_inv cfg' (add_blocks cfg t hs c)"
  by (induction hs arbitrary: c) (simp_all add: add_blocks_def AddBlock_inv)

lemma cacheMiners_loads:
  assumes "cacheMiners e w = Some w'" "cache_inv (ev_cfg e) (cc w)" "miners (cc w) = []" "submission_keys (db w)"
    and "sql_slow_heights (TMin (ev_cfg e)) (NAVG (ev_cfg e) + 1) (db w) = Inr hs" "0 \<notin> set hs"
  shows "cached_deadline (cc w') i h = (if h \<in> set hs then table_deadline (db w) i h else None) \<and>
    cache_inv (ev_cfg e) (cc w') \<and> db w' = db w"
proof -
  let ?cfg = "ev_cfg e"
  obtain w1 r1 where x1: "query e (sql_slow_heights (TMin ?cfg) (NAVG ?cfg + 1)) w = (w1, r1)" by (metis surj_pair)
  have r1: "r1 = Inr hs" and w1: "w1 = next_tick w"
    using assms(1,5) x1 query_next [OF x1] by (cases r1; auto simp: cacheMiners_def query_Inr dest: query_Inr)+
  show ?thesis
  proof (cases "hs = []")
    case True
    then have "w' = w1" using assms(1) x1 r1 by (simp add: cacheMiners_def)
    then show ?thesis using assms(2,3) True by (simp add: w1 cached_deadline_def GetMiner_def)
  next
    case False
    obtain w2 r2 where x2: "query e (sql_fast_heights (TMin ?cfg) (NAVG ?cfg)) w1 = (w2, r2)" by (metis surj_pair)
    define c where "c = add_blocks ?cfg 0 (case r2 of Inl err \<Rightarrow> [] | Inr hs \<Rightarrow> hs)
      (add_blocks ?cfg (i32 (TMin ?cfg + 1)) (tl hs) (cc w2))"
    define w3 where "w3 = w2\<lparr>cc := c\<rparr>"
    obtain w4 r4 where x4: "query e (sql_submissions_on (ev_date_text e) hs) w3 = (w4, r4)" by (metis surj_pair)
    have "cacheMiners e w = (case r4 of Inl err \<Rightarrow> None
        | Inr sds \<Rightarrow> Some (upd_cache (fold (cache_submission (hd hs)) sds) w4))"
      using False x1 x2 x4 unfolding w3_def c_def
      by (simp add: cacheMiners_def r1 upd_cache_def split: sum.splits)
    then obtain sds where r4: "r4 = Inr sds" and w': "w' = upd_cache (fold (cache_submission (hd hs)) sds) w4"
      using assms(1) by (auto split: sum.splits)
    have w2: "cc w2 = cc w" "db w2 = db w" using query_next [OF x2] by (simp_all add: w1)
    have rows: "sql_submissions_on (ev_date_text e) hs (db w) = Inr sds" and w4: "cc w4 = c" "db w4 = db w"
      using query_Inr [OF x4 [unfolded r4]] by (simp_all add: w3_def w2)
    have c: "cache_inv ?cfg c" "GetMiner j c = None" for j
      using assms(2,3) by (simp_all add: c_def add_blocks_ok w2 GetMiner_def)
    note ent = loaded_entries [OF assms(4) rows]
    have "sd \<in> set sds \<Longrightarrow> fresh_miner (sdMiner sd) \<and> sdHeight sd \<noteq> 0 \<and> sdHeight sd \<le> hd hs" for sd
      using ent(2) assms(6) slow_heights_newest_first [OF assms(5)] by auto
    moreover have "distinct (map (fst \<circ> submission_entry) sds)"
      using loaded_lookup(2) [OF assms(4), of hs] arg_cong [OF ent(1), of "map fst"] by (simp add: comp_def)
    ultimately have ok: "cache_inv ?cfg (fold (cache_submission (hd hs)) sds c)"
      "cached_deadline (fold (cache_submission (hd hs)) sds c) i h = (case map_of (map submission_entry sds) (i, h) of
         Some d \<Rightarrow> Some d | None \<Rightarrow> cached_deadline c i h)"
      using cache_submissions_ok [OF c(1)] c(2) by (simp_all add: windows_ok_def cached_deadline_def)
    then show ?thesis using c(2)
      by (simp add: w' w4 ent(1) loaded_lookup(1) [OF assms(4)] cached_deadline_def split: option.splits)
  qed
qed

text \<open>C13.
  A restart loses no deadline that counts: on an empty cache, with the keys and foreign keys of the schema, the
  loading fills the cache so that each account has on each of the loaded slow blocks exactly the deadline of the
  table of submissions, and no deadline on other blocks, and the cache is in a state that satisfies its invariant.
\<close>

theorem restart_restores_deadlines:
  assumes "cacheMiners e w = Some w'" "cache_inv (ev_cfg e) (cc w)" "miners (cc w) = []" "submission_keys (db w)"
    and "sql_slow_heights (TMin (ev_cfg e)) (NAVG (ev_cfg e) + 1) (db w) = Inr hs" "0 \<notin> set hs"
  shows "cached_deadline (cc w') i h = (if h \<in> set hs then table_deadline (db w) i h else None) \<and>
    cache_inv (ev_cfg e) (cc w') \<and> db w' = db w"
  using assms by (rule cacheMiners_loads)

definition sample_start :: world where
  "sample_start = sample_world\<lparr>cc := StoreCurrentBlock (with_defaults example_config) sample_current sample_cache,
     db := sample_db\<lparr>
       nonce_submission := [\<lparr>sID = 2, sMiner = 77, sHeight = 100000, sDeadline = 900, sNonce = 5\<rparr>,
         \<lparr>sID = 1, sMiner = 77, sHeight = 99999, sDeadline = 1234, sNonce = 6\<rparr>],
       block := [(hd (block sample_db))\<lparr>kHeight := 99999\<rparr>, hd (block sample_db)]\<rparr>\<rparr>"

lemma sample_start_heights:
  "sql_slow_heights (TMin (ev_cfg sample_env)) (NAVG (ev_cfg sample_env) + 1) (db sample_start) = Inr [100000, 99999]"
  by (simp add: sql_slow_heights_def sample_start_def sample_db_def sample_env_def with_defaults_def example_config_def)

lemma sample_start_runs: "\<exists>w'. cacheMiners sample_env sample_start = Some w'"
proof -
  have q: "query sample_env f w = (next_tick w, f (db w))" for f :: "database \<Rightarrow> sql_error + 'a" and w
    by (simp add: query_def sample_env_def)
  show ?thesis using sample_start_heights by (simp add: cacheMiners_def q Let_def sql_submissions_on_def)
qed

theorem restart_restores_deadlines_witness:
  "\<exists>w'. cacheMiners sample_env sample_start = Some w' \<and> cached_deadline (cc w') 77 100000 = Some 900 \<and>
     cached_deadline (cc w') 77 99999 = Some 1234 \<and> cached_deadline (cc w') 77 99998 = None"
proof -
  obtain w' where w': "cacheMiners sample_env sample_start = Some w'" using sample_start_runs by blast
  have inv: "cache_inv (ev_cfg sample_env) (cc sample_start)"
    using sample_world_inv sample_miner_exact
    by (simp add: sample_start_def sample_world_def cache_inv_def cache_simps miners_wf_def announces_current_def
        sample_cache_def sample_env_def blocks_inv_def)
  have keys: "submission_keys (db sample_start)"
    by (simp add: submission_keys_def sample_start_def sample_db_def)
  have "miners (cc sample_start) = []" by (simp add: sample_start_def cache_simps sample_cache_def)
  note r = restart_restores_deadlines [OF w' inv this keys sample_start_heights]
  have "table_deadline (db sample_start) 77 100000 = Some 900" "table_deadline (db sample_start) 77 99999 = Some 1234"
    by (simp_all add: table_deadline_def sample_start_def)
  then show ?thesis using w' r [of 77 100000] r [of 77 99999] r [of 77 99998] by simp
qed

section \<open>The whole start\<close>

lemma createFeeAccount_keys:
  assumes "createFeeAccount e w = Some w'" "submission_keys (db w)"
  shows "submission_keys (db w') \<and> cc w' = cc w \<and> block (db w') = block (db w)"
  using assms by (auto simp: createFeeAccount_def mustExec_Some bind_eq_Some_conv sql_insert_account_def
      submission_keys_def has_account_def list_all_iff)

lemma loadCurrentBlock_ok:
  assumes "loadCurrentBlock e w = Some (w', l)" "cache_inv (ev_cfg e) (cc w)"
  shows "cache_inv (ev_cfg e) (cc w') \<and> db w' = db w \<and> miners (cc w') = miners (cc w)"
proof -
  obtain w1 r1 where x1: "query e sql_latest_block w = (w1, r1)" by (metis surj_pair)
  show ?thesis using assms query_next [OF x1] StoreCurrentBlock_inv [OF assms(2)]
    by (auto simp: loadCurrentBlock_def x1 cache_simps split: sum.splits if_splits)
qed

text \<open>A start that succeeds leaves the cache in a state that satisfies its invariant.\<close>

lemma NewModelX_inv:
  assumes run: "NewModelX e w = Some w'" and inv: "cache_inv (ev_cfg e) (cc w)"
    and "miners (cc w) = []" "submission_keys (db w)" "list_all (\<lambda>k. kHeight k \<noteq> 0) (block (db w))"
  shows "cache_inv (ev_cfg e) (cc w')"
proof -
  obtain w1 where w1: "(if FeeAccountID (ev_cfg e) \<noteq> 0 then createFeeAccount e w else Some w) = Some w1"
    using run by (auto simp: NewModelX_def bind_eq_Some_conv)
  have k1: "submission_keys (db w1)" "cc w1 = cc w" "block (db w1) = block (db w)"
    using w1 assms(4) createFeeAccount_keys by (auto split: if_splits)
  obtain w2 loaded where w2: "loadCurrentBlock e w1 = Some (w2, loaded)"
    using run by (auto simp: NewModelX_def w1 bind_eq_Some_conv)
  have k2: "cache_inv (ev_cfg e) (cc w2)" "db w2 = db w1" "miners (cc w2) = []"
    using loadCurrentBlock_ok [OF w2] inv assms(3) by (simp_all add: k1)
  show ?thesis
  proof (cases loaded)
    case True
    then obtain w3 where w3: "cacheMiners e w2 = Some w3" "w' = cacheRewardRecipients e w3"
      using run by (auto simp: NewModelX_def w1 w2 bind_eq_Some_conv)
    obtain hs where hs: "sql_slow_heights (TMin (ev_cfg e)) (NAVG (ev_cfg e) + 1) (db w2) = Inr hs"
      by (simp add: sql_slow_heights_def)
    have "0 \<notin> set hs" using hs assms(5)
      by (auto simp: sql_slow_heights_def k2 k1 list_all_iff dest!: in_set_takeD)
    then show ?thesis using cacheMiners_loads [OF w3(1) k2(1,3) _ hs] k1 k2
      by (simp add: w3(2) cacheRewardRecipients_inv)
  next
    case False
    obtain w3 r3 where x3: "ask e hMiningInfo w2 = (w3, r3)" by (metis surj_pair)
    obtain mi where r3: "r3 = Inr mi" using run False by (cases r3) (auto simp: NewModelX_def w1 w2 x3)
    have mi: "newBlock e (miBaseTarget mi) (miGenerationSignature mi) (miHeight mi) w3 = Some (w', None)"
      using run False by (auto simp: NewModelX_def w1 w2 x3 r3 split: option.splits)
    show ?thesis using newBlock_inv [OF mi] ask_next [OF x3] k2(1) by simp
  qed
qed

end
