(* ===== verification/Submissions.thy ===== *)
theory Submissions
  imports RoundsProofs
begin

text \<open>
  A submission keeps the cache consistent, in every branch of \<open>UpdateOrCreateNonceSubmission\<close> and whether
  the statements succeed or fail. When a node submits for a block that the pool does not know, the
  block is added first; that this does not give the submitting miner a deadline on the block is
  what keeps its window free of duplicates.
\<close>

section \<open>Submissions and the cache\<close>

definition no_deadline :: "uint64 \<Rightarrow> Miner \<Rightarrow> bool" where
  "no_deadline h m \<longleftrightarrow> map_of (DeadlinesParams m) h = None \<and> CurrentBlockHeight m \<noteq> h"

lemma add_remove_no_deadline:
  "no_deadline h m \<Longrightarrow> no_deadline h (addDeadlineParams m)"
  "no_deadline h m \<Longrightarrow> no_deadline h (removeDeadlineParams k m)"
proof -
  assume nd: "no_deadline h m"
  then show "no_deadline h (addDeadlineParams m)"
    using CurrentBlockHeight_cong [of "addDeadlineParams m" m]
    by (auto simp: no_deadline_def) (auto simp: addDeadlineParams_def update_conv' CurrentBlockHeight_def split: option.splits if_splits)
  show "no_deadline h (removeDeadlineParams k m)"
    using nd CurrentBlockHeight_cong [of "removeDeadlineParams k m" m]
    by (auto simp: no_deadline_def) (auto simp: removeDeadlineParams_def delete_conv' split: option.splits if_splits)
qed

lemma roll_miner_no_deadline:
  "no_deadline h (miner_at c q) \<Longrightarrow> no_deadline h (miner_at (roll_miner e k r i p c) q)"
  by (cases "p < length (heap c)"; cases "p = q")
    (auto simp: roll_miner_def Let_def map_miner_def DeleteMiner_def miner_at_def nth_list_update
      not_less list_update_beyond add_remove_no_deadline)

lemma rolled_no_deadline: "no_deadline h (miner_at (cc w) q) \<Longrightarrow> no_deadline h (miner_at (cc (rolled e k rm w)) q)"
  unfolding rolled_def upd_cache_sel by (rule MinerRange_inv) (simp_all add: roll_miner_no_deadline)

lemma MaybeSwitch_no_deadline:
  assumes "MaybeSwitchOrNewBlock e bt gs k w = Some w'" "no_deadline h (miner_at (cc w) q)"
  shows "no_deadline h (miner_at (cc w') q)"
proof -
  have at: "no_deadline h (miner_at (cc ((next_tick w1)\<lparr>db := d\<rparr>)) q)" if "keeps cfg w w1" for cfg w1 d
    using that assms(2) by (simp add: keeps_def miner_at_def)
  have "no_deadline h (miner_at (cc w') q)" if "newBlock e bt gs k w = Some (w', err)" for err
    using that
  proof (cases rule: newBlock_cases [where cfg = "ev_cfg e"])
    case (new w1 rm d b)
    then show ?thesis using rolled_no_deadline [OF at [of "ev_cfg e" w1 d], of e k rm]
      by (simp add: cache_simps miner_at_def)
  qed (use assms(2) at rolled_no_deadline in auto)
  then show ?thesis using assms
    by (auto simp: MaybeSwitchOrNewBlock_def Let_def switchBlock_no_effect split: if_splits option.splits prod.splits)
qed

text \<open>What a submission may change besides the submitting miner: the current block advances.\<close>

definition advanced :: "cache \<Rightarrow> cache \<Rightarrow> bool" where
  "advanced c c' \<longleftrightarrow> bestNonceSubmission c' = bestNonceSubmission c \<and>
     (currentBlock c' = currentBlock c \<or> bHeight (currentBlock c) < bHeight (currentBlock c'))"

lemma advanced_refl [simp]: "advanced c c"
  by (simp add: advanced_def)

lemma advanced_trans: "advanced a b \<Longrightarrow> advanced b c \<Longrightarrow> advanced a c"
  by (auto simp: advanced_def)

lemma submission_step:
  assumes "exec e st w = (w1, r)" "cache_inv cfg (cc w)" "advanced c (cc w)"
    and "p < length (heap (cc w)) \<Longrightarrow> miner_wf (f (miner_at (cc w) p)) \<and> mID (f (miner_at (cc w) p)) = mID (miner_at (cc w) p)"
    and "(case r of Some err \<Rightarrow> (w1, Some (Sql err)) | None \<Rightarrow> (upd_cache (map_miner p f) w1, None)) = (w', err)"
  shows "cache_inv cfg (cc w') \<and> advanced c (cc w')"
proof -
  have "cache_inv cfg (map_miner p f (cc w))" using assms(2,4) by (intro map_miner_inv) (simp_all add: miner_at_def)
  moreover have "advanced c (map_miner p f (cc w))" using assms(3) by (simp add: advanced_def map_miner_def)
  ultimately show ?thesis using assms(2,3,5) exec_cc [OF assms(1)] by (cases r) auto
qed

lemma UpdateOrCreate_inv:
  assumes run: "UpdateOrCreateNonceSubmission e p h d n bt gs w = Some (w', err)" and inv: "cache_inv (ev_cfg e) (cc w)"
    and p: "p < length (heap (cc w))"
  shows "cache_inv (ev_cfg e) (cc w') \<and> advanced (cc w) (cc w')"
proof -
  let ?m = "miner_at (cc w) p"
  have wf: "miner_wf ?m" using inv p by (auto simp: cache_inv_def miners_wf_def miner_at_def)
  consider (current) "CurrentBlockHeight ?m = h"
    | (known) r where "CurrentBlockHeight ?m \<noteq> h" "map_of (DeadlinesParams ?m) h = Some r"
    | (first) "CurrentBlockHeight ?m \<noteq> h" "map_of (DeadlinesParams ?m) h = None" by blast
  then show ?thesis
  proof cases
    case current
    note run = trans [OF submission_current [OF current, symmetric] run]
    obtain w1 r where x: "exec e (sql_update_submission d n (mID ?m) h) w = (w1, r)" by (metis surj_pair)
    show ?thesis
    proof (cases "CurrentDeadline ?m \<le> d")
      case True
      then show ?thesis using run inv by simp
    next
      case False
      then have "(case r of Some err \<Rightarrow> (w1, Some (Sql err)) | None \<Rightarrow> (upd_cache (map_miner p (better_current d)) w1, None)) = (w', err)"
        using run x by (auto split: option.splits if_splits)
      then show ?thesis using submission_step [OF x inv advanced_refl, of p "better_current d"] better_current_wf [OF wf] by simp
    qed
  next
    case (known r0)
    note run = trans [OF submission_known [OF known, symmetric] run]
    obtain w1 r where x: "exec e (sql_update_submission d n (mID ?m) h) w = (w1, r)" by (metis surj_pair)
    show ?thesis
    proof (cases "dpDeadline (dp_at ?m r0) \<le> d")
      case True
      then show ?thesis using run inv by simp
    next
      case False
      then have "(case r of Some err \<Rightarrow> (w1, Some (Sql err)) | None \<Rightarrow> (upd_cache (map_miner p (better_confirmed r0 h d bt)) w1, None)) = (w', err)"
        using run x by (auto split: option.splits)
      then show ?thesis using submission_step [OF x inv advanced_refl, of p "better_confirmed r0 h d bt"]
          better_confirmed_wf [OF wf map_of_SomeD [OF known(2)]] by simp
    qed
  next
    case first
    obtain w1 where w1: "(if \<not> fst (WasSlowBlock h (cc w)) then MaybeSwitchOrNewBlock e bt gs h w else Some w) = Some w1"
      "(case exec e (sql_insert_submission (mID ?m) h d n) w1 of (w, Some er) \<Rightarrow> (w, Some (Sql er))
        | (w, None) \<Rightarrow> (upd_cache (map_miner p (first_deadline h d bt)) w, None)) = (w', err)"
      using run submission_first [OF first, of e d n bt gs] by (auto simp: bind_eq_Some_conv)
    have i1: "cache_inv (ev_cfg e) (cc w1)" "advanced (cc w) (cc w1)"
      using w1(1) inv MaybeSwitch_inv [of e bt gs h w w1] by (auto simp: advanced_def split: if_splits)
    have "no_deadline h (miner_at (cc w1) p)"
      using w1(1) MaybeSwitch_no_deadline [of e bt gs h w w1 h p] first by (auto simp: no_deadline_def split: if_splits)
    moreover have "p < length (heap (cc w1)) \<Longrightarrow> miner_wf (miner_at (cc w1) p)"
      using i1(1) by (auto simp: cache_inv_def miners_wf_def miner_at_def)
    ultimately have f: "p < length (heap (cc w1)) \<Longrightarrow> miner_wf (first_deadline h d bt (miner_at (cc w1) p)) \<and>
        mID (first_deadline h d bt (miner_at (cc w1) p)) = mID (miner_at (cc w1) p)"
      using first_deadline_wf by (simp add: no_deadline_def)
    obtain w2 r where x: "exec e (sql_insert_submission (mID ?m) h d n) w1 = (w2, r)" by (metis surj_pair)
    show ?thesis using submission_step [OF x i1, of p "first_deadline h d bt"] f w1(2) x by simp
  qed
qed

end
