(* ===== verification/Schema.thy ===== *)
theory Schema
  imports Frames Sending Startup Submissions
begin

text \<open>
  The consistency of the database: keys are unique, no row refers to a missing row, the fee account exists and is no
  miner, and no transaction has too many recipients. Every statement of the program keeps it, hence every operation does,
  whatever fails in between.
\<close>

section \<open>Consistency\<close>

definition unique_keys :: "database \<Rightarrow> bool" where
  "unique_keys d \<longleftrightarrow> distinct (map aID (account d)) \<and> distinct (map kHeight (block d)) \<and> distinct (map rID (miner d)) \<and>
     distinct (map (\<lambda>s. (sMiner s, sHeight s)) (nonce_submission d)) \<and> distinct (map sID (nonce_submission d)) \<and>
     (\<forall>s \<in> set (nonce_submission d). sID s < next_submission d) \<and> distinct (map tID (transaction d)) \<and>
     (\<forall>t \<in> set (transaction d). tID t < next_tx d)"

text \<open>Every account has the address of its id; so two accounts never share an address.\<close>

definition addressed :: "account_row list \<Rightarrow> bool" where
  "addressed as \<longleftrightarrow> (\<forall>(i, s) \<in> set (map (\<lambda>a. (aID a, aAddress a)) as). Encode i = Some s)"

definition keys_ok :: "uint64 \<Rightarrow> database \<Rightarrow> bool" where
  "keys_ok fee d \<longleftrightarrow> unique_keys d \<and> addressed (account d) \<and> (fee \<noteq> 0 \<longrightarrow> has_account fee d) \<and> \<not> is_miner_id fee d"

text \<open>No cascading delete has anything to remove.\<close>

definition refs_ok :: "database \<Rightarrow> bool" where
  "refs_ok d \<longleftrightarrow> cascade_round d = d"

definition schema :: "uint64 \<Rightarrow> database \<Rightarrow> bool" where
  "schema fee d \<longleftrightarrow> keys_ok fee d \<and> refs_ok d"

text \<open>What the pool can be started on: the fee account may be missing, but must not have mined.\<close>

definition loadable :: "uint64 \<Rightarrow> database \<Rightarrow> bool" where
  "loadable fee d \<longleftrightarrow> unique_keys d \<and> addressed (account d) \<and> refs_ok d \<and> \<not> is_miner_id fee d"

lemma schema_loadable: "schema fee d \<Longrightarrow> loadable fee d"
  by (simp add: schema_def keys_ok_def loadable_def)

lemma filter_id_iff: "filter P xs = xs \<longleftrightarrow> (\<forall>x \<in> set xs. P x)"
  by (metis filter_True filter_eq_Cons_iff filter_set set_filter mem_Collect_eq)

lemma refs_ok_iff: "refs_ok d \<longleftrightarrow>
   (\<forall>s \<in> set (nonce_submission d). sMiner s \<in> aID ` set (account d) \<and> sHeight s \<in> kHeight ` set (block d)) \<and>
   (\<forall>k \<in> set (block d). opt_in (kWinner k) (aID ` set (account d)) \<and> opt_in (kBest k) (sID ` set (nonce_submission d))) \<and>
   (\<forall>m \<in> set (miner d). rID m \<in> aID ` set (account d)) \<and>
   (\<forall>t \<in> set (transaction d). opt_in (tHeight t) (kHeight ` set (block d))) \<and>
   (\<forall>r \<in> set (transaction_recipient d). pRecipient r \<in> aID ` set (account d) \<and> pTx r \<in> tID ` set (transaction d))"
proof -
  have "cascade_round d = d \<longleftrightarrow>
    filter (\<lambda>s. has_account (sMiner s) d \<and> has_block (sHeight s) d) (nonce_submission d) = nonce_submission d \<and>
    filter (\<lambda>k. opt_in (kWinner k) (aID ` set (account d)) \<and> opt_in (kBest k) (sID ` set (nonce_submission d))) (block d) = block d \<and>
    filter (\<lambda>m. has_account (rID m) d) (miner d) = miner d \<and>
    filter (\<lambda>t. opt_in (tHeight t) (kHeight ` set (block d))) (transaction d) = transaction d \<and>
    filter (\<lambda>r. has_account (pRecipient r) d \<and> pTx r \<in> tID ` set (transaction d)) (transaction_recipient d) = transaction_recipient d"
    by (cases d) (simp add: cascade_round_def has_account_def has_block_def)
  then show ?thesis by (simp only: refs_ok_def filter_id_iff has_account_def has_block_def)
qed

lemmas schema_simps = schema_def keys_ok_def unique_keys_def refs_ok_iff

lemma loadable_submission_keys: "loadable fee d \<Longrightarrow> submission_keys d"
  by (auto simp: loadable_def unique_keys_def refs_ok_iff submission_keys_def list_all_iff image_iff)

section \<open>Statements\<close>

text \<open>A statement that succeeds keeps the property.\<close>

definition preserves :: "(database \<Rightarrow> bool) \<Rightarrow> (database \<Rightarrow> sql_error + database) \<Rightarrow> bool" where
  "preserves P st \<longleftrightarrow> (\<forall>d d'. P d \<longrightarrow> st d = Inr d' \<longrightarrow> P d')"

lemma preservesI: "(\<And>d d'. P d \<Longrightarrow> st d = Inr d' \<Longrightarrow> P d') \<Longrightarrow> preserves P st"
  by (simp add: preserves_def)

lemma schema_cascade:
  assumes "keys_ok fee d"
  shows "schema fee (cascade d)"
proof -
  have "keys_ok fee (cascade d)"
    by (rule cascade_preserves [where P = "keys_ok fee", OF assms])
      (auto simp: keys_ok_def unique_keys_def cascade_round_def addressed_def distinct_map_filter has_account_def is_miner_id_def)
  then show ?thesis by (simp add: schema_def refs_ok_def cascade_fixpoint)
qed

text \<open>Updates that leave keys and references alone.\<close>

lemma map_aID_set: "map f xs = map f ys \<Longrightarrow> f ` set xs = f ` set ys"
  by (metis set_map)

lemma map_upd_where: "(\<And>r. g (f r) = g r) \<Longrightarrow> map g (upd_where P f rs) = map g rs"
  by (auto simp: upd_where_def)

lemma schema_upd_account:
  assumes "schema fee d" "\<And>a. (aID (f a), aAddress (f a)) = (aID a, aAddress a)"
  shows "schema fee (d\<lparr>account := upd_where P f (account d)\<rparr>)"
proof -
  have h: "map aID (upd_where P f (account d)) = map aID (account d)"
    "map (\<lambda>a. (aID a, aAddress a)) (upd_where P f (account d)) = map (\<lambda>a. (aID a, aAddress a)) (account d)"
    using assms(2) by (simp_all add: map_upd_where)
  show ?thesis using assms(1) unfolding schema_simps addressed_def
    by (simp add: has_account_def is_miner_id_def h map_aID_set [OF h(1)] del: set_map)
qed

lemma ball_upd_where: "(\<forall>x \<in> set (upd_where P f rs). R x) \<longleftrightarrow> (\<forall>r \<in> set rs. R (if P r then f r else r))"
  by (auto simp: upd_where_def)

lemma schema_upd_block:
  assumes "schema fee d" "\<And>k. kHeight (f k) = kHeight k"
    and "\<And>k. k \<in> set (block d) \<Longrightarrow> P k \<Longrightarrow> opt_in (kWinner (f k)) (aID ` set (account d)) \<and> opt_in (kBest (f k)) (sID ` set (nonce_submission d))"
  shows "schema fee (d\<lparr>block := upd_where P f (block d)\<rparr>)"
proof -
  have h: "map kHeight (upd_where P f (block d)) = map kHeight (block d)" by (rule map_upd_where) (rule assms(2))
  show ?thesis using assms(1,3)
    by (simp add: schema_simps has_account_def is_miner_id_def h map_aID_set [OF h] ball_upd_where)
qed

lemma schema_upd_transaction:
  assumes "schema fee d" "\<And>t. tID (f t) = tID t"
    and "\<And>t. t \<in> set (transaction d) \<Longrightarrow> P t \<Longrightarrow> opt_in (tHeight (f t)) (kHeight ` set (block d))"
  shows "schema fee (d\<lparr>transaction := upd_where P f (transaction d)\<rparr>)"
proof -
  have h: "map tID (upd_where P f (transaction d)) = map tID (transaction d)" by (rule map_upd_where) (rule assms(2))
  show ?thesis using assms(1,3)
    by (simp add: schema_simps has_account_def is_miner_id_def h map_aID_set [OF h] ball_upd_where assms(2))
qed

section \<open>Every statement keeps the database consistent\<close>

named_theorems stmts \<open>statements that keep the database consistent\<close>

lemma account_stmts [stmts]:
  "preserves (schema fee) (sql_set_name n i)" "preserves (schema fee) (sql_add_pending x i)"
  "preserves (schema fee) (sql_transfer_pending fee')" "preserves (schema fee) (sql_set_next_date t i)"
  "preserves (schema fee) (sql_set_min_payout v iv t x i)"
  by (auto intro!: preservesI schema_upd_account simp: sql_set_name_def sql_add_pending_def sql_transfer_pending_def Let_def
      sql_set_next_date_def sql_set_min_payout_def split: if_splits)

lemma opt_in_simps [simp]: "opt_in None A" "opt_in (Some x) A \<longleftrightarrow> x \<in> A"
  by (simp_all add: opt_in_def)

lemma opt_in_mono: "opt_in x A \<Longrightarrow> A \<subseteq> B \<Longrightarrow> opt_in x B"
  by (auto simp: opt_in_def split: option.splits)

lemma schema_more_accounts:
  assumes "loadable fee d" "distinct (map aID as)" "aID ` set (account d) \<subseteq> aID ` set as" "addressed as" "fee \<noteq> 0 \<longrightarrow> fee \<in> aID ` set as"
  shows "schema fee (d\<lparr>account := as\<rparr>)"
proof -
  note s = assms(1) [unfolded loadable_def unique_keys_def refs_ok_iff is_miner_id_def]
  show ?thesis using s assms(2,4,5) unfolding schema_simps has_account_def is_miner_id_def
    by simp (meson assms(3) opt_in_mono subsetD)
qed

lemma inserted_account:
  assumes "sql_insert_account i address n d = Inr d'" "loadable fee d" "Encode i = Some address"
  shows "\<exists>as. d' = d\<lparr>account := as\<rparr> \<and> distinct (map aID as) \<and> aID ` set as = insert i (aID ` set (account d)) \<and> addressed as"
proof (cases "has_account i d \<or> address \<in> aAddress ` set (account d)")
  case True
  have "has_account i d"
  proof (rule ccontr)
    assume no: "\<not> has_account i d"
    then obtain a where a: "a \<in> set (account d)" "aAddress a = address" using True by auto
    then have "Encode (aID a) = Encode i" using assms(2,3) by (auto simp: loadable_def addressed_def)
    then have "aID a = i" using Decode_Encode [of "aID a"] Decode_Encode [of i] by auto
    then show False using no a(1) by (auto simp: has_account_def)
  qed
  moreover have "d' = d\<lparr>account := account d\<rparr>" using assms(1) True by (simp add: sql_insert_account_def)
  ultimately show ?thesis using assms(2) by (intro exI [of _ "account d"]) (auto simp: loadable_def unique_keys_def has_account_def)
next
  case False
  let ?a = "\<lparr>aID = i, aAddress = address, aName = map_option (take 100) n, aPending = 0, aMinPayout = None, aInterval = None, aNextDate = None\<rparr>"
  have "d' = d\<lparr>account := account d @ [?a]\<rparr>" using assms(1) False by (simp add: sql_insert_account_def)
  then show ?thesis using assms(2,3) False
    by (intro exI [of _ "account d @ [?a]"]) (auto simp: has_account_def loadable_def unique_keys_def addressed_def)
qed

text \<open>The fee account is there after the start.\<close>

lemma fee_account_created:
  assumes "sql_insert_account fee address n d = Inr d'" "loadable fee d" "Encode fee = Some address"
  shows "schema fee d'"
  using inserted_account [OF assms] assms(2) by (auto intro!: schema_more_accounts)

lemma insert_account_stmt [stmts]:
  assumes "Encode i = Some address"
  shows "preserves (schema fee) (sql_insert_account i address n)"
proof (rule preservesI)
  fix d d' assume d: "schema fee d" "sql_insert_account i address n d = Inr d'"
  from inserted_account [OF d(2) schema_loadable [OF d(1)] assms] obtain as where
    as: "d' = d\<lparr>account := as\<rparr>" "distinct (map aID as)" "aID ` set as = insert i (aID ` set (account d))" "addressed as" by blast
  have "fee \<noteq> 0 \<longrightarrow> fee \<in> aID ` set as" using d(1) by (simp add: schema_def keys_ok_def has_account_def as(3))
  then show "schema fee d'" unfolding as(1)
    using schema_more_accounts [OF schema_loadable [OF d(1)] as(2) _ as(4)] as(3) by blast
qed

lemma schema_miner:
  assumes "schema fee d" "distinct (map rID ms)" "rID ` set ms \<subseteq> aID ` set (account d) - {fee}"
  shows "schema fee (d\<lparr>miner := ms\<rparr>)"
  using assms by (simp add: schema_simps has_account_def is_miner_id_def) blast

lemma schema_miner_ids: "schema fee d \<Longrightarrow> distinct (map rID (miner d)) \<and> rID ` set (miner d) \<subseteq> aID ` set (account d) - {fee}"
  by (simp add: schema_simps is_miner_id_def) blast

lemma miner_stmts [stmts]: "preserves (schema fee) (sql_set_capacity x i)" "preserves (schema fee) sql_delete_idle_miners"
  "i \<noteq> fee \<Longrightarrow> preserves (schema fee) (sql_insert_miner i)"
proof -
  show "preserves (schema fee) (sql_set_capacity x i)"
  proof (rule preservesI)
    fix d d' assume d: "schema fee d" "sql_set_capacity x i d = Inr d'"
    then have d': "d' = d\<lparr>miner := upd_where (\<lambda>m. rID m = i) (\<lambda>m. m\<lparr>rCapacity := Some x\<rparr>) (miner d)\<rparr>"
      by (simp add: sql_set_capacity_def)
    have h: "map rID (upd_where P (rCapacity_update (\<lambda>_. Some x)) ms) = map rID ms" for P and ms :: "miner_row list" by (simp add: map_upd_where)
    show "schema fee d'" unfolding d' using schema_miner_ids [OF d(1)] map_aID_set [OF h]
      by (intro schema_miner [OF d(1)]) (simp_all only: h)
  qed
  show "preserves (schema fee) sql_delete_idle_miners"
  proof (rule preservesI)
    fix d d' assume d: "schema fee d" "sql_delete_idle_miners d = Inr d'"
    then have d': "d' = d\<lparr>miner := filter (\<lambda>m. rID m \<in> sMiner ` set (nonce_submission d)) (miner d)\<rparr>"
      by (simp add: sql_delete_idle_miners_def)
    show "schema fee d'" unfolding d' using schema_miner_ids [OF d(1)]
      by (intro schema_miner [OF d(1)]) (auto simp: distinct_map_filter)
  qed
  show "preserves (schema fee) (sql_insert_miner i)" if "i \<noteq> fee"
  proof (rule preservesI)
    fix d d' assume d: "schema fee d" "sql_insert_miner i d = Inr d'"
    have "schema fee (d\<lparr>miner := miner d @ [\<lparr>rID = i, rCapacity = None\<rparr>]\<rparr>)"
      if "i \<in> aID ` set (account d)" "i \<notin> rID ` set (miner d)"
      using schema_miner_ids [OF d(1)] that \<open>i \<noteq> fee\<close> by (intro schema_miner [OF d(1)]) simp_all
    then show "schema fee d'" using d
      by (cases "i \<in> rID ` set (miner d) \<or> \<not> has_account i d") (simp_all add: sql_insert_miner_def has_account_def)
  qed
qed

lemma block_stmts [stmts]:
  "preserves (schema fee) (sql_set_generation_time t h)" "preserves (schema fee) (sql_set_verified h)"
  "preserves (schema fee) (sql_verify_empty h now)" "preserves (schema fee) (sql_pick_best h now)"
  "preserves (schema fee) (sql_set_best i h)" "preserves (schema fee) (sql_set_won x i h)"
  "preserves (schema fee) (sql_switch_block gs bt h)" "preserves (schema fee) (sql_switch_delete i h)"
proof -
  have r: "schema fee d \<Longrightarrow> k \<in> set (block d) \<Longrightarrow> opt_in (kWinner k) (aID ` set (account d)) \<and> opt_in (kBest k) (sID ` set (nonce_submission d))" for d k
    by (simp add: schema_simps)
  show "preserves (schema fee) (sql_set_generation_time t h)" "preserves (schema fee) (sql_set_verified h)"
    "preserves (schema fee) (sql_verify_empty h now)"
    by (auto intro!: preservesI schema_upd_block simp: sql_set_generation_time_def sql_set_verified_def sql_verify_empty_def r)
  have best: "opt_in (best_of_block h d) (sID ` set (nonce_submission d))" for h d
  proof (cases "sort_key sDeadline (filter (\<lambda>s. sHeight s = h) (nonce_submission d))")
    case (Cons s ss)
    from arg_cong [OF this, of set] have "s \<in> set (nonce_submission d)" by auto
    then show ?thesis using Cons by (simp add: best_of_block_def)
  qed (simp add: best_of_block_def opt_in_def)
  show "preserves (schema fee) (sql_pick_best h now)"
    by (auto intro!: preservesI schema_upd_block simp: sql_pick_best_def r best)
  have "opt_in (submission_id_of h i d) (sID ` set (nonce_submission d))" for h d
    by (auto simp: submission_id_of_def opt_in_def find_Some_iff split: option.splits)
  then show "preserves (schema fee) (sql_set_best i h)"
    by (auto intro!: preservesI schema_upd_block simp: sql_set_best_def r)
  show "preserves (schema fee) (sql_set_won x i h)"
    by (auto intro!: preservesI schema_upd_block simp: sql_set_won_def r has_account_def has_block_def split: if_splits)
  show "preserves (schema fee) (sql_switch_block gs bt h)" "preserves (schema fee) (sql_switch_delete i h)"
    by (simp_all add: preserves_def sql_switch_block_fails sql_switch_delete_def)
qed

lemma insert_block_stmt [stmts]: "preserves (schema fee) (sql_insert_block h bt sc gs created gt)"
proof (rule preservesI)
  fix d d' assume d: "schema fee d" "sql_insert_block h bt sc gs created gt d = Inr d'"
  then obtain k where k: "d' = d\<lparr>block := block d @ [k]\<rparr>" "kWinner k = None" "kBest k = None" "kHeight k \<notin> kHeight ` set (block d)"
    by (auto simp: sql_insert_block_def has_block_def split: if_splits)
  note s = d(1) [unfolded schema_simps has_account_def is_miner_id_def]
  have "kHeight ` set (block d) \<subseteq> kHeight ` set (block d')" using k(1) by auto
  then have "x \<in> kHeight ` set (block d) \<Longrightarrow> x \<in> kHeight ` set (block d')"
    "opt_in y (kHeight ` set (block d)) \<Longrightarrow> opt_in y (kHeight ` set (block d'))" for x y
    using opt_in_mono by auto
  then show "schema fee d'" using s k unfolding schema_simps has_account_def is_miner_id_def by simp
qed

lemma update_submission_stmt [stmts]: "preserves (schema fee) (sql_update_submission dl n i h)"
proof (rule preservesI)
  fix d d' assume d: "schema fee d" "sql_update_submission dl n i h d = Inr d'"
  let ?f = "\<lambda>s. s\<lparr>sDeadline := dl, sNonce := n\<rparr>"
  have m: "map sID (upd_where P ?f ss) = map sID ss" "map (\<lambda>s. (sMiner s, sHeight s)) (upd_where P ?f ss) = map (\<lambda>s. (sMiner s, sHeight s)) ss" for P ss
    by (simp_all add: map_upd_where)
  from d(2) have d': "d' = d\<lparr>nonce_submission := upd_where (\<lambda>s. sMiner s = i \<and> sHeight s = h) ?f (nonce_submission d)\<rparr>"
    by (simp add: sql_update_submission_def)
  note s = d(1) [unfolded schema_simps has_account_def is_miner_id_def]
  show "schema fee d'" using s unfolding d' schema_simps has_account_def is_miner_id_def
    by (simp add: m map_aID_set [OF m(1)] ball_upd_where) blast
qed

lemma insert_submission_stmt [stmts]: "preserves (schema fee) (sql_insert_submission i h dl n)"
proof (rule preservesI)
  fix d d' assume d: "schema fee d" "sql_insert_submission i h dl n d = Inr d'"
  let ?x = "\<lparr>sID = next_submission d, sMiner = i, sHeight = h, sDeadline = dl, sNonce = n\<rparr>"
  have x: "d' = d\<lparr>nonce_submission := nonce_submission d @ [?x], next_submission := next_submission d + 1\<rparr>"
    "i \<in> aID ` set (account d)" "h \<in> kHeight ` set (block d)" "(i, h) \<notin> (\<lambda>s. (sMiner s, sHeight s)) ` set (nonce_submission d)"
    using d(2) by (auto simp: sql_insert_submission_def has_block_def has_account_def split: if_splits)
  note s = d(1) [unfolded schema_simps has_account_def is_miner_id_def]
  have "sID ` set (nonce_submission d) \<subseteq> sID ` set (nonce_submission d')" using x(1) by auto
  then have "opt_in y (sID ` set (nonce_submission d)) \<Longrightarrow> opt_in y (sID ` set (nonce_submission d'))" for y
    using opt_in_mono by auto
  moreover have "next_submission d \<notin> sID ` set (nonce_submission d)" using s by auto
  moreover have "\<forall>y \<in> set (nonce_submission d). sID y < next_submission d + 1" using s by fastforce
  ultimately show "schema fee d'" using s x unfolding schema_simps has_account_def is_miner_id_def by simp
qed

lemma transaction_stmts [stmts]:
  "preserves (schema fee) (sql_forget_tx_id tx)" "preserves (schema fee) (sql_set_tx_id tx now t)"
  "preserves (schema fee) (sql_confirm_tx h tx)"
proof -
  have r: "schema fee d \<Longrightarrow> t \<in> set (transaction d) \<Longrightarrow> opt_in (tHeight t) (kHeight ` set (block d))" for d t
    by (simp add: schema_simps)
  show "preserves (schema fee) (sql_forget_tx_id tx)" "preserves (schema fee) (sql_set_tx_id tx now t)"
    by (auto intro!: preservesI schema_upd_transaction simp: sql_forget_tx_id_def sql_set_tx_id_def r)
  show "preserves (schema fee) (sql_confirm_tx h tx)"
  proof (rule preservesI)
    fix d d' assume d: "schema fee d" "sql_confirm_tx h tx d = Inr d'"
    show "schema fee d'"
    proof (cases "has_block h d")
      case True
      then show ?thesis using d by (auto simp: sql_confirm_tx_def has_block_def intro!: schema_upd_transaction)
    next
      case False
      have "keys_ok fee (d\<lparr>transaction := filter (\<lambda>r. tTxID r \<noteq> Some tx) (transaction d)\<rparr>)"
        using d(1) by (auto simp: schema_def keys_ok_def unique_keys_def has_account_def is_miner_id_def distinct_map_filter)
      then show ?thesis using d False by (auto simp: sql_confirm_tx_def schema_cascade)
    qed
  qed
qed

lemma insert_tx_stmt [stmts]: "preserves (schema fee) (sql_insert_tx now)"
proof (rule preservesI)
  fix d d' assume d: "schema fee d" "sql_insert_tx now d = Inr d'"
  then obtain x where x: "d' = d\<lparr>transaction := transaction d @ [x], next_tx := next_tx d + 1\<rparr>" "tID x = next_tx d" "tHeight x = None"
    by (auto simp: sql_insert_tx_def)
  note s = d(1) [unfolded schema_simps has_account_def is_miner_id_def]
  have "tID x \<notin> tID ` set (transaction d)" using s x(2) by auto
  moreover have "\<forall>y \<in> set (transaction d). tID y < next_tx d + 1" using s by fastforce
  ultimately show "schema fee d'" using s x unfolding schema_simps has_account_def is_miner_id_def by simp
qed

lemma insert_recipient_stmt [stmts]: "preserves (schema fee) (sql_insert_recipient t i a)"
  by (rule preservesI) (auto simp: sql_insert_recipient_def schema_simps has_account_def is_miner_id_def split: if_splits)

lemma delete_stmts [stmts]:
  "preserves (schema fee) (sql_delete_blocks_below h)" "preserves (schema fee) (sql_delete_old_accounts fee)"
proof -
  have "keys_ok fee d \<Longrightarrow> keys_ok fee (d\<lparr>block := filter P (block d)\<rparr>)" for P d
    by (simp add: keys_ok_def unique_keys_def has_account_def is_miner_id_def distinct_map_filter)
  then have "schema fee d \<Longrightarrow> schema fee (cascade (d\<lparr>block := filter P (block d)\<rparr>))" for P d
    using schema_cascade schema_def by blast
  then show "preserves (schema fee) (sql_delete_blocks_below h)"
    by (auto simp: preserves_def sql_delete_blocks_below_def)
  have "keys_ok fee d \<Longrightarrow> keys_ok fee (d\<lparr>account := filter (\<lambda>a. aID a = fee \<or> P a) (account d)\<rparr>)" for P d
    by (auto simp: keys_ok_def unique_keys_def addressed_def has_account_def is_miner_id_def distinct_map_filter)
  then have "schema fee d \<Longrightarrow> schema fee (cascade (d\<lparr>account := filter (\<lambda>a. aID a = fee \<or> P a) (account d)\<rparr>))" for P d
    using schema_cascade schema_def by blast
  then show "preserves (schema fee) (sql_delete_old_accounts fee)"
    by (auto simp: preserves_def sql_delete_old_accounts_def)
qed

end
