(* ===== verification/Mining.thy ===== *)
theory Mining
  imports Frames Startup
begin

text \<open>
  The frame of mining: a property of the database that every statement of \<^verbatim>\<open>modelx\<close> keeps holds after
  each of its operations, whatever fails in between. The locale \<open>mining_frame\<close> extends \<open>effects\<close> by the statements
  of rounds, miners, submissions and the start; the jobs are \<open>job_frame\<close>.
\<close>

section \<open>A property of the database alone\<close>

locale mining_frame = effects +
  assumes cache: "Q w \<Longrightarrow> Q (w\<lparr>cc := c\<rparr>)"
    and round_stmts: "S (sql_set_generation_time t h)" "S (sql_insert_block h bt sc gs created gt)"
      "S (sql_switch_block gs bt h)" "S (sql_switch_delete i h)"
    and miner_stmts: "Encode i = Some address \<Longrightarrow> S (sql_insert_account i address nm)" "i \<noteq> FeeAccountID (ev_cfg e) \<Longrightarrow> S (sql_insert_miner i)"
    and submission_stmts: "S (sql_update_submission dl n i h)" "S (sql_insert_submission i h dl n)" "S (sql_set_best i h)"
begin

lemma cached: "holds Q w \<Longrightarrow> holds Q (upd_cache f w)" "holds Q w \<Longrightarrow> holds Q (w\<lparr>cc := c\<rparr>)"
  by (simp_all add: holds_def upd_cache_def cache)

lemmas mining_rules = frames effects round_stmts submission_stmts cached

lemma cacheRewardRecipients: "holds Q w \<Longrightarrow> holds Q (cacheRewardRecipients e w)"
  unfolding cacheRewardRecipients_def by (intro mining_rules | assumption)+

lemma newBlock: "holds Q w \<Longrightarrow> holds_op Q (newBlock e bt gs h w)"
proof -
  have close: "holds Q w \<Longrightarrow> holds_op Q (close_current e bt gs b h w)" for b w
    unfolding close_current_def Let_def by (intro mining_rules | assumption | rule frames_case_pair)+
  have old: "holds Q w \<Longrightarrow> holds_op Q (add_old_block e h w)" for w
    unfolding add_old_block_def Let_def by (intro mining_rules | assumption | rule frames_case_pair)+
  show "holds Q w \<Longrightarrow> holds_op Q (newBlock e bt gs h w)" unfolding newBlock_def Let_def
    by (intro mining_rules close old cacheRewardRecipients | assumption | rule frames_case_pair)+
qed

lemma MaybeSwitchOrNewBlock: "holds Q w \<Longrightarrow> holds_o Q (MaybeSwitchOrNewBlock e bt gs h w)"
proof -
  assume w: "holds Q w"
  have range: "holds Q (MinerRange (switch_miner e h) ms w)" if "holds Q w" for ms w
    using that
  proof (rule MinerRange_inv)
    fix k p w assume "holds Q w"
    then show "holds Q (switch_miner e h k p w)" unfolding switch_miner_def by (intro mining_rules | assumption)+
  qed
  have switch: "holds_p Q (switchBlock e bt gs h w)" unfolding switchBlock_def Let_def
    using w by (intro mining_rules range | assumption)+
  have new: "holds_o Q (case newBlock e bt gs h w of None \<Rightarrow> None | Some (w, err) \<Rightarrow> Some w)"
    using newBlock [OF w, of bt gs h] by (auto simp: holds_defs split: option.splits)
  show ?thesis unfolding MaybeSwitchOrNewBlock_def Let_def using w by (intro mining_rules switch new | assumption)+
qed

lemma FirstOrCreateMiner: "holds Q w \<Longrightarrow> holds_op Q (FirstOrCreateMiner e i w)"
proof -
  assume w: "holds Q w"
  have db: "holds_p Q (getMinerFromDB e i w)" unfolding getMinerFromDB_def using w by (intro mining_rules | assumption)+
  have create: "holds_op Q (createMiner e i w)" if w: "holds Q w" for w
  proof (cases "i = FeeAccountID (ev_cfg e)")
    case True
    then show ?thesis using w by (simp add: createMiner_def holds_defs)
  next
    case False
    show ?thesis
    proof (cases "Encode i")
      case (Some address)
      show ?thesis unfolding createMiner_def Let_def if_not_P [OF False] Some Option.bind.bind_lunit using w
        by (intro mining_rules miner_stmts False Some | assumption | rule frames_case_pair)+
    qed (use False in \<open>simp add: createMiner_def frames\<close>)
  qed
  have found: "holds_op Q (case createMiner e i w of None \<Rightarrow> None | Some (w, Inl err) \<Rightarrow> Some (w, None)
      | Some (w, Inr m) \<Rightarrow> Some (w, Some m))" if "holds Q w" for w
    using create [OF that] by (auto simp: holds_defs split: option.splits sum.splits)
  have stored: "holds_p Q (case new_miner_object m (cc w) of (p, c) \<Rightarrow> case LoadOrStoreMiner p c of (q, c) \<Rightarrow> (w\<lparr>cc := c\<rparr>, Some q))"
    if "holds Q w" for m w
    using cached(2) [OF that] by (simp add: holds_p_def holds_def split: prod.split)
  show ?thesis unfolding FirstOrCreateMiner_def Let_def using w
    by (intro found stored db mining_rules | assumption | rule frames_case_pair)+
qed

lemma UpdateOrCreateNonceSubmission: "holds Q w \<Longrightarrow> holds_op Q (UpdateOrCreateNonceSubmission e p h d n bt gs w)"
  unfolding UpdateOrCreateNonceSubmission_def Let_def
  by (intro mining_rules MaybeSwitchOrNewBlock | assumption | rule frames_case_pair)+

lemma UpdateBestSubmission: "holds Q w \<Longrightarrow> holds_o Q (UpdateBestSubmission e i h w)"
  unfolding UpdateBestSubmission_def by (intro mining_rules | assumption)+

lemma GetBestNonceSubmissionOnBlock: "holds Q w \<Longrightarrow> holds_p Q (GetBestNonceSubmissionOnBlock e h w)"
  unfolding GetBestNonceSubmissionOnBlock_def by (intro mining_rules | assumption)+

text \<open>The start, once the fee account is there.\<close>

lemma loadCurrentBlock: "holds Q w \<Longrightarrow> holds_op Q (loadCurrentBlock e w)"
  unfolding loadCurrentBlock_def by (intro mining_rules | assumption)+

lemma cacheMiners: "holds Q w \<Longrightarrow> holds_o Q (cacheMiners e w)"
  unfolding cacheMiners_def Let_def by (intro mining_rules | assumption)+

end

end
