(* ===== verification/Pool.thy ===== *)
theory Pool
  imports Frames Submissions Startup
begin

text \<open>
  The package \<^verbatim>\<open>pkg/pool\<close>: the goroutine that keeps the best nonce submission and hands it to the wallets
  when its deadline comes close (\<open>forge\<close>), the polling for new blocks, the periodic jobs, the HTTP handler for
  miners and the handler for other nodes. The composition of these goroutines is a step relation: each handler
  is one step, and a submission that a handler sends over the unbuffered channel waits until \<open>forge\<close>
  receives it. The deadline that the dispatcher computes is the parameter \<open>pp_calc\<close> (the theory \<open>Dispatch\<close>
  shows that every request gets the deadline of its own data), \<open>pp_log\<close> is \<open>math.Log\<close>.
\<close>

record pool_params =
  pp_calc :: "native_request \<Rightarrow> uint64"
  pp_log :: "float64 \<Rightarrow> float64"

section \<open>Planning the submission\<close>

definition submitBefore :: int64 where "submitBefore = 30 * second"
definition nonceSubmissionRetries :: nat where "nonceSubmissionRetries = 3"

text \<open>The conversion of a \<open>float64\<close> to \<open>uint64\<close> as compiled for amd64.\<close>

definition f_to_uint64 :: "float64 \<Rightarrow> uint64" where
  "f_to_uint64 a = (if flt a (F (2 ^ 63)) then of_int (f_to_int 64 a)
     else of_int (f_to_int 64 (fsub a (F (2 ^ 63)))) XOR 2 ^ 63)"

definition effective_deadline :: "pool_params \<Rightarrow> Config \<Rightarrow> uint64 \<Rightarrow> uint64" where
  "effective_deadline P cfg deadline =
     (if SodiumDeadlines cfg \<and> 0 < deadline
      then f_to_uint64 (fdiv (fmul (pp_log P (f_of_uint64 deadline)) (F 240)) (pp_log P (F 240)))
      else deadline)"

text \<open>\<open>time.Since\<close> saturates; the product with \<open>time.Second\<close> and the differences wrap around.\<close>

definition time_since :: "env \<Rightarrow> world \<Rightarrow> time \<Rightarrow> int64" where
  "time_since e w t = max (- (2 ^ 63)) (min (2 ^ 63 - 1) (time_now e w - t))"

definition submit_due :: "uint64 \<Rightarrow> int64 \<Rightarrow> int64" where
  "submit_due deadline since = i64 (i64 (i64 (sint deadline * second) - since) - submitBefore)"

text \<open>
  The local state of \<open>forge\<close>: the best submission, and the time at which the channel \<open>after\<close> delivers;
  \<open>None\<close> is a channel that has delivered, or one that delivers in 292 years.
\<close>

record forge_state =
  fgBest :: NonceSubmission
  fgAfter :: "time option"

definition updateSubmitTimer :: "pool_params \<Rightarrow> env \<Rightarrow> world \<Rightarrow> uint64 \<Rightarrow> time \<Rightarrow> forge_state \<Rightarrow> forge_state" where
  "updateSubmitTimer P e w deadline roundStart st =
     (let due = submit_due (effective_deadline P (ev_cfg e) deadline) (time_since e w roundStart)
      in st\<lparr>fgAfter := Some (time_now e w + max 0 due)\<rparr>)"

section \<open>The goroutine \<open>forge\<close>\<close>

definition no_submission :: NonceSubmission where
  "no_submission = zero_NonceSubmission\<lparr>nsDeadline := - 1\<rparr>"

definition forge_start :: "pool_params \<Rightarrow> env \<Rightarrow> Block \<Rightarrow> world \<Rightarrow> (world \<times> forge_state) option" where
  "forge_start P e b w =
     (if bBestNonceSubmissionID b \<noteq> None
      then (case GetBestNonceSubmissionOnBlock e (bHeight b) w of
          (w, Inl err) \<Rightarrow> None
        | (w, Inr ns) \<Rightarrow>
            (let w = upd_cache (StoreBestNonceSubmission ns) w
             in Some (w, updateSubmitTimer P e w (nsDeadline ns) (nsRoundStart ns) \<lparr>fgBest = ns, fgAfter = None\<rparr>)))
      else Some (w, \<lparr>fgBest = no_submission, fgAfter = None\<rparr>))"

definition ignored :: "NonceSubmission \<Rightarrow> NonceSubmission \<Rightarrow> bool" where
  "ignored best ns \<longleftrightarrow> nsHeight ns < nsHeight best \<or>
     nsGenerationSignature ns = nsGenerationSignature best \<and> nsDeadline best \<le> nsDeadline ns"

definition forge_receive ::
  "pool_params \<Rightarrow> env \<Rightarrow> NonceSubmission \<Rightarrow> world \<Rightarrow> forge_state \<Rightarrow> (world \<times> forge_state) option" where
  "forge_receive P e ns w st =
     (if ignored (fgBest st) ns then Some (w, st)
      else do {
        w \<leftarrow> UpdateBestSubmission e (nsMinerID ns) (nsHeight ns) w;
        let w = upd_cache (StoreBestNonceSubmission ns) w;
        Some (w, updateSubmitTimer P e w (nsDeadline ns) (nsRoundStart ns) (st\<lparr>fgBest := ns\<rparr>)) })"

text \<open>\<open>submitNonce\<close> with the number of tries that are left; the flag tells whether a wallet has accepted.\<close>

fun submit_tries :: "env \<Rightarrow> nat \<Rightarrow> NonceSubmission \<Rightarrow> world \<Rightarrow> world \<times> bool" where
  "submit_tries e 0 ns w = (w, False)"
| "submit_tries e (Suc n) ns w =
     (case ask e (\<lambda>h. hSubmitNonce h (nsNonce ns) (nsMinerID ns) (nsDeadline ns)) w of
        (w, Inr _) \<Rightarrow> (w, True)
      | (w, Inl err) \<Rightarrow> submit_tries e n ns w)"

definition submitNonce :: "env \<Rightarrow> NonceSubmission \<Rightarrow> world \<Rightarrow> world \<times> bool" where
  "submitNonce e ns w = submit_tries e nonceSubmissionRetries ns w"

definition forge_timeout :: "env \<Rightarrow> world \<Rightarrow> forge_state \<Rightarrow> world \<times> forge_state" where
  "forge_timeout e w st = (fst (submitNonce e (fgBest st) w), st\<lparr>fgAfter := None\<rparr>)"

section \<open>New blocks and jobs\<close>

definition checkAndAddNewBlock :: "env \<Rightarrow> world \<Rightarrow> world option" where
  "checkAndAddNewBlock e w =
     (case ask e hMiningInfo w of
        (w, Inl err) \<Rightarrow> Some w
      | (w, Inr mi) \<Rightarrow>
          MaybeSwitchOrNewBlock e (miBaseTarget mi) (miGenerationSignature mi) (miHeight mi) w)"

datatype job = PayJob | RereadJob | CleanJob

fun run_job :: "env \<Rightarrow> job \<Rightarrow> world \<Rightarrow> world option" where
  "run_job e PayJob w = do { w \<leftarrow> RewardBlocks e w; Payout e w }"
| "run_job e RereadJob w = Some (RereadMinerNames e w)"
| "run_job e CleanJob w = CleanDB e w"

section \<open>Requests of miners\<close>

text \<open>\<open>Form.Get\<close> and \<open>Header.Get\<close> return the empty text for a missing key.\<close>

record http_request =
  rqForm :: "string \<Rightarrow> string"
  rqHeader :: "string \<Rightarrow> string"

record http_reply =
  rpStatus :: nat
  rpBody :: string

text \<open>\<open>json.Marshal\<close> writes the two keys in ascending order.\<close>

definition formatJSONError :: "int64 \<Rightarrow> string \<Rightarrow> string" where
  "formatJSONError errorCode errorMsg =
     ''{'' @ json_string ''errorCode'' @ '':'' @ json_string (FormatInt errorCode) @ '','' @
     json_string ''errorDescription'' @ '':'' @ json_string errorMsg @ ''}''"

definition rejection :: "nat \<Rightarrow> int64 \<Rightarrow> string \<Rightarrow> http_reply" where
  "rejection status errorCode errorMsg = \<lparr>rpStatus = status, rpBody = formatJSONError errorCode errorMsg\<rparr>"

definition success_body :: "uint64 \<Rightarrow> string" where
  "success_body deadline = ''{'' @ [CHR 34] @ ''deadline'' @ [CHR 34] @ '':'' @ FormatUint deadline @ '','' @
     [CHR 34] @ ''result'' @ [CHR 34] @ '':'' @ [CHR 34] @ ''success'' @ [CHR 34] @ ''}''"

definition wrong_recipient :: http_reply where
  "wrong_recipient = rejection 403 1004 ''Account's reward recipient doesn't match the pool's''"

text \<open>
  The checks before a miner object is needed: a reply that ends the request, or the account and the nonce.
  A blacklisted account gets an empty reply.
\<close>

definition check_request :: "env \<Rightarrow> RoundInfo \<Rightarrow> http_request \<Rightarrow> cache \<Rightarrow> http_reply + uint64 \<times> uint64" where
  "check_request e ri req c =
     (if (case ParseUint (rqForm req ''blockheight'') of Inl _ \<Rightarrow> False | Inr minerHeight \<Rightarrow> minerHeight \<noteq> riHeight ri)
      then Inl (rejection 400 1005 ''Submitted on wrong height'')
      else case ParseUint (rqForm req ''nonce'') of
        Inl _ \<Rightarrow> Inl (rejection 400 1012 ''submitNonce request has bad 'nonce' parameter - should be uint64'')
      | Inr n \<Rightarrow>
          (case ParseUint (rqForm req ''accountId'') of
             Inl _ \<Rightarrow> Inl (rejection 400 1013 ''submitNonce request has bad 'accountId' parameter - should be uint64'')
           | Inr accountID \<Rightarrow>
               if accountID = 0
               then Inl (rejection 400 1013 ''submitNonce request has bad 'accountId' parameter - should be uint64'')
               else if accountID \<in> AccountIDBlacklist (ev_cfg e) then Inl \<lparr>rpStatus = 200, rpBody = []\<rparr>
               else if \<not> fst (IsRewardRecipient accountID c) then Inl wrong_recipient
               else Inr (accountID, n)))"

definition user_agent :: "http_request \<Rightarrow> string" where
  "user_agent req = (if rqHeader req ''User-Agent'' = [] then rqHeader req ''X-Miner'' else rqHeader req ''User-Agent'')"

text \<open>
  The handler for \<open>submitNonce\<close>: the reply, and the submission that is sent to \<open>forge\<close>. The round
  information was read when the request came in; the cache may have moved on since. \<open>None\<close> is a panic, which
  \<open>net/http\<close> turns into an aborted connection.
\<close>

definition processSubmitNonceRequest ::
  "pool_params \<Rightarrow> env \<Rightarrow> RoundInfo \<Rightarrow> http_request \<Rightarrow> world \<Rightarrow> (world \<times> http_reply \<times> NonceSubmission option) option" where
  "processSubmitNonceRequest P e ri req w =
     (case check_request e ri req (cc w) of
        Inl reply \<Rightarrow> Some (w, reply, None)
      | Inr (accountID, n) \<Rightarrow> do {
          (w, m) \<leftarrow> FirstOrCreateMiner e accountID w;
          (case m of
             None \<Rightarrow> Some (w, wrong_recipient, None)
           | Some p \<Rightarrow> do {
               let w = upd_cache (map_miner p (\<lambda>mi. mi\<lparr>UserAgent := user_agent req\<rparr>)) w;
               deadlineReq \<leftarrow> NewCalcDeadlineRequest 0 accountID n (riBaseTarget ri) (riScoop ri) (riGenSig ri);
               let deadline = pp_calc P (native deadlineReq);
               if DeadlineLimit (ev_cfg e) \<noteq> 0 \<and> DeadlineLimit (ev_cfg e) < deadline
               then Some (w, rejection 400 1008 ''deadline exceeds deadline limit of the pool'', None)
               else do {
                 let reply = \<lparr>rpStatus = 200, rpBody = success_body deadline\<rparr>;
                 (w, err) \<leftarrow> UpdateOrCreateNonceSubmission e p (riHeight ri) deadline n (riBaseTarget ri) [] w;
                 Some (case err of
                     Some _ \<Rightarrow> (w, reply, None)
                   | None \<Rightarrow> (w, reply, Some \<lparr>nsNonce = n, nsDeadline = deadline, nsMinerID = accountID,
                       nsHeight = riHeight ri, nsName = mName (miner_at (cc w) p),
                       nsAddress = mAddress (miner_at (cc w) p), nsRoundStart = riRoundStart ri,
                       nsGenerationSignature = riGenerationSignature ri\<rparr>)) } }) })"

text \<open>The rate limiter is a library; its key is the address of the client with the type of the request.\<close>

definition generateLimiterKey :: "string \<Rightarrow> http_request \<Rightarrow> string" where
  "generateLimiterKey ip req = ip @ rqForm req ''requestType''"

definition rateLimitDeniedHandler :: http_reply where
  "rateLimitDeniedHandler = \<lparr>rpStatus = 429, rpBody = ''limit exceeded'' @ [CHR 10]\<rparr>"

definition burst_handler ::
  "pool_params \<Rightarrow> env \<Rightarrow> bool \<Rightarrow> RoundInfo \<Rightarrow> http_request \<Rightarrow> world \<Rightarrow> (world \<times> http_reply \<times> NonceSubmission option) option" where
  "burst_handler P e limited ri req w =
     (if limited then Some (w, rateLimitDeniedHandler, None)
      else if rqForm req ''requestType'' = ''getMiningInfo''
      then Some (w, \<lparr>rpStatus = 200, rpBody = GetMiningInfoJSON (cc w)\<rparr>, None)
      else if rqForm req ''requestType'' = ''submitNonce'' then processSubmitNonceRequest P e ri req w
      else Some (w, \<lparr>rpStatus = 200, rpBody = []\<rparr>, None))"

section \<open>Requests of nodes\<close>

record NodeSubmitNonceRequest =
  srAccountID :: uint64
  srNonce :: uint64
  srDeadline :: uint64
  srBlockHeight :: uint64
  srBaseTarget :: uint64
  srGenSig :: string

text \<open>
  \<open>nodeServer.SubmitNonce\<close>. The result of \<open>FirstOrCreateMiner\<close> is not checked: for a nil pointer the
  next call panics, and gRPC does not recover. The round information is read twice.
\<close>

definition node_SubmitNonce ::
  "env \<Rightarrow> RoundInfo \<Rightarrow> NodeSubmitNonceRequest \<Rightarrow> world \<Rightarrow> (world \<times> model_error option \<times> NonceSubmission option) option" where
  "node_SubmitNonce e ri msg w = do {
     (w, m) \<leftarrow> FirstOrCreateMiner e (srAccountID msg) w;
     p \<leftarrow> m;
     (w, err) \<leftarrow> UpdateOrCreateNonceSubmission e p (srBlockHeight msg) (srDeadline msg) (srNonce msg)
       (srBaseTarget msg) (srGenSig msg) w;
     Some (case err of
         Some er \<Rightarrow> (w, Some er, None)
       | None \<Rightarrow>
           if riHeight ri \<le> srBlockHeight msg
           then (let ri = GetRoundInfo (cc w)
             in (w, None, Some \<lparr>nsNonce = srNonce msg, nsDeadline = srDeadline msg, nsMinerID = srAccountID msg,
                   nsHeight = riHeight ri, nsName = mName (miner_at (cc w) p),
                   nsAddress = mAddress (miner_at (cc w) p), nsRoundStart = riRoundStart ri,
                   nsGenerationSignature = riGenerationSignature ri\<rparr>))
           else (w, None, None)) }"

text \<open>The value of the context under the key \<^verbatim>\<open>token\<close>; a value that is not a string panics.\<close>

datatype ctx_value = NoValue | StringValue string | OtherValue

definition authInterceptor :: "ctx_value \<Rightarrow> ('r \<Rightarrow> string + 'a) \<Rightarrow> 'r \<Rightarrow> (string + 'a) option" where
  "authInterceptor t handler req =
     (case t of
        NoValue \<Rightarrow> Some (Inl ''incorrect access token'')
      | OtherValue \<Rightarrow> None
      | StringValue token \<Rightarrow> if token \<noteq> ''valid-token'' then Some (Inl ''incorrect access token'') else Some (handler req))"

section \<open>The goroutines together\<close>

text \<open>
  \<open>ps_rounds\<close> are the round informations that requests have read; a request may still use an old one.
  \<open>ps_sending\<close> are the submissions that wait to be received. The last two fields are histories:
  what \<open>forge\<close> has received and what it has handed to the wallets.
\<close>

record pool_state =
  ps_world :: world
  ps_forge :: forge_state
  ps_rounds :: "RoundInfo list"
  ps_sending :: "NonceSubmission list"
  ps_received :: "NonceSubmission list"
  ps_submitted :: "NonceSubmission list"

definition outgoing :: "NonceSubmission option \<Rightarrow> NonceSubmission list" where
  "outgoing ns = (case ns of None \<Rightarrow> [] | Some n \<Rightarrow> [n])"

inductive pool_step :: "pool_params \<Rightarrow> env \<Rightarrow> pool_state \<Rightarrow> pool_state \<Rightarrow> bool" for P e where
  poll: "checkAndAddNewBlock e (ps_world s) = Some w \<Longrightarrow> pool_step P e s (s\<lparr>ps_world := w\<rparr>)"
| job: "run_job e j (ps_world s) = Some w \<Longrightarrow> pool_step P e s (s\<lparr>ps_world := w\<rparr>)"
| arrive: "pool_step P e s (s\<lparr>ps_rounds := ps_rounds s @ [GetRoundInfo (cc (ps_world s))]\<rparr>)"
| serve: "ri \<in> set (ps_rounds s) \<Longrightarrow> burst_handler P e limited ri req (ps_world s) = Some (w, reply, ns) \<Longrightarrow>
    pool_step P e s (s\<lparr>ps_world := w, ps_sending := ps_sending s @ outgoing ns\<rparr>)"
| node: "ri \<in> set (ps_rounds s) \<Longrightarrow> node_SubmitNonce e ri msg (ps_world s) = Some (w, err, ns) \<Longrightarrow>
    pool_step P e s (s\<lparr>ps_world := w, ps_sending := ps_sending s @ outgoing ns\<rparr>)"
| receive: "ns \<in> set (ps_sending s) \<Longrightarrow> forge_receive P e ns (ps_world s) (ps_forge s) = Some (w, st) \<Longrightarrow>
    pool_step P e s (s\<lparr>ps_world := w, ps_forge := st, ps_sending := remove1 ns (ps_sending s),
      ps_received := ps_received s @ [ns]\<rparr>)"
| timeout: "fgAfter (ps_forge s) = Some t \<Longrightarrow> t \<le> time_now e (ps_world s) \<Longrightarrow>
    forge_timeout e (ps_world s) (ps_forge s) = (w, st) \<Longrightarrow>
    pool_step P e s (s\<lparr>ps_world := w, ps_forge := st, ps_submitted := ps_submitted s @ [fgBest (ps_forge s)]\<rparr>)"

text \<open>\<open>NewPool\<close> starts the goroutines with the block that is current at that moment.\<close>

definition NewPool :: "pool_params \<Rightarrow> env \<Rightarrow> world \<Rightarrow> pool_state option" where
  "NewPool P e w = do {
     (w, st) \<leftarrow> forge_start P e (CurrentBlock (cc w)) w;
     Some \<lparr>ps_world = w, ps_forge = st, ps_rounds = [], ps_sending = [], ps_received = [], ps_submitted = []\<rparr> }"

inductive_cases pool_stepE: "pool_step P e s s'"

end
