(* ===== verification/PoolProofs.thy ===== *)
theory PoolProofs
  imports Pool
begin

text \<open>
  Correctness of the pool: when the best submission is handed to the wallets and how often, what a miner
  can rely on when its submission is accepted, and the invariant of the goroutines together: for every
  interleaving the cache stays consistent and \<open>forge\<close> holds the best submission of the highest round.
\<close>

section \<open>The time of submission\<close>


text \<open>
  Without a deadline limit this can go wrong: the product of a large deadline with \<open>time.Second\<close> wraps around, the
  delay is negative, and the nonce is handed to the wallets at once.
\<close>

lemma large_deadline_submitted_at_once: "submit_due 13835058055 0 < 0"
  by (simp add: submit_due_def second_def submitBefore_def i64_def)

section \<open>The tries\<close>

definition accepts :: "NonceSubmission \<Rightarrow> WalletHandler \<Rightarrow> bool" where
  "accepts ns h \<longleftrightarrow> (case hSubmitNonce h (nsNonce ns) (nsMinerID ns) (nsDeadline ns) of Inl _ \<Rightarrow> False | Inr _ \<Rightarrow> True)"

lemma submit_tries_ok:
  "submit_tries e n ns w = (w', ok) \<Longrightarrow>
   db w' = db w \<and> cc w' = cc w \<and> tick w' \<le> tick w + n \<and>
   list_all (\<lambda>t. \<not> accepts ns (ev_wallet e t)) [tick w..<tick w' - (if ok then 1 else 0)] \<and>
   (if ok then tick w < tick w' \<and> accepts ns (ev_wallet e (tick w' - 1)) else tick w' = tick w + n)"
proof (induction n arbitrary: w)
  case (Suc n)
  obtain r where r: "ask e (\<lambda>h. hSubmitNonce h (nsNonce ns) (nsMinerID ns) (nsDeadline ns)) w = (next_tick w, r)"
    and rv: "r = hSubmitNonce (ev_wallet e (tick w)) (nsNonce ns) (nsMinerID ns) (nsDeadline ns)"
    by (simp add: ask_def)
  show ?case
  proof (cases r)
    case (Inl err)
    then have na: "\<not> accepts ns (ev_wallet e (tick w))" using rv by (simp add: accepts_def)
    have IH: "submit_tries e n ns (next_tick w) = (w', ok)" using Suc.prems r Inl by simp
    have t: "tick (next_tick w) = Suc (tick w)" by (simp add: next_tick_def)
    note ih = Suc.IH [OF IH, unfolded t]
    have "tick w < tick w' - (if ok then 1 else 0)" using ih by (auto split: if_splits)
    then have "[tick w..<tick w' - (if ok then 1 else 0)] = tick w # [Suc (tick w)..<tick w' - (if ok then 1 else 0)]"
      by (rule upt_conv_Cons)
    then have "list_all (\<lambda>t. \<not> accepts ns (ev_wallet e t)) [tick w..<tick w' - (if ok then 1 else 0)]"
      using ih na by simp
    then show ?thesis using ih by (auto simp del: upt_Suc split: if_splits)
  next
    case (Inr u)
    then have "accepts ns (ev_wallet e (tick w))" using rv by (simp add: accepts_def)
    then show ?thesis using Suc.prems r Inr by (auto simp: next_tick_def)
  qed
qed simp

text \<open>C28.
  The best nonce is offered to the wallets until one accepts it, at most three times: either the last offer
  was accepted and all before it were refused, or three offers were refused. Database and cache stay as they are.
\<close>

theorem submitNonce_retries:
  assumes "submitNonce e ns w = (w', ok)"
  shows "db w' = db w \<and> cc w' = cc w \<and> tick w' \<le> tick w + 3 \<and>
    list_all (\<lambda>t. \<not> accepts ns (ev_wallet e t)) [tick w..<tick w' - (if ok then 1 else 0)] \<and>
    (if ok then tick w < tick w' \<and> accepts ns (ev_wallet e (tick w' - 1)) else tick w' = tick w + 3)"
  using submit_tries_ok [OF assms [unfolded submitNonce_def nonceSubmissionRetries_def]] .

theorem submitNonce_retries_witness:
  "accepts no_submission (ev_wallet sample_env 0) \<and> snd (submitNonce sample_env no_submission sample_world)"
proof -
  obtain w' ok where x: "submitNonce sample_env no_submission sample_world = (w', ok)" by (metis surj_pair)
  have a: "accepts no_submission (ev_wallet sample_env t)" for t
    by (simp add: accepts_def sample_env_def sample_handler_def)
  have "ok" using submitNonce_retries [OF x] a by (cases ok) (auto simp: upt_rec)
  then show ?thesis using a x by simp
qed

section \<open>Accepted submissions\<close>

lemma check_request_Inr:
  assumes "check_request e ri req c = Inr (i, n)"
  shows "ParseUint (rqForm req ''accountId'') = Inr i" "ParseUint (rqForm req ''nonce'') = Inr n" "i \<noteq> 0"
    "i \<notin> AccountIDBlacklist (ev_cfg e)" "map_of (rewardRecipient c) i = Some True"
    "ParseUint (rqForm req ''blockheight'') = Inr h \<Longrightarrow> h = riHeight ri"
  using assms by (auto simp: check_request_def IsRewardRecipient_def split: if_splits sum.splits option.splits)

text \<open>The request after its checks, for a miner object that exists.\<close>

lemma processSubmit_miner:
  assumes run: "processSubmitNonceRequest P e ri req w = Some (w', reply, out)"
    and "check_request e ri req (cc w) = Inr (i, n)" "FirstOrCreateMiner e i w = Some (w1, Some p)"
  obtains (limit) "out = None" "w' = upd_cache (map_miner p (\<lambda>mi. mi\<lparr>UserAgent := user_agent req\<rparr>)) w1"
  | (stored) d err where "d = pp_calc P \<lparr>account_id = i, nonce = n, base_target = riBaseTarget ri,
        scoop_nr = riScoop ri, gen_sig = riGenSig ri\<rparr>"
      "DeadlineLimit (ev_cfg e) = 0 \<or> d \<le> DeadlineLimit (ev_cfg e)"
      "UpdateOrCreateNonceSubmission e p (riHeight ri) d n (riBaseTarget ri) []
         (upd_cache (map_miner p (\<lambda>mi. mi\<lparr>UserAgent := user_agent req\<rparr>)) w1) = Some (w', err)"
      "reply = \<lparr>rpStatus = 200, rpBody = success_body d\<rparr>"
      "out = (if err = None then Some \<lparr>nsNonce = n, nsDeadline = d, nsMinerID = i,
         nsHeight = riHeight ri, nsName = mName (miner_at (cc w') p), nsAddress = mAddress (miner_at (cc w') p),
         nsRoundStart = riRoundStart ri, nsGenerationSignature = riGenerationSignature ri\<rparr> else None)"
proof -
  define w2 where "w2 = upd_cache (map_miner p (\<lambda>mi. mi\<lparr>UserAgent := user_agent req\<rparr>)) w1"
  define d where "d = pp_calc P \<lparr>account_id = i, nonce = n, base_target = riBaseTarget ri,
        scoop_nr = riScoop ri, gen_sig = riGenSig ri\<rparr>"
  have ne: "riGenSig ri \<noteq> []"
  proof
    assume "riGenSig ri = []"
    then show False using run by (simp add: processSubmitNonceRequest_def assms(2,3) NewCalcDeadlineRequest_def Let_def)
  qed
  show ?thesis
  proof (cases "DeadlineLimit (ev_cfg e) \<noteq> 0 \<and> DeadlineLimit (ev_cfg e) < d")
    case True
    then have "out = None \<and> w' = w2" using run ne
      by (simp add: processSubmitNonceRequest_def assms(2,3) NewCalcDeadlineRequest_def Let_def d_def w2_def)
    then show ?thesis using limit by (simp add: w2_def)
  next
    case False
    then obtain w3 err where u: "UpdateOrCreateNonceSubmission e p (riHeight ri) d n (riBaseTarget ri) [] w2 = Some (w3, err)"
      using run ne
      by (auto simp: processSubmitNonceRequest_def assms(2,3) NewCalcDeadlineRequest_def Let_def d_def w2_def bind_eq_Some_conv)
    have "(w', reply, out) = (case err of
        Some _ \<Rightarrow> (w3, \<lparr>rpStatus = 200, rpBody = success_body d\<rparr>, None)
      | None \<Rightarrow> (w3, \<lparr>rpStatus = 200, rpBody = success_body d\<rparr>, Some \<lparr>nsNonce = n, nsDeadline = d, nsMinerID = i,
         nsHeight = riHeight ri, nsName = mName (miner_at (cc w3) p), nsAddress = mAddress (miner_at (cc w3) p),
         nsRoundStart = riRoundStart ri, nsGenerationSignature = riGenerationSignature ri\<rparr>))"
      using run ne False u
      by (cases err) (auto simp: processSubmitNonceRequest_def assms(2,3) NewCalcDeadlineRequest_def Let_def d_def w2_def)
    then show ?thesis using stored [of d err] False u by (cases err) (auto simp: not_less w2_def d_def)
  qed
qed

lemma map_miner_agent:
  assumes "cache_inv cfg c"
  shows "cache_inv cfg (map_miner p (\<lambda>mi. mi\<lparr>UserAgent := a\<rparr>) c)"
proof (rule map_miner_inv [OF assms])
  assume "p < length (heap c)"
  then have "miner_wf (heap c ! p)" using assms by (auto simp: cache_inv_def miners_wf_def)
  then show "miner_wf ((heap c ! p)\<lparr>UserAgent := a\<rparr>)" by (simp add: miner_wf_def)
qed simp

lemma FirstOrCreateMiner_pointer:
  assumes "cache_inv cfg (cc w)" "FirstOrCreateMiner e i w = Some (w1, Some p)"
  shows "cache_inv cfg (cc w1)" "p < length (heap (cc w1))" "miner_wf (miner_at (cc w1) p)" "mID (miner_at (cc w1) p) = i"
    "currentBlock (cc w1) = currentBlock (cc w)" "bestNonceSubmission (cc w1) = bestNonceSubmission (cc w)"
proof -
  have s: "cache_inv cfg (cc w1)" "GetMiner i (cc w1) = Some p"
    "currentBlock (cc w1) = currentBlock (cc w)" "bestNonceSubmission (cc w1) = bestNonceSubmission (cc w)"
    using FirstOrCreateMiner_spec [OF assms(1), of e i] assms(2) by auto
  then show "cache_inv cfg (cc w1)" "p < length (heap (cc w1))" "miner_wf (miner_at (cc w1) p)" "mID (miner_at (cc w1) p) = i"
    "currentBlock (cc w1) = currentBlock (cc w)" "bestNonceSubmission (cc w1) = bestNonceSubmission (cc w)"
    using GetMiner_pointer [OF s(1,2)] by simp_all
qed


section \<open>The steps and the cache\<close>

definition steady :: "Config \<Rightarrow> world \<Rightarrow> world \<Rightarrow> bool" where
  "steady cfg w w' \<longleftrightarrow> cache_inv cfg (cc w') \<and> advanced (cc w) (cc w')"

lemma quiet_advanced: "quiet c c' \<Longrightarrow> advanced c c'"
  by (simp add: quiet_def advanced_def)

lemma run_job_steady:
  assumes "run_job e j w = Some w'" "cache_inv cfg (cc w)"
  shows "steady cfg w w'"
proof -
  have s: "holds_o (on_cache (quiet (cc w))) (run_job e j w)" "holds_o (on_cache (cache_inv cfg)) (run_job e j w)"
  proof -
    have h: "holds (on_cache (quiet (cc w))) w" "holds (on_cache (cache_inv cfg)) w" using assms(2) by (simp_all add: holds_def on_cache_def)
    show "holds_o (on_cache (quiet (cc w))) (run_job e j w)"
      using h(1) by (cases j) (simp_all add: frames jobs.RewardBlocks jobs.Payout jobs.RereadMinerNames jobs.CleanDB)
    show "holds_o (on_cache (cache_inv cfg)) (run_job e j w)"
      using h(2) by (cases j) (simp_all add: frames jobs_inv.RewardBlocks jobs_inv.Payout jobs_inv.RereadMinerNames jobs_inv.CleanDB)
  qed
  then show ?thesis using assms(1) quiet_advanced by (simp add: holds_o_def on_cache_def steady_def)
qed

lemma poll_steady:
  assumes "checkAndAddNewBlock e w = Some w'" "cache_inv (ev_cfg e) (cc w)"
  shows "steady (ev_cfg e) w w'"
proof -
  obtain w1 r where a: "ask e hMiningInfo w = (w1, r)" by (metis surj_pair)
  have w1: "cc w1 = cc w" using ask_next [OF a] by simp
  show ?thesis
  proof (cases r)
    case (Inl err)
    then show ?thesis using assms a w1 by (simp add: checkAndAddNewBlock_def steady_def)
  next
    case (Inr mi)
    then have "MaybeSwitchOrNewBlock e (miBaseTarget mi) (miGenerationSignature mi) (miHeight mi) w1 = Some w'"
      using assms(1) a by (simp add: checkAndAddNewBlock_def)
    from MaybeSwitch_inv [OF this] show ?thesis using assms(2) w1 by (auto simp: steady_def advanced_def)
  qed
qed

lemma submission_steady:
  assumes "cache_inv (ev_cfg e) (cc w)" "FirstOrCreateMiner e i w = Some (w1, Some p)"
    and "UpdateOrCreateNonceSubmission e p h d n bt gs (upd_cache (map_miner p (\<lambda>mi. mi\<lparr>UserAgent := a\<rparr>)) w1) = Some (w', err) \<or>
      UpdateOrCreateNonceSubmission e p h d n bt gs w1 = Some (w', err)"
  shows "steady (ev_cfg e) w w'"
proof -
  note ptr = FirstOrCreateMiner_pointer [OF assms(1,2)]
  have adv: "advanced (cc w) (cc w1)" using ptr(5,6) by (simp add: advanced_def)
  let ?w2 = "upd_cache (map_miner p (\<lambda>mi. mi\<lparr>UserAgent := a\<rparr>)) w1"
  have i2: "cache_inv (ev_cfg e) (cc ?w2)" using ptr(1) by (simp add: map_miner_agent)
  have adv2: "advanced (cc w) (cc ?w2)" and p2: "p < length (heap (cc ?w2))"
    using adv ptr(2) by (simp_all add: advanced_def map_miner_def)
  show ?thesis
    using assms(3) UpdateOrCreate_inv [OF _ ptr(1,2)] UpdateOrCreate_inv [OF _ i2 p2] advanced_trans [OF adv] advanced_trans [OF adv2]
    unfolding steady_def by blast
qed

text \<open>What a request sends is labelled with its round; for a node it is the round that is current afterwards.\<close>

lemma serve_steady:
  assumes "burst_handler P e limited ri req w = Some (w', reply, out)" "cache_inv (ev_cfg e) (cc w)"
  shows "steady (ev_cfg e) w w' \<and>
    (\<forall>ns \<in> set (outgoing out). (nsHeight ns, nsGenerationSignature ns) = (riHeight ri, riGenerationSignature ri))"
proof -
  have refl: "steady (ev_cfg e) w w" using assms(2) by (simp add: steady_def)
  have sub: "?thesis" if run: "processSubmitNonceRequest P e ri req w = Some (w', reply, out)"
  proof (cases "check_request e ri req (cc w)")
    case (Inl reply)
    then show ?thesis using run refl by (auto simp: processSubmitNonceRequest_def outgoing_def)
  next
    case (Inr b)
    obtain i n where b: "b = (i, n)" by (metis surj_pair)
    obtain w1 m where f: "FirstOrCreateMiner e i w = Some (w1, m)" and s: "cache_inv (ev_cfg e) (cc w1)"
        "currentBlock (cc w1) = currentBlock (cc w)" "bestNonceSubmission (cc w1) = bestNonceSubmission (cc w)"
      using FirstOrCreateMiner_spec [OF assms(2), of e i] by blast
    show ?thesis
    proof (cases m)
      case None
      then show ?thesis using run s
        by (auto simp: processSubmitNonceRequest_def Inr b f outgoing_def steady_def advanced_def)
    next
      case (Some p)
      from run Inr [unfolded b] f [unfolded Some] show ?thesis
      proof (cases rule: processSubmit_miner)
        case limit
        then show ?thesis using s by (simp add: outgoing_def steady_def advanced_def map_miner_agent) (simp add: map_miner_def)
      next
        case (stored d err)
        have "steady (ev_cfg e) w w'" using submission_steady [OF assms(2) f [unfolded Some]] stored(3) by blast
        then show ?thesis using stored(5) by (auto simp: outgoing_def split: if_splits)
      qed
    qed
  qed
  show ?thesis using assms(1) refl sub by (auto simp: burst_handler_def outgoing_def split: if_splits)
qed

lemma node_steady:
  assumes "node_SubmitNonce e ri msg w = Some (w', err, out)" "cache_inv (ev_cfg e) (cc w)"
  shows "steady (ev_cfg e) w w' \<and>
    (\<forall>ns \<in> set (outgoing out). (nsHeight ns, nsGenerationSignature ns) =
       (bHeight (currentBlock (cc w')), bGenerationSignature (currentBlock (cc w'))))"
proof -
  obtain w1 p where f: "FirstOrCreateMiner e (srAccountID msg) w = Some (w1, Some p)"
    using assms(1) by (auto simp: node_SubmitNonce_def bind_eq_Some_conv)
  obtain w2 er where u: "UpdateOrCreateNonceSubmission e p (srBlockHeight msg) (srDeadline msg) (srNonce msg)
       (srBaseTarget msg) (srGenSig msg) w1 = Some (w2, er)"
    using assms(1) by (auto simp: node_SubmitNonce_def bind_eq_Some_conv f)
  have w': "w' = w2" and out: "\<forall>ns \<in> set (outgoing out). nsHeight ns = riHeight (GetRoundInfo (cc w2)) \<and>
      nsGenerationSignature ns = riGenerationSignature (GetRoundInfo (cc w2))"
    using assms(1) by (auto simp: node_SubmitNonce_def f u outgoing_def Let_def split: option.splits if_splits)
  have st: "steady (ev_cfg e) w w2" using submission_steady [OF assms(2) f] u by blast
  then have "roundInfo (cc w2) = round_info_of (currentBlock (cc w2))"
    by (simp add: steady_def cache_inv_def announces_current_def)
  then show ?thesis using st out by (simp add: w' GetRoundInfo_def round_info_of_def)
qed

section \<open>The invariant of the goroutines\<close>

text \<open>The rounds, as pairs of height and generation signature, that requests and submissions refer to.\<close>

definition round_of_info :: "RoundInfo \<Rightarrow> uint64 \<times> string" where
  "round_of_info ri = (riHeight ri, riGenerationSignature ri)"

definition round_of :: "NonceSubmission \<Rightarrow> uint64 \<times> string" where
  "round_of ns = (nsHeight ns, nsGenerationSignature ns)"

definition current_round :: "cache \<Rightarrow> uint64 \<times> string" where
  "current_round c = (bHeight (currentBlock c), bGenerationSignature (currentBlock c))"

definition rounds_of :: "pool_state \<Rightarrow> (uint64 \<times> string) set" where
  "rounds_of s = round_of_info ` set (ps_rounds s) \<union> round_of ` (set (ps_sending s) \<union> set (ps_received s))"

text \<open>One generation signature per height, and no height above the current block.\<close>

definition past_rounds :: "cache \<Rightarrow> (uint64 \<times> string) set \<Rightarrow> bool" where
  "past_rounds c R \<longleftrightarrow> single_valued (insert (current_round c) R) \<and> (\<forall>(h, g) \<in> R. h \<le> bHeight (currentBlock c))"

definition forge_ok :: "pool_state \<Rightarrow> bool" where
  "forge_ok s \<longleftrightarrow> (if fgBest (ps_forge s) = no_submission then fgAfter (ps_forge s) = None
     else fgBest (ps_forge s) \<in> set (ps_received s) \<and> bestNonceSubmission (cc (ps_world s)) = fgBest (ps_forge s)) \<and>
     set (ps_submitted s) \<subseteq> set (ps_received s)"

definition pool_inv :: "Config \<Rightarrow> pool_state \<Rightarrow> bool" where
  "pool_inv cfg s \<longleftrightarrow> cache_inv cfg (cc (ps_world s)) \<and> past_rounds (cc (ps_world s)) (rounds_of s) \<and> forge_ok s"

lemma past_rounds_advanced:
  assumes "past_rounds c R" "advanced c c'"
  shows "past_rounds c' R"
proof (cases "currentBlock c' = currentBlock c")
  case True
  then show ?thesis using assms(1) by (simp add: past_rounds_def current_round_def)
next
  case False
  then have lt: "bHeight (currentBlock c) < bHeight (currentBlock c')" using assms(2) by (simp add: advanced_def)
  then have "h < bHeight (currentBlock c')" if "(h, g) \<in> R" for h g
    using assms(1) that by (fastforce simp: past_rounds_def)
  moreover have "single_valued R" using assms(1) by (auto simp: past_rounds_def single_valued_def)
  ultimately show ?thesis
    by (auto simp: past_rounds_def single_valued_def current_round_def less_imp_le)
qed

lemma past_rounds_mono: "past_rounds c R \<Longrightarrow> R' \<subseteq> insert (current_round c) R \<Longrightarrow> past_rounds c R'"
  unfolding past_rounds_def by (auto simp: single_valued_def current_round_def) blast+

lemma pool_inv_world:
  assumes "pool_inv cfg s" "steady cfg (ps_world s) w" "set out \<subseteq> {ns. round_of ns \<in> insert (current_round (cc w)) (rounds_of s)}"
  shows "pool_inv cfg (s\<lparr>ps_world := w, ps_sending := ps_sending s @ out\<rparr>)"
proof -
  let ?s = "s\<lparr>ps_world := w, ps_sending := ps_sending s @ out\<rparr>"
  have "past_rounds (cc w) (rounds_of s)" using assms(1,2) past_rounds_advanced by (auto simp: pool_inv_def steady_def)
  moreover have "rounds_of ?s \<subseteq> insert (current_round (cc w)) (rounds_of s)"
    using assms(3) by (auto simp: rounds_of_def)
  ultimately have "past_rounds (cc w) (rounds_of ?s)" by (rule past_rounds_mono)
  moreover have "bestNonceSubmission (cc w) = bestNonceSubmission (cc (ps_world s))"
    using assms(2) by (simp add: steady_def advanced_def)
  ultimately show ?thesis using assms(1,2) by (simp add: pool_inv_def steady_def forge_ok_def)
qed

lemma StoreBest_world:
  assumes "cache_inv cfg c"
  shows "cache_inv cfg (StoreBestNonceSubmission ns c)" "bestNonceSubmission (StoreBestNonceSubmission ns c) = ns"
    "currentBlock (StoreBestNonceSubmission ns c) = currentBlock c"
  using StoreBestNonceSubmission_inv [OF assms] by (simp_all add: cache_simps)

lemma forge_receive_cases:
  assumes "forge_receive P e ns w st = Some (w', st')"
  obtains (ignored) "ignored (fgBest st) ns" "w' = w" "st' = st"
    | (taken) "\<not> ignored (fgBest st) ns" "cc w' = StoreBestNonceSubmission ns (cc w)" "fgBest st' = ns" "fgAfter st' \<noteq> None"
proof (cases "ignored (fgBest st) ns")
  case False
  then obtain w1 where "UpdateBestSubmission e (nsMinerID ns) (nsHeight ns) w = Some w1"
    "w' = upd_cache (StoreBestNonceSubmission ns) w1" "fgBest st' = ns" "fgAfter st' \<noteq> None"
    using assms by (auto simp: forge_receive_def bind_eq_Some_conv updateSubmitTimer_def Let_def)
  then show ?thesis using taken False by (auto simp: UpdateBestSubmission_def mustExec_Some)
qed (use assms in \<open>simp add: forge_receive_def\<close>)

lemma same_height_same_round:
  "single_valued R \<Longrightarrow> round_of a \<in> R \<Longrightarrow> round_of b \<in> R \<Longrightarrow> nsHeight a = nsHeight b \<Longrightarrow>
   nsGenerationSignature a = nsGenerationSignature b"
  by (auto simp: round_of_def single_valued_def)

lemma receive_inv:
  assumes inv: "pool_inv cfg s" and ns: "ns \<in> set (ps_sending s)"
    and x: "forge_receive P e ns (ps_world s) (ps_forge s) = Some (w, st)"
  shows "pool_inv cfg (s\<lparr>ps_world := w, ps_forge := st, ps_sending := remove1 ns (ps_sending s),
      ps_received := ps_received s @ [ns]\<rparr>)" (is "pool_inv cfg ?s")
proof -
  let ?c = "cc (ps_world s)" and ?best = "fgBest (ps_forge s)"
  have R: "rounds_of ?s \<subseteq> insert (current_round ?c) (rounds_of s)"
    using ns set_remove1_subset [of ns "ps_sending s"] by (auto simp: rounds_of_def)
  have inv': "cache_inv cfg ?c" "past_rounds ?c (rounds_of ?s)" "forge_ok s"
    using inv past_rounds_mono [OF _ R] by (simp_all add: pool_inv_def)
  from x show ?thesis
  proof (cases rule: forge_receive_cases)
    case ignored
    then show ?thesis using inv' by (auto simp: pool_inv_def forge_ok_def)
  next
    case taken
    have sv: "single_valued (rounds_of s)" using inv by (auto simp: pool_inv_def past_rounds_def single_valued_def)
    have "ns \<noteq> no_submission"
    proof
      assume n: "ns = no_submission"
      then have "?best \<noteq> no_submission" using taken(1) by (auto simp: ignored_def)
      then have b: "?best \<in> set (ps_received s)" using inv'(3) by (simp add: forge_ok_def)
      have "nsHeight ?best = nsHeight ns" using taken(1) n
        by (simp add: ignored_def no_submission_def zero_NonceSubmission_def word_gt_0)
      then have "nsGenerationSignature ns = nsGenerationSignature ?best"
        using same_height_same_round [OF sv, of ns ?best] ns b by (simp add: rounds_of_def)
      then show False using taken(1) n by (simp add: ignored_def no_submission_def)
    qed
    then have "forge_ok ?s"
      using taken inv'(3) StoreBest_world [OF inv'(1), of ns] by (auto simp: forge_ok_def)
    moreover have "past_rounds (cc w) (rounds_of ?s)"
      using inv'(2) StoreBest_world [OF inv'(1), of ns] taken(2) by (simp add: past_rounds_def current_round_def)
    ultimately show ?thesis using StoreBest_world(1) [OF inv'(1), of ns] taken(2) by (simp add: pool_inv_def)
  qed
qed

lemma pool_step_inv:
  assumes "pool_step P e s s'" "pool_inv (ev_cfg e) s"
  shows "pool_inv (ev_cfg e) s'"
proof -
  have ci: "cache_inv (ev_cfg e) (cc (ps_world s))" using assms(2) by (simp add: pool_inv_def)
  have world: "pool_inv (ev_cfg e) (s\<lparr>ps_world := w\<rparr>)" if "steady (ev_cfg e) (ps_world s) w" for w
    using pool_inv_world [OF assms(2) that, of "[]"] by simp
  from assms(1) show ?thesis
  proof (cases rule: pool_step.cases)
    case (poll w)
    then show ?thesis using world [OF poll_steady [OF _ ci]] by simp
  next
    case (job j w)
    then show ?thesis using world [OF run_job_steady [OF _ ci]] by simp
  next
    case arrive
    have "round_of_info (GetRoundInfo (cc (ps_world s))) = current_round (cc (ps_world s))"
      using ci by (simp add: cache_inv_def announces_current_def GetRoundInfo_def round_info_of_def round_of_info_def current_round_def)
    then have "rounds_of s' \<subseteq> insert (current_round (cc (ps_world s))) (rounds_of s)"
      by (auto simp: arrive rounds_of_def)
    then show ?thesis using assms(2) past_rounds_mono by (auto simp: arrive pool_inv_def forge_ok_def)
  next
    case (serve ri limited req w reply ns)
    note st = serve_steady [OF serve(3) ci]
    have "set (outgoing ns) \<subseteq> {n. round_of n \<in> insert (current_round (cc w)) (rounds_of s)}"
      using st serve(2) by (auto simp: round_of_def rounds_of_def round_of_info_def image_iff)
    then show ?thesis using pool_inv_world [OF assms(2) conjunct1 [OF st]] serve(1) by simp
  next
    case (node ri msg w err ns)
    note st = node_steady [OF node(3) ci]
    have "set (outgoing ns) \<subseteq> {n. round_of n \<in> insert (current_round (cc w)) (rounds_of s)}"
      using st by (auto simp: round_of_def current_round_def)
    then show ?thesis using pool_inv_world [OF assms(2) conjunct1 [OF st]] node(1) by simp
  next
    case (receive ns w st)
    then show ?thesis using receive_inv [OF assms(2) receive(2,3)] by simp
  next
    case (timeout t w st)
    obtain ok where "submitNonce e (fgBest (ps_forge s)) (ps_world s) = (w, ok)" and st: "st = (ps_forge s)\<lparr>fgAfter := None\<rparr>"
      using timeout(4) by (auto simp: forge_timeout_def) (metis surj_pair prod.collapse)
    then have w: "cc w = cc (ps_world s)"
      using submit_tries_ok [of e nonceSubmissionRetries "fgBest (ps_forge s)" "ps_world s" w ok] by (simp add: submitNonce_def)
    have "fgBest (ps_forge s) \<noteq> no_submission" using assms(2) timeout(2) by (auto simp: pool_inv_def forge_ok_def)
    then show ?thesis using assms(2) w st by (auto simp: timeout(1) pool_inv_def forge_ok_def rounds_of_def)
  qed
qed

lemma NewPool_inv:
  assumes "NewPool P e w = Some s" "cache_inv cfg (cc w)" "bBestNonceSubmissionID (CurrentBlock (cc w)) = None"
  shows "pool_inv cfg s \<and> ps_received s = [] \<and> fgBest (ps_forge s) = no_submission"
  using assms by (auto simp: NewPool_def forge_start_def pool_inv_def forge_ok_def past_rounds_def rounds_of_def
      single_valued_def current_round_def)

lemma pool_run_inv:
  assumes "(pool_step P e)\<^sup>*\<^sup>* s s'" "pool_inv (ev_cfg e) s"
  shows "pool_inv (ev_cfg e) s'"
  using assms by (induction rule: rtranclp_induct) (simp_all add: pool_step_inv)

text \<open>
  Whatever requests, blocks, answers of the wallets and failures come in, in any order, with handlers that still work
  with the data of an old round: in every state of the pool that is reached without a crash the cache is
  consistent; the best submission that the web server shows is the one \<open>forge\<close> holds; everything that was
  handed to the wallets had been received from a miner or a node; and what requests work with are rounds of the past or
  the current round, with one generation signature for each height.
\<close>

theorem pool_consistent:
  assumes "NewPool P e w = Some s0" "cache_inv (ev_cfg e) (cc w)" "bBestNonceSubmissionID (CurrentBlock (cc w)) = None"
    and "(pool_step P e)\<^sup>*\<^sup>* s0 s"
  shows "cache_inv (ev_cfg e) (cc (ps_world s)) \<and>
    fgBest (ps_forge s) \<in> {no_submission, BestNonceSubmission (cc (ps_world s))} \<and>
    set (ps_submitted s) \<subseteq> set (ps_received s) \<and>
    past_rounds (cc (ps_world s)) (rounds_of s)"
  using pool_run_inv [OF assms(4)] NewPool_inv [OF assms(1-3)]
  by (auto simp: pool_inv_def forge_ok_def BestNonceSubmission_def split: if_splits)

section \<open>The best submission\<close>

text \<open>
  Generation signatures form a hash chain, so blocks of different heights have different signatures; the empty
  signature is that of \<open>forge\<close> before the first submission.
\<close>

definition signatures_differ :: "(uint64 \<times> string) set \<Rightarrow> bool" where
  "signatures_differ R \<longleftrightarrow> single_valued (converse (insert (0, []) R))"

lemma signatures_differ_mono: "R \<subseteq> R' \<Longrightarrow> signatures_differ R' \<Longrightarrow> signatures_differ R"
  unfolding signatures_differ_def by (erule single_valued_subset [rotated]) auto

definition best_of :: "NonceSubmission \<Rightarrow> NonceSubmission set \<Rightarrow> bool" where
  "best_of b S \<longleftrightarrow> (\<forall>ns \<in> S. nsHeight ns \<le> nsHeight b \<and> (nsHeight ns = nsHeight b \<longrightarrow> nsDeadline b \<le> nsDeadline ns))"

lemma best_of_receive:
  assumes "best_of b S" "b = no_submission \<or> b \<in> S" "single_valued R" "round_of ` S \<subseteq> R" "round_of ns \<in> R" "signatures_differ R"
  shows "best_of (if ignored b ns then b else ns) (insert ns S)"
proof (cases "ignored b ns")
  case True
  have "nsHeight ns = nsHeight b" if "nsGenerationSignature ns = nsGenerationSignature b"
  proof -
    have "round_of b \<in> insert (0, []) R"
      using assms(2,4) by (auto simp: no_submission_def zero_NonceSubmission_def round_of_def)
    moreover have "round_of ns \<in> insert (0, []) R" using assms(5) by simp
    ultimately show ?thesis using single_valuedD [OF assms(6) [unfolded signatures_differ_def], of "nsGenerationSignature b"] that
      by (simp add: round_of_def)
  qed
  then have "nsHeight ns \<le> nsHeight b \<and> (nsHeight ns = nsHeight b \<longrightarrow> nsDeadline b \<le> nsDeadline ns)"
    using True by (auto simp: ignored_def)
  then show ?thesis using True assms(1) by (simp add: best_of_def)
next
  case False
  then have le: "nsHeight b \<le> nsHeight ns" by (simp add: ignored_def not_less)
  have "nsDeadline ns \<le> nsDeadline r" if r: "r \<in> S" "nsHeight r = nsHeight ns" for r
  proof -
    have eq: "nsHeight b = nsHeight ns" using assms(1) r le by (auto simp: best_of_def)
    then have rb: "nsDeadline b \<le> nsDeadline r" using assms(1) r by (simp add: best_of_def)
    show ?thesis
    proof (cases "b = no_submission")
      case True
      then have "- 1 \<le> nsDeadline r" using rb by (simp add: no_submission_def)
      then show ?thesis by (rule order_trans [OF word_n1_ge])
    next
      case False
      then have "round_of b \<in> R" using assms(2,4) by blast
      from same_height_same_round [OF assms(3,5) this eq [symmetric]] have "nsDeadline ns < nsDeadline b"
        using \<open>\<not> ignored b ns\<close> by (simp add: ignored_def not_le)
      then show ?thesis using rb by simp
    qed
  qed
  moreover have "nsHeight r \<le> nsHeight ns" if "r \<in> S" for r
    using assms(1) le that order_trans by (auto simp: best_of_def)
  ultimately show ?thesis using False by (simp add: best_of_def)
qed

lemma rounds_of_step:
  assumes "pool_step P e s s'"
  shows "rounds_of s \<subseteq> rounds_of s'"
  using assms
proof (cases rule: pool_step.cases)
  case (receive ns w st)
  have "x \<in> insert ns (set (remove1 ns (ps_sending s)))" if "x \<in> set (ps_sending s)" for x
    using that by (cases "x = ns") simp_all
  then show ?thesis by (auto simp: receive(1) rounds_of_def)
qed (auto simp: rounds_of_def)

lemma pool_step_best:
  assumes "pool_step P e s s'" "pool_inv (ev_cfg e) s" "signatures_differ (rounds_of s')"
    and "best_of (fgBest (ps_forge s)) (set (ps_received s))"
  shows "best_of (fgBest (ps_forge s')) (set (ps_received s'))"
  using assms(1)
proof (cases rule: pool_step.cases)
  case (receive ns w st)
  have sv: "single_valued (rounds_of s)" and b: "fgBest (ps_forge s) = no_submission \<or> fgBest (ps_forge s) \<in> set (ps_received s)"
    using assms(2) by (auto simp: pool_inv_def past_rounds_def forge_ok_def single_valued_def split: if_splits)
  have "signatures_differ (rounds_of s)"
    using signatures_differ_mono [OF rounds_of_step [OF assms(1)] assms(3)] .
  moreover have "round_of ` set (ps_received s) \<subseteq> rounds_of s" "round_of ns \<in> rounds_of s"
    using receive(2) by (auto simp: rounds_of_def)
  ultimately have "best_of (if ignored (fgBest (ps_forge s)) ns then fgBest (ps_forge s) else ns) (insert ns (set (ps_received s)))"
    using best_of_receive [OF assms(4) b sv] by blast
  then show ?thesis using receive(3)
    by (cases rule: forge_receive_cases [OF receive(3)]) (simp_all add: receive(1))
next
  case (timeout t w st)
  then have "fgBest st = fgBest (ps_forge s)" by (auto simp: forge_timeout_def)
  then show ?thesis using assms(4) timeout(1) by simp
qed (use assms(4) in simp_all)

text \<open>
  The pool mines with its best deadline. After any interleaving of requests, old and new blocks and failures,
  and whatever the order in which the waiting submissions are received, \<open>forge\<close> holds a submission of the highest
  round that it has received one for, with the smallest deadline of all received for this round.
  The hypothesis excludes two heights with the same generation signature.
\<close>

theorem pool_best_is_optimal:
  assumes "NewPool P e w = Some s0" "cache_inv (ev_cfg e) (cc w)" "bBestNonceSubmissionID (CurrentBlock (cc w)) = None"
    and "(pool_step P e)\<^sup>*\<^sup>* s0 s" and "signatures_differ (rounds_of s)"
  shows "best_of (fgBest (ps_forge s)) (set (ps_received s)) \<and>
    fgBest (ps_forge s) \<in> insert no_submission (set (ps_received s))"
proof -
  note new = NewPool_inv [OF assms(1-3)]
  have "pool_inv (ev_cfg e) s \<and> best_of (fgBest (ps_forge s)) (set (ps_received s))"
    using assms(4,5)
  proof (induction rule: rtranclp_induct)
    case base
    then show ?case using new by (simp add: best_of_def)
  next
    case (step s s')
    have "signatures_differ (rounds_of s)"
      using signatures_differ_mono [OF rounds_of_step [OF step.hyps(2)] step.prems] .
    then show ?case using step pool_step_inv pool_step_best by blast
  qed
  then show ?thesis by (auto simp: pool_inv_def forge_ok_def split: if_splits)
qed

section \<open>A run\<close>

definition sample_params :: pool_params where
  "sample_params = \<lparr>pp_calc = (\<lambda>r. 5000), pp_log = (\<lambda>x. x)\<rparr>"

definition sample_request :: http_request where
  "sample_request = \<lparr>rqForm = (\<lambda>k. if k = ''requestType'' then ''submitNonce'' else
       if k = ''accountId'' then FormatUint 77 else if k = ''nonce'' then FormatUint 42 else []),
     rqHeader = (\<lambda>k. ''miner'')\<rparr>"

definition sample_mining :: world where
  "sample_mining = sample_world\<lparr>cc := StoreRewardRecipients [(77, True)] (cc sample_world)\<rparr>"

definition sample_agent :: world where
  "sample_agent = upd_cache (map_miner 0 (\<lambda>mi. mi\<lparr>UserAgent := ''miner''\<rparr>)) sample_mining"

lemma sample_mining_inv: "cache_inv (ev_cfg sample_env) (cc sample_mining)"
  using StoreRewardRecipients_inv [OF sample_world_inv] by (simp add: sample_mining_def)

lemma sample_mining_sel:
  "roundInfo (cc sample_mining) = round_info_of sample_current" "currentBlock (cc sample_mining) = sample_current"
  "roundInfo (cc sample_agent) = round_info_of sample_current" "currentBlock (cc sample_agent) = sample_current"
  "db sample_agent = sample_db" "miner_at (cc sample_agent) 0 = sample_miner\<lparr>UserAgent := ''miner''\<rparr>"
  "heap (cc sample_mining) = [sample_miner]"
  by (simp_all add: sample_mining_def sample_agent_def sample_world_def cache_simps map_miner_def miner_at_def)

lemma sample_check: "check_request sample_env (round_info_of sample_current) sample_request (cc sample_mining) = Inr (77, 42)"
proof -
  have "ParseUint [] = Inl ErrSyntax" by (simp add: ParseUint_def)
  then show ?thesis
    by (simp add: check_request_def sample_request_def IsRewardRecipient_def sample_mining_def cache_simps
        sample_env_def with_defaults_def example_config_def)
qed

lemma sample_update:
  "\<exists>w'. UpdateOrCreateNonceSubmission sample_env 0 100000 5000 42 70312 [] sample_agent = Some (w', None) \<and>
     roundInfo (cc w') = round_info_of sample_current \<and> \<not> ev_fault sample_env (tick w')"
proof -
  have m: "CurrentBlockHeight (miner_at (cc sample_agent) 0) \<noteq> 100000"
    "map_of (DeadlinesParams (miner_at (cc sample_agent) 0)) 100000 = None"
    by (simp_all add: sample_mining_sel sample_miner_def newMiner_def CurrentBlockHeight_def)
  have "MaybeSwitchOrNewBlock sample_env 70312 [] 100000 sample_agent = Some sample_agent"
    by (simp add: MaybeSwitchOrNewBlock_def CurrentBlock_def sample_mining_sel sample_current_def switchBlock_def
        DecodeGeneratorSignature_def)
  moreover have "\<not> fst (WasSlowBlock 100000 (cc sample_agent))"
    by (simp add: sample_agent_def sample_mining_def map_miner_def sample_world_def cache_simps sample_cache_def
        WasSlowBlock_def exists_height_def)
  moreover have "\<exists>w'. exec sample_env (sql_insert_submission (mID (miner_at (cc sample_agent) 0)) 100000 5000 42) sample_agent = (w', None)"
    by (simp add: exec_def sql_insert_submission_def sample_env_def sample_mining_sel sample_db_def
        has_account_def has_block_def sample_miner_def newMiner_def)
  moreover have "\<not> ev_fault sample_env t" for t by (simp add: sample_env_def)
  ultimately show ?thesis
    using submission_first [OF m, of sample_env 5000 42 70312 "[]"] exec_cc sample_mining_sel(3)
    by (fastforce simp: map_miner_def)
qed

definition sample_best :: "NonceSubmission \<Rightarrow> bool" where
  "sample_best ns \<longleftrightarrow> nsDeadline ns = 5000 \<and> nsHeight ns = 100000 \<and> nsMinerID ns = 77 \<and>
     nsGenerationSignature ns = replicate 64 CHR ''0''"

lemma sample_processed:
  "\<exists>w' ns. processSubmitNonceRequest sample_params sample_env (round_info_of sample_current) sample_request sample_mining =
     Some (w', \<lparr>rpStatus = 200, rpBody = success_body 5000\<rparr>, Some ns) \<and> sample_best ns \<and>
     (\<forall>t. \<not> ev_fault sample_env t)"
proof -
  obtain w' where w': "UpdateOrCreateNonceSubmission sample_env 0 100000 5000 42 70312 [] sample_agent = Some (w', None)"
    using sample_update by blast
  have f: "FirstOrCreateMiner sample_env 77 sample_mining = Some (sample_mining, Some 0)"
    by (simp add: FirstOrCreateMiner_def GetMiner_def sample_mining_def sample_world_def cache_simps)
  have ri: "riGenSig (round_info_of sample_current) \<noteq> []" "riHeight (round_info_of sample_current) = 100000"
    "riBaseTarget (round_info_of sample_current) = 70312"
    "riGenerationSignature (round_info_of sample_current) = replicate 64 CHR ''0''"
    by (simp_all add: round_info_of_def sample_current_def)
  have cfg: "\<not> DeadlineLimit (ev_cfg sample_env) < 5000" "user_agent sample_request = ''miner''" "pp_calc sample_params r = 5000" for r
    by (simp_all add: sample_env_def with_defaults_def example_config_def user_agent_def sample_request_def sample_params_def)
  show ?thesis
    using w' ri cfg by (simp add: processSubmitNonceRequest_def sample_check f Let_def NewCalcDeadlineRequest_def
        sample_best_def sample_agent_def [symmetric]) (simp add: sample_env_def)
qed


text \<open>A request comes in, is served, and its submission is received.\<close>

lemma sample_pool_run:
  "\<exists>s0 s. NewPool sample_params sample_env sample_mining = Some s0 \<and> (pool_step sample_params sample_env)\<^sup>*\<^sup>* s0 s \<and>
     ps_received s = [fgBest (ps_forge s)] \<and> sample_best (fgBest (ps_forge s)) \<and> signatures_differ (rounds_of s)"
proof -
  let ?step = "pool_step sample_params sample_env" and ?ri = "round_info_of sample_current"
  obtain w ns where x: "processSubmitNonceRequest sample_params sample_env ?ri sample_request sample_mining =
     Some (w, \<lparr>rpStatus = 200, rpBody = success_body 5000\<rparr>, Some ns)" and ns: "sample_best ns"
    using sample_processed by blast
  define s0 where "s0 = \<lparr>ps_world = sample_mining, ps_forge = \<lparr>fgBest = no_submission, fgAfter = None\<rparr>,
    ps_rounds = [], ps_sending = [], ps_received = [], ps_submitted = []\<rparr>"
  have new: "NewPool sample_params sample_env sample_mining = Some s0"
    by (simp add: NewPool_def forge_start_def CurrentBlock_def sample_mining_sel sample_current_def zero_Block_def s0_def)
  define s1 where "s1 = s0\<lparr>ps_rounds := [?ri]\<rparr>"
  have st1: "?step s0 s1"
    using pool_step.arrive [of sample_params sample_env s0] by (simp add: s1_def s0_def GetRoundInfo_def sample_mining_sel)
  define s2 where "s2 = s1\<lparr>ps_world := w, ps_sending := [ns]\<rparr>"
  have "burst_handler sample_params sample_env False ?ri sample_request sample_mining =
      Some (w, \<lparr>rpStatus = 200, rpBody = success_body 5000\<rparr>, Some ns)"
    using x by (simp add: burst_handler_def) (simp add: sample_request_def)
  then have st2: "?step s1 s2"
    using pool_step.serve [of ?ri s1 sample_params sample_env False sample_request w _ "Some ns"]
    by (simp add: s1_def s2_def s0_def outgoing_def)
  have "\<not> ignored no_submission ns"
    using ns by (auto simp: ignored_def no_submission_def zero_NonceSubmission_def sample_best_def)
  then have "\<exists>w' st. forge_receive sample_params sample_env ns w \<lparr>fgBest = no_submission, fgAfter = None\<rparr> = Some (w', st)"
    by (simp add: forge_receive_def UpdateBestSubmission_def mustExec_Some sql_set_best_def bind_eq_Some_conv Let_def
        sample_env_def)
  then obtain w' st where rc: "forge_receive sample_params sample_env ns w \<lparr>fgBest = no_submission, fgAfter = None\<rparr> = Some (w', st)"
    by blast
  then have best: "fgBest st = ns" using \<open>\<not> ignored no_submission ns\<close> by (cases rule: forge_receive_cases) simp_all
  define s3 where "s3 = s2\<lparr>ps_world := w', ps_forge := st, ps_sending := [], ps_received := [ns]\<rparr>"
  have st3: "?step s2 s3"
    using pool_step.receive [of ns s2 sample_params sample_env w' st] rc by (simp add: s3_def s2_def s1_def s0_def)
  have "?step\<^sup>*\<^sup>* s0 s3"
    by (rule rtranclp.rtrancl_into_rtrancl [OF rtranclp.rtrancl_into_rtrancl [OF r_into_rtranclp [of ?step, OF st1] st2] st3])
  moreover have "rounds_of s3 = {(100000, replicate 64 CHR ''0'')}"
    using ns by (auto simp: rounds_of_def s3_def s2_def s1_def s0_def sample_best_def round_of_def round_of_info_def
        round_info_of_def sample_current_def)
  then have "signatures_differ (rounds_of s3)" by (auto simp: signatures_differ_def single_valued_def)
  ultimately show ?thesis using new ns best by (intro exI [of _ s0] exI [of _ s3]) (simp add: s3_def)
qed

theorem pool_best_is_optimal_witness:
  "\<exists>s :: pool_state. sample_best (fgBest (ps_forge s)) \<and> best_of (fgBest (ps_forge s)) (set (ps_received s)) \<and> ps_received s \<noteq> []"
proof -
  obtain s0 s where r: "NewPool sample_params sample_env sample_mining = Some s0" "(pool_step sample_params sample_env)\<^sup>*\<^sup>* s0 s"
     "ps_received s = [fgBest (ps_forge s)]" "sample_best (fgBest (ps_forge s))" "signatures_differ (rounds_of s)"
    using sample_pool_run by blast
  have "bBestNonceSubmissionID (CurrentBlock (cc sample_mining)) = None"
    by (simp add: CurrentBlock_def sample_mining_sel sample_current_def zero_Block_def)
  from pool_best_is_optimal [OF r(1) sample_mining_inv this r(2,5)] show ?thesis using r(3,4) by (intro exI [of _ s]) simp
qed

theorem pool_consistent_witness:
  "\<exists>s :: pool_state. sample_best (fgBest (ps_forge s)) \<and> BestNonceSubmission (cc (ps_world s)) = fgBest (ps_forge s) \<and>
     cache_inv (ev_cfg sample_env) (cc (ps_world s))"
proof -
  obtain s0 s where r: "NewPool sample_params sample_env sample_mining = Some s0" "(pool_step sample_params sample_env)\<^sup>*\<^sup>* s0 s"
     "sample_best (fgBest (ps_forge s))"
    using sample_pool_run by blast
  have "bBestNonceSubmissionID (CurrentBlock (cc sample_mining)) = None"
    by (simp add: CurrentBlock_def sample_mining_sel sample_current_def zero_Block_def)
  note c = pool_consistent [OF r(1) sample_mining_inv this r(2)]
  have "fgBest (ps_forge s) \<noteq> no_submission"
    using r(3) by (auto simp: sample_best_def no_submission_def zero_NonceSubmission_def)
  then show ?thesis using c r(3) by (intro exI [of _ s]) auto
qed


section \<open>What can go wrong\<close>

text \<open>
  After a restart the best submission comes from the database, without its generation signature. So the first
  submission for the same block replaces it, even if its deadline is worse.
\<close>

lemma restart_accepts_worse:
  assumes "forge_start P e b w = Some (w', st)" "bBestNonceSubmissionID b \<noteq> None"
    and "nsHeight ns = nsHeight (fgBest st)" "nsGenerationSignature ns \<noteq> []"
  shows "\<not> ignored (fgBest st) ns"
proof -
  obtain w1 r where x: "GetBestNonceSubmissionOnBlock e (bHeight b) w = (w1, r)" by (metis surj_pair)
  obtain best where r: "r = Inr best" "fgBest st = best"
    using assms(1,2) x by (cases r) (auto simp: forge_start_def updateSubmitTimer_def Let_def)
  have "sql_best_submission (bHeight b) (db w) = Inr best"
    using query_Inr [OF x [unfolded GetBestNonceSubmissionOnBlock_def r(1)]] by simp
  then have "nsGenerationSignature best = []"
    by (auto simp: sql_best_submission_def split: list.splits dest!: arg_cong [where f = "\<lambda>l. best \<in> set l"])
  then show ?thesis using assms(3,4) r(2) by (simp add: ignored_def)
qed

text \<open>
  A submission of a node that arrives while the round changes is labelled with the new round: its height and
  signature are those of the new block, its nonce and deadline those of the old one.
\<close>

lemma node_submission_mislabelled:
  assumes "GetMiner (srAccountID msg) (cc w) = Some p" "CurrentBlockHeight (miner_at (cc w) p) = srBlockHeight msg"
    and "CurrentDeadline (miner_at (cc w) p) \<le> srDeadline msg"
    and "riHeight ri \<le> srBlockHeight msg" "srBlockHeight msg < riHeight (GetRoundInfo (cc w))"
  shows "\<exists>ns. node_SubmitNonce e ri msg w = Some (w, None, Some ns) \<and> nsDeadline ns = srDeadline msg \<and>
    nsHeight ns = riHeight (GetRoundInfo (cc w)) \<and> nsHeight ns \<noteq> srBlockHeight msg"
  using assms by (auto simp: node_SubmitNonce_def FirstOrCreateMiner_def UpdateOrCreateNonceSubmission_def Let_def)

text \<open>A miner is told that its nonce was accepted before it is stored; if storing fails, the nonce is lost.\<close>

lemma success_before_stored:
  assumes "check_request e ri req (cc w) = Inr (i, n)" "FirstOrCreateMiner e i w = Some (w1, Some p)" "riGenSig ri \<noteq> []"
    and "DeadlineLimit (ev_cfg e) = 0"
    and "UpdateOrCreateNonceSubmission e p (riHeight ri) d n (riBaseTarget ri) []
       (upd_cache (map_miner p (\<lambda>mi. mi\<lparr>UserAgent := user_agent req\<rparr>)) w1) = Some (w', Some err)"
    and "d = pp_calc P \<lparr>account_id = i, nonce = n, base_target = riBaseTarget ri, scoop_nr = riScoop ri, gen_sig = riGenSig ri\<rparr>"
  shows "processSubmitNonceRequest P e ri req w = Some (w', \<lparr>rpStatus = 200, rpBody = success_body d\<rparr>, None)"
  using assms by (simp add: processSubmitNonceRequest_def NewCalcDeadlineRequest_def Let_def)

text \<open>A node that submits for an account that cannot be created ends the process of the pool.\<close>

lemma node_crashes_pool:
  "FirstOrCreateMiner e (srAccountID msg) w = Some (w', None) \<Longrightarrow> node_SubmitNonce e ri msg w = None"
  by (simp add: node_SubmitNonce_def)

end
