(* ===== verification/Web.thy ===== *)
theory Web
  imports Frames
begin

text \<open>
  The package \<^verbatim>\<open>pkg/webserver\<close>: what the web server computes from the cache (the table of miners, the shares of the
  round, the announced block), the queue of messages of each websocket client, and the subscription of a
  client to an account. Templates, sockets and HTTP routing are libraries. \<open>None\<close> is a panic.
\<close>

section \<open>Parameters\<close>

text \<open>
  \<open>json.Marshal\<close> for the generated message types (an error for numbers that JSON cannot represent), the text of a time,
  and \<open>strings.ToUpper\<close> outside ASCII.
\<close>

record api_MinerInfo =
  aiID :: uint64
  aiAddress :: string
  aiName :: string
  aiPending :: int64
  aiEffectiveCapacity :: float64
  aiHistoricalShare :: float64
  aiDeadline :: uint64
  aiLastActiveBlockHeight :: uint64
  aiNConf :: int32
  aiPayoutDetail :: string

record BlockInfo =
  biHeight :: uint64
  biBaseTarget :: uint64
  biScoop :: uint32
  biGenerationSignature :: string
  biMinerID :: uint64
  biMiner :: string
  biDeadline :: uint64
  biCreated :: string

record PoolStatsInfo =
  psMinerCount :: int32
  psEffectivePoolCapacity :: float64
  psNetDiff :: float64

record Share =
  shName :: string
  shVal :: float64

record web_params =
  wp_json_miner :: "api_MinerInfo \<Rightarrow> string option"
  wp_json_block :: "BlockInfo \<Rightarrow> string option"
  wp_json_shares :: "Share list \<Rightarrow> string option"
  wp_json_stats :: "PoolStatsInfo \<Rightarrow> string option"
  wp_time_text :: "time \<Rightarrow> string"
  wp_upper :: "string \<Rightarrow> string"

section \<open>The queue of a client\<close>

record WebSocketMsg =
  msgData :: string
  msgType :: int

definition TextMessage :: int where "TextMessage = 1"
definition PingMessage :: int where "PingMessage = 9"

definition text_msg :: "string \<Rightarrow> WebSocketMsg" where
  "text_msg d = \<lparr>msgData = d, msgType = TextMessage\<rparr>"

text \<open>
  The channel \<open>msgs\<close> has room for four messages; \<open>clClosed\<close> tells that it is closed, \<open>clNewID\<close> is an id that the
  goroutine \<open>subscribe\<close> has received and not dealt with yet, \<open>clTicking\<close> tells that the
  ticker of the subscription runs, \<open>clStopped\<close> that \<open>subscribe\<close> has ended.
\<close>

record Client =
  clMsgs :: "WebSocketMsg list"
  clClosed :: bool
  clNewID :: "uint64 option"
  clID :: uint64
  clTicking :: bool
  clStopped :: bool

definition NewClient :: Client where
  "NewClient = \<lparr>clMsgs = [], clClosed = False, clNewID = None, clID = 0, clTicking = False, clStopped = False\<rparr>"

definition queue_capacity :: nat where "queue_capacity = 4"

text \<open>A full queue drops the message; sending on a closed channel panics.\<close>

definition QueueMsg :: "WebSocketMsg \<Rightarrow> Client \<Rightarrow> Client option" where
  "QueueMsg m cl =
     (if length (clMsgs cl) = queue_capacity then Some cl
      else if clClosed cl then None
      else Some (cl\<lparr>clMsgs := clMsgs cl @ [m]\<rparr>))"

text \<open>\<open>write\<close> takes the oldest message; \<open>close\<close> closes the channel and then ends the subscription.\<close>

definition write_step :: "Client \<Rightarrow> (Client \<times> WebSocketMsg) option" where
  "write_step cl = (case clMsgs cl of [] \<Rightarrow> None | m # ms \<Rightarrow> Some (cl\<lparr>clMsgs := ms\<rparr>, m))"

definition close_msgs :: "Client \<Rightarrow> Client option" where
  "close_msgs cl = (if clClosed cl then None else Some (cl\<lparr>clClosed := True\<rparr>))"

definition stop_subscription :: "Client \<Rightarrow> Client" where
  "stop_subscription cl = cl\<lparr>clStopped := True\<rparr>"

section \<open>Subscriptions\<close>

definition GenMinerInfo :: "uint64 \<Rightarrow> cache \<Rightarrow> api_MinerInfo option" where
  "GenMinerInfo accountID c = (case GetMiner accountID c of
     None \<Rightarrow> None
   | Some p \<Rightarrow>
       (let m = miner_at c p; cap = CalculateEEPS (alphas c) m in
        Some \<lparr>aiID = accountID, aiAddress = mAddress m, aiName = mName m, aiPending = mPending m,
          aiEffectiveCapacity = cap,
          aiHistoricalShare = (if \<not> feq (GetPoolCap c) (F 0) then fdiv cap (GetPoolCap c) else F 0),
          aiDeadline = CurrentDeadline m, aiLastActiveBlockHeight = CurrentBlockHeight m,
          aiNConf = i32 (int (length (DeadlinesParams m))), aiPayoutDetail = PayoutDetail m\<rparr>))"

definition genSubscriptionMsg :: "web_params \<Rightarrow> uint64 \<Rightarrow> cache \<Rightarrow> string option" where
  "genSubscriptionMsg W i c = (case GenMinerInfo i c of None \<Rightarrow> None | Some mi \<Rightarrow> wp_json_miner W mi)"

definition subscriptionFailed :: string where
  "subscriptionFailed = ''{'' @ [CHR 34] @ ''subscriptionFailed'' @ [CHR 34] @ '':'' @ [CHR 34] @ ''unknown account'' @ [CHR 34] @ ''}''"

definition subscriptionMalformed :: string where
  "subscriptionMalformed = ''{'' @ [CHR 34] @ ''subscriptionFailed'' @ [CHR 34] @ '':'' @ [CHR 34] @
     ''malformed numeric id or burst address'' @ [CHR 34] @ ''}''"

definition subscriptionSuccess :: string where
  "subscriptionSuccess = ''{'' @ [CHR 34] @ ''subscriptionSuccess'' @ [CHR 34] @ '':'' @ [CHR 34] @ [CHR 34] @ ''}''"

definition updateSubscription :: "web_params \<Rightarrow> cache \<Rightarrow> uint64 \<Rightarrow> Client \<Rightarrow> (Client \<times> bool) option" where
  "updateSubscription W c i cl = (case genSubscriptionMsg W i c of
     None \<Rightarrow> map_option (\<lambda>cl. (cl, False)) (QueueMsg (text_msg subscriptionFailed) cl)
   | Some msg \<Rightarrow> map_option (\<lambda>cl. (cl, True)) (QueueMsg (text_msg msg) cl))"

text \<open>
  The two cases of \<open>subscribe\<close>. The new id is stored before it is known to exist; a failed update
  replaces the ticker by a channel that never delivers.
\<close>

definition subscribe_tick :: "web_params \<Rightarrow> cache \<Rightarrow> Client \<Rightarrow> Client option" where
  "subscribe_tick W c cl = do {
     (cl, success) \<leftarrow> updateSubscription W c (clID cl) cl;
     Some (if success then cl else cl\<lparr>clTicking := False\<rparr>) }"

definition subscribe_new :: "web_params \<Rightarrow> cache \<Rightarrow> uint64 \<Rightarrow> Client \<Rightarrow> Client option" where
  "subscribe_new W c i cl = do {
     (cl, success) \<leftarrow> updateSubscription W c i (cl\<lparr>clID := i, clNewID := None\<rparr>);
     if \<not> success then Some cl
     else do {
       cl \<leftarrow> QueueMsg (text_msg subscriptionSuccess) cl;
       Some (cl\<lparr>clTicking := True\<rparr>) } }"

text \<open>\<open>strings.Trim(s, " ")\<close>, \<open>strings.ToUpper\<close> and \<open>strings.TrimPrefix\<close>.\<close>

definition trim_spaces :: "string \<Rightarrow> string" where
  "trim_spaces s = rev (dropWhile (\<lambda>c. c = CHR '' '') (rev (dropWhile (\<lambda>c. c = CHR '' '') s)))"

definition upper_char :: "char \<Rightarrow> char" where
  "upper_char c = (let n = of_char c :: nat in if 97 \<le> n \<and> n \<le> 122 then char_of (n - 32) else c)"

definition go_ToUpper :: "web_params \<Rightarrow> string \<Rightarrow> string" where
  "go_ToUpper W s = (if list_all (\<lambda>c. of_char c < (128 :: nat)) s then map upper_char s else wp_upper W s)"

definition trim_prefix :: "string \<Rightarrow> string \<Rightarrow> string" where
  "trim_prefix p s = (if take (length p) s = p then drop (length p) s else s)"

datatype subscription = Unparsable | ZeroID | NewID uint64

definition parse_subscription :: "web_params \<Rightarrow> string \<Rightarrow> subscription option" where
  "parse_subscription W msg =
     (let trimmed = trim_prefix ''BURST-'' (go_ToUpper W (trim_spaces msg));
          found = (\<lambda>i. if i = 0 then ZeroID else NewID i)
      in case ParseUint trimmed of
        Inr accountID \<Rightarrow> Some (found accountID)
      | Inl _ \<Rightarrow> (case Decode trimmed of
          None \<Rightarrow> None
        | Some (Inl _) \<Rightarrow> Some Unparsable
        | Some (Inr accountID) \<Rightarrow> Some (found accountID)))"

text \<open>The new id is handed to \<open>subscribe\<close> over an unbuffered channel.\<close>

definition addSubscription :: "web_params \<Rightarrow> string \<Rightarrow> Client \<Rightarrow> Client option" where
  "addSubscription W msg cl = do {
     s \<leftarrow> parse_subscription W msg;
     (case s of
        Unparsable \<Rightarrow> Some cl
      | ZeroID \<Rightarrow> QueueMsg (text_msg subscriptionMalformed) cl
      | NewID i \<Rightarrow> Some (cl\<lparr>clNewID := Some i\<rparr>)) }"

section \<open>The table of miners and the shares of the round\<close>

record MinerInfo =
  wmID :: uint64
  wmName :: string
  wmAddress :: string
  wmPending :: float64
  wmHistoricalShare :: float64
  wmNConf :: nat
  wmLastActiveBlockHeight :: uint64
  wmCapacity :: float64
  wmDeadline :: uint64
  wmUserAgent :: string

definition miner_info :: "cache \<Rightarrow> uint64 \<Rightarrow> Miner \<Rightarrow> MinerInfo" where
  "miner_info c k m = \<lparr>wmID = k, wmName = mName m, wmAddress = mAddress m, wmPending = PlanckToBurst (mPending m),
     wmHistoricalShare = F 0, wmNConf = length (DeadlinesParams m), wmLastActiveBlockHeight = CurrentBlockHeight m,
     wmCapacity = fmul (CalculateEEPS (alphas c) m) (F 1000), wmDeadline = CurrentDeadline m, wmUserAgent = UserAgent m\<rparr>"

text \<open>\<open>1.0 / float64(mi.Deadline+1.0)\<close>: the sum is one of \<open>uint64\<close>.\<close>

definition inverse_deadline :: "MinerInfo \<Rightarrow> float64" where
  "inverse_deadline mi = fdiv (F 1) (f_of_uint64 (wmDeadline mi + 1))"

record table_state =
  tbInfos :: "MinerInfo list"
  tbPoolCap :: float64
  tbInvSum :: float64
  tbCount :: int32

definition collect_miner :: "cache \<Rightarrow> uint64 \<Rightarrow> nat \<Rightarrow> table_state \<Rightarrow> table_state" where
  "collect_miner c k p t =
     (let mi = miner_info c k (miner_at c p) in
      \<lparr>tbInfos = tbInfos t @ [mi], tbPoolCap = fadd (tbPoolCap t) (wmCapacity mi),
        tbInvSum = (if wmLastActiveBlockHeight mi = bHeight (CurrentBlock c)
          then fadd (tbInvSum t) (inverse_deadline mi) else tbInvSum t),
        tbCount = i32 (tbCount t + 1)\<rparr>)"

definition collect_miners :: "cache \<Rightarrow> table_state" where
  "collect_miners c = MinerRange (collect_miner c) (miners c) \<lparr>tbInfos = [], tbPoolCap = F 0, tbInvSum = F 0, tbCount = 0\<rparr>"

definition scale_info :: "float64 \<Rightarrow> MinerInfo \<Rightarrow> MinerInfo" where
  "scale_info cap mi = mi\<lparr>wmHistoricalShare := fmul (fdiv (wmCapacity mi) cap) (F 100),
     wmCapacity := fdiv (wmCapacity mi) (F 1000)\<rparr>"

definition scale_table :: "table_state \<Rightarrow> table_state" where
  "scale_table t = (if \<not> feq (tbPoolCap t) (F 0)
     then t\<lparr>tbInfos := map (scale_info (tbPoolCap t)) (tbInfos t), tbPoolCap := fdiv (tbPoolCap t) (F 1000)\<rparr> else t)"

definition bestShares :: nat where "bestShares = 10"

fun round_shares :: "uint64 \<Rightarrow> float64 \<Rightarrow> MinerInfo list \<Rightarrow> Share list \<Rightarrow> float64 \<Rightarrow> Share list \<times> float64" where
  "round_shares h s [] shares sum_shown = (shares, sum_shown)"
| "round_shares h s (mi # mis) shares sum_shown =
     (if length shares = bestShares then (shares, sum_shown)
      else if wmLastActiveBlockHeight mi \<noteq> h then round_shares h s mis shares sum_shown
      else let v = fdiv (inverse_deadline mi) s
        in round_shares h s mis
             (shares @ [\<lparr>shName = (if wmName mi = [] then wmAddress mi else wmName mi), shVal = v\<rparr>]) (fadd sum_shown v))"

definition all_shares :: "uint64 \<Rightarrow> float64 \<Rightarrow> MinerInfo list \<Rightarrow> Share list" where
  "all_shares h s mis = (case round_shares h s mis [] (F 0) of (shares, sum_shown) \<Rightarrow>
     let other = fsub (F 1) sum_shown
     in shares @ [\<lparr>shName = ''other'', shVal = (if flt other (F 0) then F 0 else other)\<rparr>])"

section \<open>The web server\<close>

text \<open>
  A pointer to a client is an index into the list of all clients that were ever made. The two values that are stored
  after the start are optional: loading them before panics.
\<close>

record WebServer =
  wsClients :: "nat list"
  wsBlockInfo :: BlockInfo
  wsPoolStats :: "PoolStatsInfo option"
  wsMinerInfos :: "MinerInfo list"
  wsWonBlocks :: "WonBlock list"
  wsNetDiff :: "float64 option"

definition block_info_of :: "web_params \<Rightarrow> Block \<Rightarrow> BlockInfo" where
  "block_info_of W b = \<lparr>biHeight = bHeight b, biBaseTarget = bBaseTarget b, biScoop = bScoop b,
     biGenerationSignature = bGenerationSignature b, biMinerID = 0, biMiner = [], biDeadline = 0,
     biCreated = wp_time_text W (bCreated b)\<rparr>"

definition NewWebServer :: "web_params \<Rightarrow> cache \<Rightarrow> WebServer" where
  "NewWebServer W c = \<lparr>wsClients = [], wsBlockInfo = block_info_of W (CurrentBlock c), wsPoolStats = None,
     wsMinerInfos = [], wsWonBlocks = [], wsNetDiff = None\<rparr>"

text \<open>
  \<open>updateMinerInfos\<close>: the table and the statistics in the cache, and the shares that are sent to the clients, if any.
  \<open>sort.Slice\<close> is not stable; the model keeps the order of equal deadlines.
\<close>

definition updateMinerInfos :: "cache \<Rightarrow> WebServer \<Rightarrow> cache \<times> WebServer \<times> Share list option" where
  "updateMinerInfos c ws =
     (let t0 = collect_miners c; t = scale_table t0; mis = sort_key wmDeadline (tbInfos t);
          ws = ws\<lparr>wsMinerInfos := mis\<rparr>;
          c' = StoreMinerCount (tbCount t) (StorePoolCap (tbPoolCap t) c)
      in if feq (tbInvSum t) (F 0) then (c', ws, None)
         else (c', ws, Some (all_shares (bHeight (CurrentBlock c)) (tbInvSum t) mis)))"

definition checkForBlockUpdate :: "web_params \<Rightarrow> cache \<Rightarrow> WebServer \<Rightarrow> WebServer \<times> BlockInfo option" where
  "checkForBlockUpdate W c ws =
     (let newBlock = CurrentBlock c in
      if biHeight (wsBlockInfo ws) < bHeight newBlock
      then (ws\<lparr>wsBlockInfo := block_info_of W newBlock\<rparr>, Some (block_info_of W newBlock))
      else (ws, None))"

definition checkForNewBestSubmission :: "cache \<Rightarrow> WebServer \<Rightarrow> WebServer \<times> BlockInfo option" where
  "checkForNewBestSubmission c ws =
     (let best = BestNonceSubmission c; bi = wsBlockInfo ws in
      if biHeight bi = nsHeight best \<and> (biDeadline bi = 0 \<or> nsDeadline best < biDeadline bi)
      then (let bi = bi\<lparr>biDeadline := nsDeadline best, biMinerID := nsMinerID best,
                biMiner := (if nsName best \<noteq> [] then nsName best else nsAddress best)\<rparr>
            in (ws\<lparr>wsBlockInfo := bi\<rparr>, Some bi))
      else (ws, None))"

definition netDiffBlockRange :: nat where "netDiffBlockRange = 360"

definition updateNetDiff :: "env \<Rightarrow> world \<Rightarrow> WebServer \<Rightarrow> world \<times> WebServer" where
  "updateNetDiff e w ws = (case GetAVGNetDiff e netDiffBlockRange w of (w, d) \<Rightarrow> (w, ws\<lparr>wsNetDiff := Some d\<rparr>))"

definition updateRecentlyWonBlocks :: "env \<Rightarrow> world \<Rightarrow> WebServer \<Rightarrow> world \<times> WebServer" where
  "updateRecentlyWonBlocks e w ws = (case GetRecentlyWonBlocks e w of (w, bs) \<Rightarrow> (w, ws\<lparr>wsWonBlocks := bs\<rparr>))"

definition updatePoolStats :: "cache \<Rightarrow> WebServer \<Rightarrow> WebServer option" where
  "updatePoolStats c ws = do {
     d \<leftarrow> wsNetDiff ws;
     Some (ws\<lparr>wsPoolStats := Some \<lparr>psMinerCount = GetMinerCount c, psEffectivePoolCapacity = GetPoolCap c, psNetDiff = d\<rparr>\<rparr>) }"

text \<open>
  The jobs of \<open>cacheUpdateJobs\<close>: the calls at the start, and then one for each tick. A job may have a message for the
  goroutine \<open>webSocketJobs\<close>.
\<close>

datatype cache_job = MinerInfosJob | WonBlocksJob | NetDiffJob | PoolStatsJob | NewBlockJob | BestSubmissionJob

datatype news = BlockNews BlockInfo | ShareNews "Share list"

fun cacheUpdateJobs ::
  "web_params \<Rightarrow> env \<Rightarrow> cache_job \<Rightarrow> world \<Rightarrow> WebServer \<Rightarrow> (world \<times> WebServer \<times> news option) option" where
  "cacheUpdateJobs W e MinerInfosJob w ws =
     (case updateMinerInfos (cc w) ws of (c, ws, shares) \<Rightarrow> Some (w\<lparr>cc := c\<rparr>, ws, map_option ShareNews shares))"
| "cacheUpdateJobs W e WonBlocksJob w ws = (case updateRecentlyWonBlocks e w ws of (w, ws) \<Rightarrow> Some (w, ws, None))"
| "cacheUpdateJobs W e NetDiffJob w ws = (case updateNetDiff e w ws of (w, ws) \<Rightarrow> Some (w, ws, None))"
| "cacheUpdateJobs W e PoolStatsJob w ws = do { ws \<leftarrow> updatePoolStats (cc w) ws; Some (w, ws, None) }"
| "cacheUpdateJobs W e NewBlockJob w ws =
     (case checkForBlockUpdate W (cc w) ws of (ws, b) \<Rightarrow> Some (w, ws, map_option BlockNews b))"
| "cacheUpdateJobs W e BestSubmissionJob w ws =
     (case checkForNewBestSubmission (cc w) ws of (ws, b) \<Rightarrow> Some (w, ws, map_option BlockNews b))"

definition start_jobs :: "cache_job list" where
  "start_jobs = [MinerInfosJob, WonBlocksJob, NetDiffJob, PoolStatsJob]"

definition ticker_jobs :: "cache_job list" where
  "ticker_jobs = [MinerInfosJob, NewBlockJob, BestSubmissionJob, WonBlocksJob, NetDiffJob]"

section \<open>Messages to all clients\<close>

fun sendToClients :: "WebSocketMsg \<Rightarrow> nat list \<Rightarrow> Client list \<Rightarrow> Client list option" where
  "sendToClients m [] cls = Some cls"
| "sendToClients m (k # ks) cls = do {
     cl \<leftarrow> idx cls k;
     cl \<leftarrow> QueueMsg m cl;
     sendToClients m ks (cls[k := cl]) }"

datatype web_event = Joins nat | Leaves nat | News news | Ping | StatsTick

definition broadcast :: "string option \<Rightarrow> WebServer \<Rightarrow> Client list \<Rightarrow> Client list option" where
  "broadcast data ws cls = (case data of
     None \<Rightarrow> Some cls
   | Some d \<Rightarrow> sendToClients (text_msg d) (wsClients ws) cls)"

text \<open>One round of the loop in \<open>webSocketJobs\<close>.\<close>

fun webSocketJobs :: "web_params \<Rightarrow> cache \<Rightarrow> web_event \<Rightarrow> WebServer \<Rightarrow> Client list \<Rightarrow> (WebServer \<times> Client list) option" where
  "webSocketJobs W c (Joins k) ws cls = Some (ws\<lparr>wsClients := List.insert k (wsClients ws)\<rparr>, cls)"
| "webSocketJobs W c (Leaves k) ws cls = Some (ws\<lparr>wsClients := removeAll k (wsClients ws)\<rparr>, cls)"
| "webSocketJobs W c (News (BlockNews b)) ws cls = do { cls \<leftarrow> broadcast (wp_json_block W b) ws cls; Some (ws, cls) }"
| "webSocketJobs W c (News (ShareNews s)) ws cls = do { cls \<leftarrow> broadcast (wp_json_shares W s) ws cls; Some (ws, cls) }"
| "webSocketJobs W c Ping ws cls = do {
     cls \<leftarrow> sendToClients \<lparr>msgData = [], msgType = PingMessage\<rparr> (wsClients ws) cls;
     Some (ws, cls) }"
| "webSocketJobs W c StatsTick ws cls = do {
     ws \<leftarrow> updatePoolStats c ws;
     s \<leftarrow> wsPoolStats ws;
     cls \<leftarrow> broadcast (wp_json_stats W s) ws cls;
     Some (ws, cls) }"

section \<open>The API\<close>

definition api_GetMinerInfo :: "uint64 \<Rightarrow> cache \<Rightarrow> string + api_MinerInfo" where
  "api_GetMinerInfo i c = (case GenMinerInfo i c of None \<Rightarrow> Inl ''unknown miner'' | Some mi \<Rightarrow> Inr mi)"

text \<open>gRPC does not recover from the panic of a value that is not stored yet.\<close>

definition getPoolStatsInfo :: "WebServer \<Rightarrow> PoolStatsInfo option" where
  "getPoolStatsInfo ws = wsPoolStats ws"

definition getBlockInfo :: "WebServer \<Rightarrow> BlockInfo" where
  "getBlockInfo ws = wsBlockInfo ws"

definition api_GetPoolStatsInfo :: "WebServer \<Rightarrow> PoolStatsInfo option" where
  "api_GetPoolStatsInfo ws = getPoolStatsInfo ws"

definition api_GetBlockInfo :: "WebServer \<Rightarrow> BlockInfo" where
  "api_GetBlockInfo ws = getBlockInfo ws"

record PoolConfigInfo =
  pcPoolFeeShare :: float64
  pcDeadlineLimit :: uint64
  pcMinimumPayout :: int64
  pcTxFee :: int64
  pcWinnerShare :: float64
  pcTMin :: int32
  pcNAVG :: int32
  pcNMin :: int32
  pcSetNowFee :: int64
  pcSetWeeklyFee :: int64
  pcSetDailyFee :: int64
  pcSetMinPayoutFee :: int64
  pcVersion :: string
  pcPoolPublicID :: uint64

definition GetPoolConfigInfo :: "Config \<Rightarrow> PoolConfigInfo" where
  "GetPoolConfigInfo cfg = \<lparr>pcPoolFeeShare = PoolFeeShare cfg, pcDeadlineLimit = DeadlineLimit cfg,
     pcMinimumPayout = MinimumPayout cfg, pcTxFee = PoolTxFee cfg, pcWinnerShare = WinnerShare cfg, pcTMin = TMin cfg,
     pcNAVG = i32 (NAVG cfg), pcNMin = i32 (NMin cfg), pcSetNowFee = SetNowFee cfg, pcSetWeeklyFee = SetWeeklyFee cfg,
     pcSetDailyFee = SetDailyFee cfg, pcSetMinPayoutFee = SetMinPayoutFee cfg, pcVersion = Version cfg,
     pcPoolPublicID = PoolPublicID cfg\<rparr>"

section \<open>Pages\<close>

text \<open>
  What the page handlers pass to their templates. Loading a difficulty that is not stored yet panics (and \<^verbatim>\<open>net/http\<close>
  recovers).
\<close>

record IndexInfo =
  iiCfg :: Config
  iiNetDiff :: float64

definition index_info :: "Config \<Rightarrow> WebServer \<Rightarrow> IndexInfo option" where
  "index_info cfg ws = do { d \<leftarrow> wsNetDiff ws; Some \<lparr>iiCfg = cfg, iiNetDiff = d\<rparr> }"

datatype page = IndexPage IndexInfo | InfoPage IndexInfo | MinerTable "MinerInfo list" | WonBlocksTable "WonBlock list"

definition indexHandler :: "Config \<Rightarrow> WebServer \<Rightarrow> page option" where
  "indexHandler cfg ws = map_option IndexPage (index_info cfg ws)"

definition infoHandler :: "Config \<Rightarrow> WebServer \<Rightarrow> page option" where
  "infoHandler cfg ws = map_option InfoPage (index_info cfg ws)"

definition minersHandler :: "WebServer \<Rightarrow> page" where
  "minersHandler ws = MinerTable (wsMinerInfos ws)"

definition wonBlocksHandler :: "WebServer \<Rightarrow> page" where
  "wonBlocksHandler ws = WonBlocksTable (wsWonBlocks ws)"

section \<open>Connections\<close>

text \<open>
  \<open>webSocketHandler\<close>: the arguments tell whether the connection could be upgraded and whether the two
  values could be written to it. The result tells whether a client is made; its goroutines start at once, before the web
  server knows it.
\<close>

definition webSocketHandler :: "bool \<Rightarrow> bool \<Rightarrow> bool \<Rightarrow> WebServer \<Rightarrow> Client option option" where
  "webSocketHandler upgraded wrote_block wrote_stats ws =
     (if \<not> upgraded \<or> \<not> wrote_block then Some None
      else do {
        s \<leftarrow> getPoolStatsInfo ws;
        Some (if wrote_stats then Some NewClient else None) })"

text \<open>
  What the goroutines of one client do: \<open>read\<close> handles a message (and then waits for \<open>subscribe\<close> to take the id), \<open>subscribe\<close> handles a
  new id or a tick, \<open>write\<close> sends a message. When reading fails, \<open>read\<close> closes the channel and then stops \<open>subscribe\<close>.
\<close>

datatype client_event = ReadMsg string | ReadFails | StopSubscription | NewIDEvent | Tick | WriteMsg

fun client_goroutines :: "web_params \<Rightarrow> cache \<Rightarrow> client_event \<Rightarrow> Client \<Rightarrow> Client option" where
  "client_goroutines W c (ReadMsg msg) cl = addSubscription W msg cl"
| "client_goroutines W c ReadFails cl = close_msgs cl"
| "client_goroutines W c StopSubscription cl = Some (stop_subscription cl)"
| "client_goroutines W c NewIDEvent cl = do { i \<leftarrow> clNewID cl; subscribe_new W c i cl }"
| "client_goroutines W c Tick cl = subscribe_tick W c cl"
| "client_goroutines W c WriteMsg cl = map_option fst (write_step cl)"

text \<open>Which of these can happen: the order within a goroutine, and what it waits for.\<close>

fun client_ready :: "web_params \<Rightarrow> client_event \<Rightarrow> Client \<Rightarrow> bool" where
  "client_ready W (ReadMsg msg) cl \<longleftrightarrow> \<not> clClosed cl \<and>
     (case parse_subscription W msg of Some (NewID i) \<Rightarrow> clNewID cl = None | _ \<Rightarrow> True)"
| "client_ready W ReadFails cl \<longleftrightarrow> \<not> clClosed cl"
| "client_ready W StopSubscription cl \<longleftrightarrow> clClosed cl \<and> clNewID cl = None \<and> \<not> clStopped cl"
| "client_ready W NewIDEvent cl \<longleftrightarrow> clNewID cl \<noteq> None"
| "client_ready W Tick cl \<longleftrightarrow> clTicking cl \<and> clNewID cl = None \<and> \<not> clStopped cl"
| "client_ready W WriteMsg cl \<longleftrightarrow> clMsgs cl \<noteq> []"

section \<open>The goroutines together\<close>

text \<open>
  \<open>wb_joining\<close> and \<open>wb_leaving\<close> are the clients whose goroutines wait to hand themselves over to \<open>webSocketJobs\<close>,
  \<open>wb_news\<close> is what \<open>cacheUpdateJobs\<close> waits to hand over, \<open>wb_todo\<close> what it still has to do at the start. \<open>wb_announced\<close> is
  the history of the announced blocks. Between two steps the
  rest of the process may change its state, \<open>wb_world\<close>, in any way.
\<close>

record web_state =
  wb_world :: world
  wb_server :: WebServer
  wb_clients :: "Client list"
  wb_joining :: "nat list"
  wb_leaving :: "nat list"
  wb_todo :: "cache_job list"
  wb_news :: "news option"
  wb_announced :: "BlockInfo list"

definition announced :: "news option \<Rightarrow> BlockInfo list" where
  "announced n = (case n of Some (BlockNews b) \<Rightarrow> [b] | _ \<Rightarrow> [])"

definition web_start :: "web_params \<Rightarrow> world \<Rightarrow> web_state" where
  "web_start W w = \<lparr>wb_world = w, wb_server = NewWebServer W (cc w), wb_clients = [], wb_joining = [], wb_leaving = [],
     wb_todo = start_jobs, wb_news = None, wb_announced = []\<rparr>"

definition job_next :: "cache_job list \<Rightarrow> cache_job \<Rightarrow> bool" where
  "job_next todo j \<longleftrightarrow> (case todo of [] \<Rightarrow> j \<in> set ticker_jobs | i # _ \<Rightarrow> j = i)"

definition after_job :: "web_state \<Rightarrow> world \<times> WebServer \<times> news option \<Rightarrow> web_state" where
  "after_job s r = (case r of (w, ws, n) \<Rightarrow>
     s\<lparr>wb_world := w, wb_server := ws, wb_todo := tl (wb_todo s), wb_news := n, wb_announced := wb_announced s @ announced n\<rparr>)"

definition after_event :: "web_state \<Rightarrow> WebServer \<times> Client list \<Rightarrow> web_state" where
  "after_event s r = s\<lparr>wb_server := fst r, wb_clients := snd r\<rparr>"

text \<open>The result \<open>None\<close> is the end of the process.\<close>

inductive web_step :: "web_params \<Rightarrow> env \<Rightarrow> web_state \<Rightarrow> web_state option \<Rightarrow> bool" for W e where
  cache_job: "wb_news s = None \<Longrightarrow> job_next (wb_todo s) j \<Longrightarrow>
    web_step W e s (map_option (after_job s) (cacheUpdateJobs W e j (wb_world s) (wb_server s)))"
| hand_over: "wb_news s = Some n \<Longrightarrow> s' = s\<lparr>wb_news := None\<rparr> \<Longrightarrow>
    web_step W e s (map_option (after_event s') (webSocketJobs W (cc (wb_world s)) (News n) (wb_server s) (wb_clients s)))"
| broadcast: "x \<in> {Ping, StatsTick} \<Longrightarrow>
    web_step W e s (map_option (after_event s) (webSocketJobs W (cc (wb_world s)) x (wb_server s) (wb_clients s)))"
| connect: "webSocketHandler up wb wst (wb_server s) = Some (Some cl) \<Longrightarrow> k = length (wb_clients s) \<Longrightarrow>
    web_step W e s (Some (s\<lparr>wb_clients := wb_clients s @ [cl], wb_joining := wb_joining s @ [k]\<rparr>))"
| join: "k \<in> set (wb_joining s) \<Longrightarrow> s' = s\<lparr>wb_joining := removeAll k (wb_joining s)\<rparr> \<Longrightarrow>
    web_step W e s (map_option (after_event s') (webSocketJobs W (cc (wb_world s)) (Joins k) (wb_server s) (wb_clients s)))"
| leave: "k \<in> set (wb_leaving s) \<Longrightarrow> s' = s\<lparr>wb_leaving := removeAll k (wb_leaving s)\<rparr> \<Longrightarrow>
    web_step W e s (map_option (after_event s') (webSocketJobs W (cc (wb_world s)) (Leaves k) (wb_server s) (wb_clients s)))"
| client: "k < length (wb_clients s) \<Longrightarrow> client_ready W x (wb_clients s ! k) \<Longrightarrow>
    s' = (if x = StopSubscription then s\<lparr>wb_leaving := wb_leaving s @ [k]\<rparr> else s) \<Longrightarrow>
    web_step W e s (map_option (\<lambda>cl. s'\<lparr>wb_clients := (wb_clients s)[k := cl]\<rparr>)
      (client_goroutines W (cc (wb_world s)) x (wb_clients s ! k)))"

inductive web_reachable :: "web_params \<Rightarrow> env \<Rightarrow> web_state \<Rightarrow> web_state \<Rightarrow> bool" for W e s0 where
  start: "web_reachable W e s0 s0"
| step: "web_reachable W e s0 s \<Longrightarrow> web_step W e s (Some s') \<Longrightarrow> web_reachable W e s0 s'"
| rest: "web_reachable W e s0 s \<Longrightarrow> web_reachable W e s0 (s\<lparr>wb_world := w\<rparr>)"

inductive_cases web_stepE [consumes 1, case_names cache_job hand_over broadcast connect join leave client]:
  "web_step W e s r"

end
