(* ===== verification/WebProofs.thy ===== *)
theory WebProofs
  imports Web
begin

text \<open>
  Correctness of the web server: which messages subscribe to an account, what the table of miners and the
  shares contain, how the announced block follows the cache, and the bound of the message queues.
\<close>

section \<open>Subscribing with an address\<close>

lemma trim_spaces_around:
  assumes "CHR '' '' \<notin> set body"
  shows "trim_spaces (replicate a CHR '' '' @ body @ replicate b CHR '' '') = body"
proof -
  let ?P = "\<lambda>c. c = CHR '' ''"
  have pre: "dropWhile ?P (replicate k CHR '' '' @ xs) = dropWhile ?P xs" for k xs by (induction k) simp_all
  have stop: "dropWhile ?P (xs @ ys) = xs @ ys" if "xs \<noteq> []" "CHR '' '' \<notin> set xs" for xs ys
    using that by (cases xs) auto
  show ?thesis
  proof (cases "body = []")
    case True
    have "dropWhile ?P (replicate a CHR '' '' @ replicate b CHR '' '') = []" by (auto simp: dropWhile_eq_Nil_conv)
    then show ?thesis unfolding True append_Nil trim_spaces_def by (simp only: rev.simps dropWhile.simps)
  next
    case False
    have "dropWhile ?P (replicate a CHR '' '' @ body @ replicate b CHR '' '') = body @ replicate b CHR '' ''"
      unfolding pre by (rule stop [OF False assms])
    moreover have "dropWhile ?P (replicate b CHR '' '' @ rev body) = rev body"
      unfolding pre using stop [of "rev body" "[]"] False assms by simp
    ultimately show ?thesis by (simp only: trim_spaces_def rev_append rev_replicate rev_rev_ident)
  qed
qed

lemma parse_digits_all: "parse_digits n s = Inr m \<Longrightarrow> list_all is_digit s"
  by (induction s arbitrary: n) (auto simp: Let_def split: if_splits)

lemma ParseUint_needs_digits: "c \<in> set s \<Longrightarrow> \<not> is_digit c \<Longrightarrow> \<exists>er. ParseUint s = Inl er"
  using parse_digits_all [of 0 s] by (cases "parse_digits 0 s") (auto simp: ParseUint_def list_all_iff)

lemma address_chars:
  assumes "is_codeword cw"
  shows "set (address_text cw) \<subseteq> insert CHR ''-'' (set alphabet)"
proof -
  obtain c0 c1 c2 c3 c4 c5 c6 c7 c8 c9 c10 c11 c12 c13 c14 c15 c16 where
    c: "cw = [c0, c1, c2, c3, c4, c5, c6, c7, c8, c9, c10, c11, c12, c13, c14, c15, c16]"
    using assms by (auto simp: is_codeword_def length_17)
  have "alphabet ! k \<in> set alphabet" if "k < 32" for k using that by (intro nth_mem) (simp add: alphabet_def)
  then show ?thesis using assms unfolding c is_codeword_def
    by (simp add: address_text_def codewordMap_def Let_def)
qed

lemma address_dash: "address_text cw ! 4 = CHR ''-''" "length (address_text cw) = 20"
  by (simp_all add: address_text_def Let_def)

text \<open>The texts that stand for an account: its number, its address, and its address with the usual prefix.\<close>

definition names_account :: "uint64 \<Rightarrow> string \<Rightarrow> bool" where
  "names_account i t \<longleftrightarrow> t = FormatUint i \<or> Some t = Encode i \<or> Some (drop 6 t) = Encode i \<and> take 6 t = ''BURST-''"

lemma names_account_no_space: "names_account i t \<Longrightarrow> CHR '' '' \<notin> set t \<and> t \<noteq> []"
proof -
  assume n: "names_account i t"
  obtain cw where cw: "Encode i = Some (address_text cw)" "is_codeword cw" using Encode_correct by blast
  have a: "CHR '' '' \<notin> set (address_text cw) \<and> address_text cw \<noteq> []"
    using address_chars [OF cw(2)] address_dash(2) [of cw] by (auto simp: alphabet_def)
  have "CHR '' '' \<notin> set (FormatUint i) \<and> FormatUint i \<noteq> []"
  proof -
    have "\<exists>m. ParseUint (FormatUint i) = Inr m" by simp
    moreover have "\<not> is_digit CHR '' ''" by (simp add: is_digit_def)
    ultimately show ?thesis using ParseUint_needs_digits [of "CHR '' ''" "FormatUint i"] by (auto simp: ParseUint_def)
  qed
  moreover have "CHR '' '' \<notin> set t \<and> t \<noteq> []" if "Some (drop 6 t) = Encode i" "take 6 t = ''BURST-''"
  proof -
    have "t = ''BURST-'' @ address_text cw" using that cw(1) append_take_drop_id [of 6 t] by simp
    then show ?thesis using a by simp
  qed
  ultimately show ?thesis using n a cw(1) by (auto simp: names_account_def)
qed

lemma trim_prefix_named:
  assumes "names_account i t"
  shows "trim_prefix ''BURST-'' t = FormatUint i \<or> Some (trim_prefix ''BURST-'' t) = Encode i"
proof -
  have six: "length ''BURST-'' = 6" by simp
  have keep: "trim_prefix ''BURST-'' u = u" if "take 6 u \<noteq> ''BURST-''" for u
    using that by (simp only: trim_prefix_def six if_False)
  have pre: "CHR ''B'' \<in> set u \<and> u ! 4 = CHR ''T''" if "take 6 u = ''BURST-''" for u
  proof -
    have u: "u = ''BURST-'' @ drop 6 u" using that append_take_drop_id [of 6 u] by simp
    show ?thesis by (subst u, subst (2) u) simp
  qed
  have "\<not> is_digit CHR ''B''" by (simp add: is_digit_def)
  then have "take 6 (FormatUint i) \<noteq> ''BURST-''"
    using pre [of "FormatUint i"] ParseUint_needs_digits [of "CHR ''B''" "FormatUint i"] by auto
  moreover have "take 6 u \<noteq> ''BURST-''" if "Some u = Encode i" for u
    using that Encode_correct [of i] address_dash(1) pre [of u] by auto
  moreover have "trim_prefix ''BURST-'' u = drop 6 u" if "take 6 u = ''BURST-''" for u
    unfolding trim_prefix_def six that by (rule if_P) simp
  ultimately show ?thesis using assms keep unfolding names_account_def by metis
qed

text \<open>C40.
  Every usual way to name an account subscribes to it: its number or its address, the address with or without
  the prefix \<^verbatim>\<open>BURST-\<close>, in capital or small letters, and with any number of spaces around it.
\<close>

theorem subscription_accepts:
  assumes "i \<noteq> 0" "list_all (\<lambda>c. of_char c < (128 :: nat)) body" "names_account i (map upper_char body)"
  shows "parse_subscription W (replicate a CHR '' '' @ body @ replicate b CHR '' '') = Some (NewID i)"
proof -
  have "upper_char CHR '' '' = CHR '' ''" by (simp add: upper_char_def)
  then have ns: "CHR '' '' \<notin> set body" using names_account_no_space [OF assms(3)] by (auto simp: image_iff)
  have t: "go_ToUpper W (trim_spaces (replicate a CHR '' '' @ body @ replicate b CHR '' '')) = map upper_char body"
    using assms(2) by (simp only: trim_spaces_around [OF ns] go_ToUpper_def if_True)
  define u where "u = trim_prefix ''BURST-'' (map upper_char body)"
  from trim_prefix_named [OF assms(3)] consider "u = FormatUint i" | "Some u = Encode i" by (auto simp: u_def)
  then show ?thesis
  proof cases
    case 1
    then show ?thesis using assms(1) by (simp only: parse_subscription_def Let_def t flip: u_def) simp
  next
    case 2
    then obtain cw where "u = address_text cw" using Encode_correct [of i] by auto
    then have "CHR ''-'' \<in> set u" using address_dash [of cw] nth_mem [of 4 u] by simp
    moreover have "\<not> is_digit CHR ''-''" by (simp add: is_digit_def)
    ultimately obtain er where "ParseUint u = Inl er" using ParseUint_needs_digits by blast
    moreover have "Decode u = Some (Inr i)" using 2 Decode_Encode [of i] by auto
    ultimately show ?thesis using assms(1) by (simp only: parse_subscription_def Let_def t flip: u_def) simp
  qed
qed

definition sample_web :: web_params where
  "sample_web = \<lparr>wp_json_miner = \<lambda>_. Some ''{}'', wp_json_block = \<lambda>_. Some ''{}'', wp_json_shares = \<lambda>_. Some ''[]'',
     wp_json_stats = \<lambda>_. Some ''{}'', wp_time_text = \<lambda>_. ''Monday'', wp_upper = map upper_char\<rparr>"

theorem subscription_accepts_witness:
  "parse_subscription sample_web ''  42 '' = Some (NewID 42)"
proof -
  have f: "FormatUint 42 = ''42''"
    by (simp add: FormatUint_def digits10.simps digit_char_def char_of_def bit_0)
  have "map upper_char ''42'' = ''42''" by (simp add: upper_char_def)
  then have n: "names_account 42 (map upper_char ''42'')" by (simp add: names_account_def f)
  have "''  42 '' = replicate 2 CHR '' '' @ ''42'' @ replicate 1 CHR '' ''" by (simp add: numeral_2_eq_2)
  moreover have "parse_subscription sample_web (replicate 2 CHR '' '' @ ''42'' @ replicate 1 CHR '' '') = Some (NewID 42)"
    by (rule subscription_accepts [OF _ _ n]) simp_all
  ultimately show ?thesis by (simp only:)
qed

section \<open>The table of miners\<close>

lemma collect_miners_infos:
  "tbInfos (MinerRange (collect_miner c) ms t) = tbInfos t @ map (\<lambda>(k, p). miner_info c k (miner_at c p)) ms"
  by (induction ms arbitrary: t) (auto simp: MinerRange_def collect_miner_def Let_def)

lemma i32_mod: "i32 (i32 x + y) = i32 (x + y)"
  by (simp add: i32_def mod_simps algebra_simps)

lemma collect_miners_count: "tbCount (MinerRange (collect_miner c) ms t) =
    (if ms = [] then tbCount t else i32 (tbCount t + int (length ms)))"
proof (induction ms arbitrary: t)
  case (Cons a ms)
  obtain k p where a: "a = (k, p)" by (metis surj_pair)
  have "tbCount (collect_miner c k p t) = i32 (tbCount t + 1)" by (simp add: collect_miner_def Let_def)
  moreover have "i32 (i32 (tbCount t + 1) + int (length ms)) = i32 (tbCount t + int (length (a # ms)))"
    unfolding i32_mod by (simp add: add.assoc)
  moreover have "MinerRange (collect_miner c) (a # ms) t = MinerRange (collect_miner c) ms (collect_miner c k p t)"
    by (simp add: MinerRange_def a)
  ultimately show ?case using Cons.IH [of "collect_miner c k p t"] by simp
qed (simp add: MinerRange_def)

lemma scale_table_keys: "map wmID (tbInfos (scale_table t)) = map wmID (tbInfos t)"
  "map wmDeadline (tbInfos (scale_table t)) = map wmDeadline (tbInfos t)" "tbCount (scale_table t) = tbCount t"
  by (simp_all add: scale_table_def scale_info_def)

lemma round_shares_length: "length sh \<le> bestShares \<Longrightarrow> length (fst (round_shares h s mis sh x)) \<le> bestShares"
  by (induction mis arbitrary: sh x) (auto simp: Let_def)

definition display_name :: "MinerInfo \<Rightarrow> string" where
  "display_name mi = (if wmName mi = [] then wmAddress mi else wmName mi)"

lemma round_shares_members:
  "shName ` set (fst (round_shares h s mis sh x)) \<subseteq> shName ` set sh \<union>
     display_name ` {mi \<in> set mis. wmLastActiveBlockHeight mi = h}"
proof (induction mis arbitrary: sh x)
  case (Cons mi mis)
  define v where "v = fdiv (inverse_deadline mi) s"
  have step: "round_shares h s (mi # mis) sh x = (if length sh = bestShares then (sh, x)
      else if wmLastActiveBlockHeight mi \<noteq> h then round_shares h s mis sh x
      else round_shares h s mis (sh @ [\<lparr>shName = display_name mi, shVal = v\<rparr>]) (fadd x v))"
    by (simp add: Let_def v_def display_name_def)
  show ?case unfolding step
    using Cons.IH [of sh x] Cons.IH [of "sh @ [\<lparr>shName = display_name mi, shVal = v\<rparr>]" "fadd x v"] by auto
qed simp

text \<open>C26.
  The table of miners lists every cached account exactly once, ordered by deadline, and the number that is
  published is the length of this list. The shares that are sent to the clients are at most ten shares of miners that
  have submitted in the current round, and the rest, which is never negative.
\<close>

theorem updateMinerInfos_table:
  assumes "updateMinerInfos c ws = (c', ws', shares)" and "miners_wf c" and "length (miners c) < 2 ^ 31"
  shows "mset (map wmID (wsMinerInfos ws')) = mset (map fst (miners c)) \<and> distinct (map wmID (wsMinerInfos ws')) \<and>
    sorted (map wmDeadline (wsMinerInfos ws')) \<and> GetMinerCount c' = int (length (wsMinerInfos ws')) \<and>
    (case shares of None \<Rightarrow> True | Some ss \<Rightarrow> length ss \<le> 11 \<and> shName (last ss) = ''other'' \<and> \<not> flt (shVal (last ss)) (F 0) \<and>
       shName ` set (butlast ss) \<subseteq>
         display_name ` {mi \<in> set (wsMinerInfos ws'). wmLastActiveBlockHeight mi = bHeight (CurrentBlock c)})"
proof -
  define t where "t = scale_table (collect_miners c)"
  have ws': "wsMinerInfos ws' = sort_key wmDeadline (tbInfos t)" and count: "GetMinerCount c' = tbCount t"
    and sh: "shares = None \<or> shares = Some (all_shares (bHeight (CurrentBlock c)) (tbInvSum t) (sort_key wmDeadline (tbInfos t)))"
    using assms(1) by (auto simp: updateMinerInfos_def Let_def t_def GetMinerCount_def cache_simps split: if_splits)
  have ids: "map wmID (tbInfos t) = map fst (miners c)"
    by (simp add: t_def scale_table_keys collect_miners_def collect_miners_infos miner_info_def comp_def case_prod_beta)
  have m: "mset (map wmID (wsMinerInfos ws')) = mset (map fst (miners c))"
    using arg_cong [OF ids, of mset] by (simp add: ws')
  have len: "length (wsMinerInfos ws') = length (miners c)" using arg_cong [OF ids, of length] by (simp add: ws')
  have "tbCount t = int (length (miners c))"
    using assms(3) by (cases "miners c") (auto simp: t_def scale_table_keys collect_miners_def collect_miners_count i32_def)
  moreover have "distinct (map wmID (wsMinerInfos ws'))"
    using m assms(2) by (metis miners_wf_def mset_eq_imp_distinct_iff)
  moreover have all: "length (all_shares h s mis) \<le> 11 \<and> shName (last (all_shares h s mis)) = ''other'' \<and>
      \<not> flt (shVal (last (all_shares h s mis))) (F 0) \<and>
      shName ` set (butlast (all_shares h s mis)) \<subseteq> display_name ` {mi \<in> set mis. wmLastActiveBlockHeight mi = h}" for h s mis
  proof -
    obtain ss x where x: "round_shares h s mis [] (F 0) = (ss, x)" by (metis surj_pair)
    have "length ss \<le> 10" "shName ` set ss \<subseteq> display_name ` {mi \<in> set mis. wmLastActiveBlockHeight mi = h}"
      using round_shares_length [of "[]" h s mis "F 0"] round_shares_members [of h s mis "[]" "F 0"]
      by (simp_all add: x bestShares_def)
    then show ?thesis by (simp add: all_shares_def x Let_def)
  qed
  ultimately show ?thesis
    using m sh count len all [of "bHeight (CurrentBlock c)" "tbInvSum t" "sort_key wmDeadline (tbInfos t)"]
    by (cases shares) (simp_all add: ws')
qed

theorem updateMinerInfos_table_witness:
  "\<exists>c' ws' shares. updateMinerInfos (cc sample_world) (NewWebServer sample_web (cc sample_world)) = (c', ws', shares) \<and>
     map wmID (wsMinerInfos ws') = [77] \<and> GetMinerCount c' = 1"
proof -
  obtain c' ws' shares where x: "updateMinerInfos (cc sample_world) (NewWebServer sample_web (cc sample_world)) = (c', ws', shares)"
    by (metis surj_pair)
  have ms: "miners (cc sample_world) = [(77, 0)]" by (simp add: sample_world_def cache_simps)
  have "miners_wf (cc sample_world)" using sample_world_inv by (simp add: cache_inv_def)
  from updateMinerInfos_table [OF x this]
  have "mset (map wmID (wsMinerInfos ws')) = {#77#}" "GetMinerCount c' = int (length (wsMinerInfos ws'))"
    by (simp_all add: ms)
  moreover from this have "length (wsMinerInfos ws') = 1" by (metis length_map size_mset size_single)
  ultimately show ?thesis using x by (cases "wsMinerInfos ws'") auto
qed

section \<open>The announced block\<close>

text \<open>
  The two checks only move the announced block forward: its height never decreases, and the deadline that is shown for a
  height only improves. After both, the announced block is at least the current one.
\<close>

lemma announced_block_advances:
  assumes "checkForBlockUpdate W c ws = (ws1, a)" "checkForNewBestSubmission c ws1 = (ws2, b)"
  shows "biHeight (wsBlockInfo ws) \<le> biHeight (wsBlockInfo ws2)"
    "bHeight (CurrentBlock c) \<le> biHeight (wsBlockInfo ws2)"
    "biHeight (wsBlockInfo ws2) = biHeight (wsBlockInfo ws) \<Longrightarrow> biDeadline (wsBlockInfo ws) \<noteq> 0 \<Longrightarrow>
       biDeadline (wsBlockInfo ws2) \<le> biDeadline (wsBlockInfo ws)"
    "biHeight (wsBlockInfo ws2) = nsHeight (BestNonceSubmission c) \<Longrightarrow>
       biDeadline (wsBlockInfo ws2) \<le> nsDeadline (BestNonceSubmission c)"
  using assms
  by (auto simp: checkForBlockUpdate_def checkForNewBestSubmission_def Let_def block_info_of_def not_less
      split: if_splits)

text \<open>
  A deadline of 0 seconds stands for "none": such a best submission is announced again at every check.
\<close>

lemma zero_deadline_announced_again:
  assumes "nsDeadline (BestNonceSubmission c) = 0" "biHeight (wsBlockInfo ws) = nsHeight (BestNonceSubmission c)"
    and "checkForNewBestSubmission c ws = (ws1, a)"
  shows "\<exists>bi. snd (checkForNewBestSubmission c ws1) = Some bi"
  using assms by (auto simp: checkForNewBestSubmission_def Let_def word_gt_0 split: if_splits)

end
