(* ===== verification/WebSteps.thy ===== *)
theory WebSteps
  imports WebProofs
begin

text \<open>
  The goroutines of the web server together: what is announced to the browsers, the bound of the message queues,
  and when the web server can end the process.
\<close>

section \<open>The queue of one client\<close>

text \<open>What every operation on a client keeps: at most four messages wait, and a stopped client is closed.\<close>

definition client_ok :: "Client \<Rightarrow> bool" where
  "client_ok cl \<longleftrightarrow> length (clMsgs cl) \<le> queue_capacity \<and> (clStopped cl \<longrightarrow> clClosed cl \<and> clNewID cl = None)"

text \<open>Sending to this client ends the process.\<close>

definition deadly :: "Client \<Rightarrow> bool" where
  "deadly cl \<longleftrightarrow> clClosed cl \<and> length (clMsgs cl) \<noteq> queue_capacity"

lemma QueueMsg_cases:
  "QueueMsg m cl = None \<longleftrightarrow> deadly cl"
  "QueueMsg m cl = Some cl' \<Longrightarrow> cl' = cl \<or> cl' = cl\<lparr>clMsgs := clMsgs cl @ [m]\<rparr> \<and> \<not> clClosed cl \<and> length (clMsgs cl) \<noteq> queue_capacity"
  by (auto simp: QueueMsg_def deadly_def split: if_splits)

lemma QueueMsg_ok: "QueueMsg m cl = Some cl' \<Longrightarrow> client_ok cl \<Longrightarrow> client_ok cl'"
  by (auto simp: client_ok_def dest!: QueueMsg_cases(2))

lemma QueueMsg_deadly: "QueueMsg m cl = Some cl' \<Longrightarrow> \<not> deadly cl'"
  by (auto simp: QueueMsg_def deadly_def split: if_splits)

lemma updateSubscription_cases:
  "updateSubscription W c i cl = None \<longleftrightarrow> deadly cl"
  "updateSubscription W c i cl = Some (cl', b) \<Longrightarrow> \<exists>m. QueueMsg m cl = Some cl'"
  by (auto simp: updateSubscription_def QueueMsg_cases(1) split: option.splits)

lemma subscribe_new_cases:
  assumes "client_ok cl" "\<not> clStopped cl"
  shows "subscribe_new W c i cl = None \<longleftrightarrow> deadly cl" "subscribe_new W c i cl = Some cl' \<Longrightarrow> client_ok cl'"
proof -
  let ?cl = "cl\<lparr>clID := i, clNewID := None\<rparr>"
  have ok: "client_ok ?cl" and d: "deadly ?cl \<longleftrightarrow> deadly cl" using assms by (auto simp: client_ok_def deadly_def)
  show "subscribe_new W c i cl = None \<longleftrightarrow> deadly cl"
    using updateSubscription_cases(1) [of W c i ?cl] updateSubscription_cases(2) [of W c i ?cl] QueueMsg_deadly d
    by (auto simp: subscribe_new_def bind_eq_None_conv QueueMsg_cases(1) split: if_splits)
  show "client_ok cl'" if "subscribe_new W c i cl = Some cl'"
  proof -
    from that obtain cl1 b where u: "updateSubscription W c i ?cl = Some (cl1, b)"
      and k: "(if \<not> b then Some cl1 else do { cl2 \<leftarrow> QueueMsg (text_msg subscriptionSuccess) cl1; Some (cl2\<lparr>clTicking := True\<rparr>) }) = Some cl'"
      by (auto simp: subscribe_new_def bind_eq_Some_conv)
    have ok1: "client_ok cl1" using updateSubscription_cases(2) [OF u] QueueMsg_ok ok by blast
    show ?thesis
    proof (cases b)
      case True
      then obtain cl2 where "QueueMsg (text_msg subscriptionSuccess) cl1 = Some cl2" "cl' = cl2\<lparr>clTicking := True\<rparr>"
        using k by (auto simp: bind_eq_Some_conv)
      then show ?thesis using QueueMsg_ok [OF _ ok1] by (auto simp: client_ok_def)
    qed (use k ok1 in simp)
  qed
qed

lemma subscribe_tick_cases:
  "subscribe_tick W c cl = None \<longleftrightarrow> deadly cl"
  "subscribe_tick W c cl = Some cl' \<Longrightarrow> client_ok cl \<Longrightarrow> client_ok cl'"
proof -
  show "subscribe_tick W c cl = None \<longleftrightarrow> deadly cl"
    using updateSubscription_cases(1) [of W c "clID cl" cl] by (auto simp: subscribe_tick_def bind_eq_None_conv split: if_splits)
  show "client_ok cl'" if t: "subscribe_tick W c cl = Some cl'" and ok: "client_ok cl"
  proof -
    from t obtain cl1 b where u: "updateSubscription W c (clID cl) cl = Some (cl1, b)"
      and k: "cl' = (if b then cl1 else cl1\<lparr>clTicking := False\<rparr>)" by (auto simp: subscribe_tick_def bind_eq_Some_conv)
    show ?thesis using updateSubscription_cases(2) [OF u] QueueMsg_ok [OF _ ok] k by (auto simp: client_ok_def)
  qed
qed

lemma parse_subscription_total: "\<exists>r. parse_subscription W msg = Some r"
proof -
  obtain r where "Decode (trim_prefix ''BURST-'' (go_ToUpper W (trim_spaces msg))) = Some r" using Decode_total_aux by blast
  then show ?thesis by (simp only: parse_subscription_def Let_def) (simp split: sum.split)
qed

lemma client_goroutines_cases:
  assumes "client_ok cl" "client_ready W x cl"
  shows "client_goroutines W c x cl = None \<Longrightarrow> deadly cl \<and> \<not> clStopped cl"
    "client_goroutines W c x cl = Some cl' \<Longrightarrow> client_ok cl'"
proof -
  obtain r where r: "\<And>msg. x = ReadMsg msg \<Longrightarrow> parse_subscription W msg = Some (r msg)"
    using parse_subscription_total by metis
  have run: "clNewID cl \<noteq> None \<Longrightarrow> \<not> clStopped cl" using assms(1) by (auto simp: client_ok_def)
  show "client_goroutines W c x cl = None \<Longrightarrow> deadly cl \<and> \<not> clStopped cl"
    using assms(2) run subscribe_new_cases(1) [OF assms(1)] subscribe_tick_cases(1)
    by (cases x) (auto simp: addSubscription_def r QueueMsg_cases(1) deadly_def close_msgs_def write_step_def
        split: subscription.splits list.splits)
  show "client_goroutines W c x cl = Some cl' \<Longrightarrow> client_ok cl'"
  proof (cases x)
    case (ReadMsg msg)
    assume "client_goroutines W c x cl = Some cl'"
    then show ?thesis using assms r [OF ReadMsg] ReadMsg
      by (cases "r msg") (auto simp: addSubscription_def client_ok_def dest: QueueMsg_cases(2))
  next
    case ReadFails
    assume "client_goroutines W c x cl = Some cl'"
    then show ?thesis using assms ReadFails by (auto simp: close_msgs_def client_ok_def)
  next
    case StopSubscription
    assume "client_goroutines W c x cl = Some cl'"
    then show ?thesis using assms StopSubscription by (auto simp: stop_subscription_def client_ok_def)
  next
    case NewIDEvent
    assume "client_goroutines W c x cl = Some cl'"
    then show ?thesis using assms run NewIDEvent subscribe_new_cases(2) by (auto simp: bind_eq_Some_conv)
  next
    case Tick
    assume "client_goroutines W c x cl = Some cl'"
    then show ?thesis using assms Tick subscribe_tick_cases(2) by simp
  next
    case WriteMsg
    assume "client_goroutines W c x cl = Some cl'"
    then show ?thesis using assms WriteMsg by (auto simp: write_step_def client_ok_def split: list.splits)
  qed
qed

section \<open>Messages to all clients\<close>

lemma sendToClients_cases:
  assumes "set ks \<subseteq> {..<length cls}"
  shows "sendToClients m ks cls = None \<Longrightarrow> \<exists>k \<in> set ks. deadly (cls ! k)"
    "sendToClients m ks cls = Some cls' \<Longrightarrow> list_all client_ok cls \<Longrightarrow> list_all client_ok cls' \<and> length cls' = length cls"
  using assms
proof (induction ks arbitrary: cls)
  case (Cons k ks)
  {
    case 1
    show ?case
    proof (cases "QueueMsg m (cls ! k)")
      case (Some cl)
      then obtain j where j: "j \<in> set ks" "deadly (cls[k := cl] ! j)" using Cons.IH(1) [of "cls[k := cl]"] 1 by auto
      then have "j \<noteq> k" using QueueMsg_deadly [OF Some] 1 by auto
      then show ?thesis using j by auto
    qed (simp add: QueueMsg_cases(1))
  next
    case 2
    then obtain cl where q: "QueueMsg m (cls ! k) = Some cl" "sendToClients m ks (cls[k := cl]) = Some cls'"
      by (auto simp: bind_eq_Some_conv)
    have "client_ok cl" using QueueMsg_ok [OF q(1)] 2 by (simp add: list_all_length)
    then have "list_all client_ok (cls[k := cl])" using 2 by (simp add: list_all_length nth_list_update)
    then show ?case using Cons.IH(2) [OF q(2)] 2 by simp
  }
qed simp_all

lemma broadcast_cases:
  assumes "set (wsClients ws) \<subseteq> {..<length cls}"
  shows "broadcast d ws cls = None \<Longrightarrow> \<exists>k \<in> set (wsClients ws). deadly (cls ! k)"
    "broadcast d ws cls = Some cls' \<Longrightarrow> list_all client_ok cls \<Longrightarrow> list_all client_ok cls' \<and> length cls' = length cls"
  using sendToClients_cases [OF assms] by (auto simp: broadcast_def split: option.splits)

lemma updatePoolStats_cases:
  "updatePoolStats c ws = None \<longleftrightarrow> wsNetDiff ws = None"
  "updatePoolStats c ws = Some ws' \<Longrightarrow> wsClients ws' = wsClients ws \<and> wsBlockInfo ws' = wsBlockInfo ws \<and>
     wsNetDiff ws' = wsNetDiff ws \<and> wsPoolStats ws' \<noteq> None"
  by (auto simp: updatePoolStats_def bind_eq_None_conv bind_eq_Some_conv)

text \<open>A round of \<open>webSocketJobs\<close> keeps the announced block and the clients, and says what can go wrong.\<close>

lemma webSocketJobs_cases:
  assumes "set (wsClients ws) \<subseteq> {..<length cls}"
  shows "webSocketJobs W c x ws cls = None \<Longrightarrow> (\<exists>k \<in> set (wsClients ws). deadly (cls ! k)) \<or> wsNetDiff ws = None"
    "webSocketJobs W c x ws cls = Some (ws', cls') \<Longrightarrow> list_all client_ok cls \<Longrightarrow>
       list_all client_ok cls' \<and> length cls' = length cls \<and> wsBlockInfo ws' = wsBlockInfo ws \<and> wsNetDiff ws' = wsNetDiff ws \<and>
       set (wsClients ws') \<subseteq> set (wsClients ws) \<union> (case x of Joins k \<Rightarrow> {k} | _ \<Rightarrow> {})"
proof -
  note b = broadcast_cases [OF assms] sendToClients_cases [OF assms] and u = updatePoolStats_cases
  show "webSocketJobs W c x ws cls = None \<Longrightarrow> (\<exists>k \<in> set (wsClients ws). deadly (cls ! k)) \<or> wsNetDiff ws = None"
  proof (cases x)
    case (News n)
    assume "webSocketJobs W c x ws cls = None"
    then show ?thesis using b(1) News by (cases n) (auto simp: bind_eq_None_conv)
  next
    case Ping
    assume "webSocketJobs W c x ws cls = None"
    then show ?thesis using b(3) Ping by (auto simp: bind_eq_None_conv)
  next
    case StatsTick
    assume n: "webSocketJobs W c x ws cls = None"
    show ?thesis
    proof (cases "updatePoolStats c ws")
      case (Some ws1)
      then obtain st where "broadcast (wp_json_stats W st) ws1 cls = None"
        using n StatsTick u(2) [OF Some] by (auto simp: bind_eq_None_conv)
      then show ?thesis using broadcast_cases(1) [of ws1 cls] u(2) [OF Some] assms by auto
    qed (simp add: u(1))
  qed simp_all
  show "webSocketJobs W c x ws cls = Some (ws', cls') \<Longrightarrow> list_all client_ok cls \<Longrightarrow>
       list_all client_ok cls' \<and> length cls' = length cls \<and> wsBlockInfo ws' = wsBlockInfo ws \<and> wsNetDiff ws' = wsNetDiff ws \<and>
       set (wsClients ws') \<subseteq> set (wsClients ws) \<union> (case x of Joins k \<Rightarrow> {k} | _ \<Rightarrow> {})"
  proof (cases x)
    case (News n)
    assume "webSocketJobs W c x ws cls = Some (ws', cls')" "list_all client_ok cls"
    then show ?thesis using b(2) News by (cases n) (auto simp: bind_eq_Some_conv)
  next
    case Ping
    assume "webSocketJobs W c x ws cls = Some (ws', cls')" "list_all client_ok cls"
    then show ?thesis using b(4) Ping by (auto simp: bind_eq_Some_conv)
  next
    case StatsTick
    assume "webSocketJobs W c x ws cls = Some (ws', cls')" "list_all client_ok cls"
    then obtain st where "updatePoolStats c ws = Some ws'" "broadcast (wp_json_stats W st) ws' cls = Some cls'" "list_all client_ok cls"
      using StatsTick by (auto simp: bind_eq_Some_conv)
    then show ?thesis using u(2) broadcast_cases(2) [of ws' cls] assms StatsTick by auto
  qed auto
qed

section \<open>The invariant of the web server\<close>

text \<open>
  \<open>newer a b\<close>: the announcement \<open>b\<close> may follow \<open>a\<close>. It is a higher block without a deadline yet, or the same block with a
  better deadline (where 0 stands for none).
\<close>

definition newer :: "BlockInfo \<Rightarrow> BlockInfo \<Rightarrow> bool" where
  "newer a b \<longleftrightarrow> biHeight a < biHeight b \<and> biDeadline b = 0 \<or>
     biHeight a = biHeight b \<and> biGenerationSignature a = biGenerationSignature b \<and>
     (biDeadline a = 0 \<or> biDeadline b < biDeadline a)"

definition announcements_ok :: "BlockInfo \<Rightarrow> web_state \<Rightarrow> bool" where
  "announcements_ok b0 s \<longleftrightarrow> successively newer (b0 # wb_announced s) \<and>
     last (b0 # wb_announced s) = wsBlockInfo (wb_server s)"

definition clients_ok :: "web_state \<Rightarrow> bool" where
  "clients_ok s \<longleftrightarrow> list_all client_ok (wb_clients s) \<and>
     set (wsClients (wb_server s)) \<union> set (wb_joining s) \<subseteq> {..<length (wb_clients s)}"

text \<open>The calls at the start come in order, so the statistics find the difficulty.\<close>

definition start_ok :: "web_state \<Rightarrow> bool" where
  "start_ok s \<longleftrightarrow> (\<exists>n. wb_todo s = drop n start_jobs \<and> (3 \<le> n \<longrightarrow> wsNetDiff (wb_server s) \<noteq> None))"

lemmas web_invs = announcements_ok_def clients_ok_def start_ok_def

lemma cacheUpdateJobs_cases:
  assumes "cacheUpdateJobs W e j w ws = Some (w', ws', n)"
  shows "wsClients ws' = wsClients ws" "wsNetDiff ws \<noteq> None \<or> j = NetDiffJob \<Longrightarrow> wsNetDiff ws' \<noteq> None"
    "(case announced n of [] \<Rightarrow> wsBlockInfo ws' = wsBlockInfo ws | b # bs \<Rightarrow> bs = [] \<and> newer (wsBlockInfo ws) b \<and> b = wsBlockInfo ws')"
proof -
  have best: "checkForNewBestSubmission c ws = (ws', r) \<Longrightarrow> wsClients ws' = wsClients ws \<and> wsNetDiff ws' = wsNetDiff ws \<and>
      (case r of None \<Rightarrow> wsBlockInfo ws' = wsBlockInfo ws | Some b \<Rightarrow> newer (wsBlockInfo ws) b \<and> b = wsBlockInfo ws')" for c r
    by (auto simp: checkForNewBestSubmission_def Let_def newer_def split: if_splits)
  have new: "checkForBlockUpdate W c ws = (ws', r) \<Longrightarrow> wsClients ws' = wsClients ws \<and> wsNetDiff ws' = wsNetDiff ws \<and>
      (case r of None \<Rightarrow> wsBlockInfo ws' = wsBlockInfo ws | Some b \<Rightarrow> newer (wsBlockInfo ws) b \<and> b = wsBlockInfo ws')" for c r
    by (auto simp: checkForBlockUpdate_def Let_def newer_def block_info_of_def split: if_splits)
  have "wsClients ws' = wsClients ws \<and> (wsNetDiff ws \<noteq> None \<or> j = NetDiffJob \<longrightarrow> wsNetDiff ws' \<noteq> None) \<and>
    (case announced n of [] \<Rightarrow> wsBlockInfo ws' = wsBlockInfo ws | b # bs \<Rightarrow> bs = [] \<and> newer (wsBlockInfo ws) b \<and> b = wsBlockInfo ws')"
  proof (cases j)
    case NewBlockJob
    then show ?thesis using assms by (auto simp: announced_def dest!: new split: prod.splits option.splits)
  next
    case BestSubmissionJob
    then show ?thesis using assms by (auto simp: announced_def dest!: best split: prod.splits option.splits)
  next
    case PoolStatsJob
    then show ?thesis using assms by (auto simp: announced_def bind_eq_Some_conv dest!: updatePoolStats_cases(2))
  qed (use assms in \<open>auto simp: announced_def updateMinerInfos_def updateRecentlyWonBlocks_def updateNetDiff_def Let_def
      split: prod.splits if_splits\<close>)
  then show "wsClients ws' = wsClients ws" "wsNetDiff ws \<noteq> None \<or> j = NetDiffJob \<Longrightarrow> wsNetDiff ws' \<noteq> None"
    "(case announced n of [] \<Rightarrow> wsBlockInfo ws' = wsBlockInfo ws | b # bs \<Rightarrow> bs = [] \<and> newer (wsBlockInfo ws) b \<and> b = wsBlockInfo ws')"
    by blast+
qed

lemma announcements_ok_job:
  assumes "cacheUpdateJobs W e j w (wb_server s) = Some r" "announcements_ok b0 s"
  shows "announcements_ok b0 (after_job s r)"
proof -
  obtain w' ws' n where r: "r = (w', ws', n)" by (cases r)
  note c = cacheUpdateJobs_cases(3) [OF assms(1) [unfolded r]]
  show ?thesis
  proof (cases "announced n")
    case (Cons b bs)
    then have "bs = []" and nw: "newer (wsBlockInfo (wb_server s)) b" and "b = wsBlockInfo ws'" using c by auto
    moreover have "successively newer ((b0 # wb_announced s) @ [b])"
      using assms(2) nw by (simp only: successively_append_iff announcements_ok_def) simp
    ultimately show ?thesis by (simp add: announcements_ok_def after_job_def r Cons)
  qed (use c assms(2) in \<open>simp add: announcements_ok_def after_job_def r\<close>)
qed

lemma clients_ok_job:
  assumes "cacheUpdateJobs W e j w (wb_server s) = Some r" "clients_ok s"
  shows "clients_ok (after_job s r)"
proof -
  obtain w' ws' n where r: "r = (w', ws', n)" by (cases r)
  have "wsClients ws' = wsClients (wb_server s)" by (rule cacheUpdateJobs_cases(1) [OF assms(1) [unfolded r]])
  then show ?thesis using assms(2) by (simp add: clients_ok_def after_job_def r)
qed

text \<open>Which jobs \<open>job_next\<close> allows keeps the calls at the start in order.\<close>

lemma start_ok_job:
  assumes "cacheUpdateJobs W e j w (wb_server s) = Some r" "job_next (wb_todo s) j" "start_ok s"
  shows "start_ok (after_job s r)"
proof -
  obtain w' ws' n where r: "r = (w', ws', n)" by (cases r)
  obtain k where k: "wb_todo s = drop k start_jobs" "3 \<le> k \<longrightarrow> wsNetDiff (wb_server s) \<noteq> None"
    using assms(3) by (auto simp: start_ok_def)
  note c = cacheUpdateJobs_cases(2) [OF assms(1) [unfolded r]]
  have "wsNetDiff ws' \<noteq> None" if "3 \<le> Suc k"
  proof (cases "3 \<le> k")
    case False
    then have "k = 2" using that by simp
    then have "j = NetDiffJob" using assms(2) k(1) by (simp add: job_next_def start_jobs_def)
    then show ?thesis using c by simp
  qed (use c k(2) in simp)
  then show ?thesis by (auto simp: start_ok_def after_job_def r k(1) tl_drop drop_Suc intro!: exI [of _ "Suc k"])
qed

definition web_inv :: "BlockInfo \<Rightarrow> web_state \<Rightarrow> bool" where
  "web_inv b0 s \<longleftrightarrow> clients_ok s \<and> announcements_ok b0 s \<and> start_ok s"

lemma web_start_inv: "web_inv (block_info_of W (CurrentBlock (cc w))) (web_start W w)"
  by (auto simp: web_inv_def web_invs web_start_def NewWebServer_def intro!: exI [of _ 0])

lemma webSocketJobs_inv:
  assumes "webSocketJobs W c x (wb_server s) (wb_clients s) = Some r" "web_inv b0 s"
    and "\<And>k. x = Joins k \<Longrightarrow> k < length (wb_clients s)"
    and "wb_clients s' = wb_clients s" "set (wb_joining s') \<subseteq> set (wb_joining s)" "wb_todo s' = wb_todo s" "wb_announced s' = wb_announced s"
  shows "web_inv b0 (after_event s' r)"
proof -
  obtain ws' cls' where r: "r = (ws', cls')" by (cases r)
  have "set (wsClients (wb_server s)) \<subseteq> {..<length (wb_clients s)}" "list_all client_ok (wb_clients s)"
    using assms(2) by (auto simp: web_inv_def clients_ok_def)
  note c = webSocketJobs_cases(2) [OF this(1) assms(1) [unfolded r] this(2)]
  have "set (wsClients ws') \<subseteq> {..<length cls'}"
    using c assms(2,3) by (cases x) (auto simp: web_inv_def clients_ok_def)
  then show ?thesis using c assms(2,4-7) by (auto simp: web_inv_def web_invs after_event_def r)
qed

lemma Some_map_option: "Some y = map_option f x \<Longrightarrow> \<exists>z. x = Some z \<and> y = f z"
  by (cases x) auto

lemma web_step_inv:
  assumes "web_step W e s (Some t)" "web_inv b0 s"
  shows "web_inv b0 t"
  using assms(1)
proof (cases rule: web_stepE)
  case (cache_job j)
  obtain x where x: "cacheUpdateJobs W e j (wb_world s) (wb_server s) = Some x" "t = after_job s x"
    using Some_map_option [OF cache_job(1)] by blast
  show ?thesis using clients_ok_job [OF x(1)] announcements_ok_job [OF x(1)] start_ok_job [OF x(1) cache_job(3)] assms(2) x(2)
    by (simp add: web_inv_def)
next
  case (hand_over n)
  let ?s' = "s\<lparr>wb_news := None\<rparr>"
  obtain x where x: "webSocketJobs W (cc (wb_world s)) (News n) (wb_server s) (wb_clients s) = Some x" "t = after_event ?s' x"
    using Some_map_option [OF hand_over(1)] by blast
  show ?thesis unfolding x(2) by (rule webSocketJobs_inv [OF x(1) assms(2)]) simp_all
next
  case (broadcast x)
  obtain y where y: "webSocketJobs W (cc (wb_world s)) x (wb_server s) (wb_clients s) = Some y" "t = after_event s y"
    using Some_map_option [OF broadcast(1)] by blast
  show ?thesis unfolding y(2) by (rule webSocketJobs_inv [OF y(1) assms(2)]) (use broadcast(2) in auto)
next
  case (connect up wb wst cl)
  have "cl = NewClient" using connect by (auto simp: webSocketHandler_def bind_eq_Some_conv split: if_splits)
  then have "client_ok cl" by (simp add: client_ok_def NewClient_def queue_capacity_def)
  then show ?thesis using connect assms(2) by (auto simp: web_inv_def web_invs less_Suc_eq)
next
  case (join k)
  let ?s' = "s\<lparr>wb_joining := removeAll k (wb_joining s)\<rparr>"
  obtain x where x: "webSocketJobs W c (Joins k) (wb_server s) (wb_clients s) = Some x" "t = after_event ?s' x" for c
    using join(1) by simp
  have "k < length (wb_clients s)" using join(2) assms(2) by (auto simp: web_inv_def clients_ok_def)
  then show ?thesis unfolding x(2) by (intro webSocketJobs_inv [OF x(1) assms(2)]) auto
next
  case (leave k)
  let ?s' = "s\<lparr>wb_leaving := removeAll k (wb_leaving s)\<rparr>"
  obtain x where x: "webSocketJobs W c (Leaves k) (wb_server s) (wb_clients s) = Some x" "t = after_event ?s' x" for c
    using leave(1) by simp
  show ?thesis unfolding x(2) by (rule webSocketJobs_inv [OF x(1) assms(2)]) simp_all
next
  case (client k x)
  let ?s' = "if x = StopSubscription then s\<lparr>wb_leaving := wb_leaving s @ [k]\<rparr> else s"
  obtain cl where cl: "client_goroutines W (cc (wb_world s)) x (wb_clients s ! k) = Some cl"
    "t = ?s'\<lparr>wb_clients := (wb_clients s)[k := cl]\<rparr>" using Some_map_option [OF client(1)] by blast
  have all: "list_all client_ok (wb_clients s)" using assms(2) by (simp add: web_inv_def clients_ok_def)
  then have "client_ok (wb_clients s ! k)" using client(2) by (simp add: list_all_length)
  then have "client_ok cl" using client_goroutines_cases(2) cl(1) client(3) by blast
  then have "list_all client_ok ((wb_clients s)[k := cl])" using all
    by (auto simp: list_all_iff dest!: subsetD [OF set_update_subset_insert])
  then show ?thesis using assms(2) unfolding cl(2) by (auto simp: web_inv_def web_invs)
qed

lemma web_inv_rest: "web_inv b0 (s\<lparr>wb_world := w\<rparr>) \<longleftrightarrow> web_inv b0 s"
  by (simp add: web_inv_def web_invs)

lemma web_reachable_inv:
  "web_reachable W e (web_start W w) s \<Longrightarrow> web_inv (block_info_of W (CurrentBlock (cc w))) s"
  by (induction rule: web_reachable.induct) (auto intro: web_start_inv web_step_inv simp: web_inv_rest)

section \<open>Runs\<close>

text \<open>A step changes the rest of the process in a job of the cache only: effects pass, and the statistics are stored.\<close>

lemma web_step_world:
  assumes "web_step W e s (Some t)"
  shows "db (wb_world t) = db (wb_world s) \<and> (cc (wb_world t) = cc (wb_world s) \<or> (\<exists>n x. cc (wb_world t) = StoreMinerCount n (StorePoolCap x (cc (wb_world s)))))"
  using assms
proof (cases rule: web_stepE)
  case (cache_job j)
  obtain w ws n where x: "cacheUpdateJobs W e j (wb_world s) (wb_server s) = Some (w, ws, n)" "t = after_job s (w, ws, n)"
    using Some_map_option [OF cache_job(1)] by (metis prod_cases3)
  have reads: "w' = next_tick (wb_world s)" if "GetRecentlyWonBlocks e (wb_world s) = (w', bs) \<or> GetAVGNetDiff e k (wb_world s) = (w', nd)" for w' bs nd k
    using that by (auto simp: GetRecentlyWonBlocks_def GetAVGNetDiff_def query_def split: sum.splits if_splits)
  have "w = wb_world s \<or> w = next_tick (wb_world s) \<or> (\<exists>n x. w = wb_world s\<lparr>cc := StoreMinerCount n (StorePoolCap x (cc (wb_world s)))\<rparr>)"
    using x(1)
  proof (cases j)
    case MinerInfosJob
    then show ?thesis using x(1) by (auto simp: updateMinerInfos_def Let_def split: if_splits)
  next
    case WonBlocksJob
    then show ?thesis using x(1) reads by (auto simp: updateRecentlyWonBlocks_def split: prod.splits)
  next
    case NetDiffJob
    then show ?thesis using x(1) reads by (auto simp: updateNetDiff_def split: prod.splits)
  qed (auto simp: bind_eq_Some_conv split: prod.splits)
  then have "db w = db (wb_world s) \<and> (cc w = cc (wb_world s) \<or> (\<exists>n x. cc w = StoreMinerCount n (StorePoolCap x (cc (wb_world s)))))"
    by (elim disjE exE) (simp_all, blast)
  then show ?thesis by (simp add: x(2) after_job_def)
qed (auto simp: after_event_def simp del: webSocketJobs.simps dest!: Some_map_option)

text \<open>Without clients a job runs and its news are taken at once.\<close>

lemma job_runs:
  assumes "web_reachable W e s0 s" "wb_news s = None" "wb_clients s = []" "wsClients (wb_server s) = []" "job_next (wb_todo s) j"
    and "cacheUpdateJobs W e j (wb_world s) (wb_server s) = Some (w', ws', n)"
  shows "\<exists>s'. web_reachable W e s0 s' \<and> wb_news s' = None \<and> wb_clients s' = [] \<and> wsClients (wb_server s') = [] \<and> wb_joining s' = wb_joining s \<and> wb_leaving s' = wb_leaving s \<and>
    wb_todo s' = tl (wb_todo s) \<and> wb_announced s' = wb_announced s @ announced n \<and> wb_server s' = ws' \<and> wb_world s' = w'"
proof -
  let ?s = "after_job s (w', ws', n)"
  have r: "web_reachable W e s0 ?s"
    using web_step.cache_job [OF assms(2,5), of W e] assms(1,6) by (auto intro: web_reachable.step)
  have ws': "wsClients ws' = []" using cacheUpdateJobs_cases(1) [OF assms(6)] assms(4) by simp
  show ?thesis
  proof (cases n)
    case None
    then show ?thesis using r ws' assms(3) by (intro exI [of _ ?s]) (simp add: after_job_def)
  next
    case (Some m)
    let ?t = "?s\<lparr>wb_news := None\<rparr>"
    have "webSocketJobs W (cc (wb_world ?s)) (News m) (wb_server ?s) (wb_clients ?s) = Some (ws', [])"
      using assms(3) ws' by (cases m) (simp_all add: after_job_def broadcast_def split: option.split)
    then have "web_step W e ?s (Some (after_event ?t (ws', [])))"
      using web_step.hand_over [of ?s m ?t W e] Some by (simp add: after_job_def)
    then have "web_reachable W e s0 (after_event ?t (ws', []))" by (rule web_reachable.step [OF r])
    then show ?thesis using assms(3) ws' by (intro exI [of _ "after_event ?t (ws', [])"]) (simp add: after_job_def after_event_def)
  qed
qed

text \<open>The calls at the start of \<open>cacheUpdateJobs\<close> always come to their end; then the statistics are there.\<close>

lemma start_completes:
  "\<exists>s. web_reachable W e (web_start W w) s \<and> wb_todo s = [] \<and> wb_news s = None \<and> wb_clients s = [] \<and> wb_joining s = [] \<and> wb_leaving s = [] \<and>
     wsClients (wb_server s) = [] \<and> wb_announced s = [] \<and> wsNetDiff (wb_server s) \<noteq> None \<and> wsPoolStats (wb_server s) \<noteq> None"
proof -
  let ?P = "\<lambda>todo s. web_reachable W e (web_start W w) s \<and> wb_news s = None \<and> wb_clients s = [] \<and> wsClients (wb_server s) = [] \<and>
      wb_joining s = [] \<and> wb_leaving s = [] \<and> wb_announced s = [] \<and> wb_todo s = todo"
  have step: "\<exists>s'. ?P todo s' \<and> wb_server s' = ws'"
    if "?P (j # todo) s" "cacheUpdateJobs W e j (wb_world s) (wb_server s) = Some (w', ws', n)" "announced n = []" for j todo s w' ws' n
    using job_runs [of W e "web_start W w" s j w' ws' n] that by (auto simp: job_next_def)
  have p0: "?P start_jobs (web_start W w)" by (simp add: web_start_def web_reachable.start NewWebServer_def)
  have p1: "\<exists>s'. ?P [WonBlocksJob, NetDiffJob, PoolStatsJob] s'" if "?P start_jobs s" for s
  proof -
    obtain c ws' sh where "updateMinerInfos (cc (wb_world s)) (wb_server s) = (c, ws', sh)" by (metis surj_pair)
    then show ?thesis using step [OF that [unfolded start_jobs_def], of "wb_world s\<lparr>cc := c\<rparr>" ws' "map_option ShareNews sh"]
      by (auto simp: announced_def split: option.splits)
  qed
  have p2: "\<exists>s'. ?P [NetDiffJob, PoolStatsJob] s'" if "?P [WonBlocksJob, NetDiffJob, PoolStatsJob] s" for s
  proof -
    obtain w' ws' where "updateRecentlyWonBlocks e (wb_world s) (wb_server s) = (w', ws')" by (metis surj_pair)
    then show ?thesis using step [OF that, of w' ws' None] by (auto simp: announced_def)
  qed
  have p3: "\<exists>s'. ?P [PoolStatsJob] s' \<and> wsNetDiff (wb_server s') \<noteq> None" if "?P [NetDiffJob, PoolStatsJob] s" for s
  proof -
    obtain w' ws' where x: "updateNetDiff e (wb_world s) (wb_server s) = (w', ws')" by (metis surj_pair)
    then have "wsNetDiff ws' \<noteq> None" by (auto simp: updateNetDiff_def split: prod.splits)
    then show ?thesis using step [OF that, of w' ws' None] x by (auto simp: announced_def)
  qed
  have p4: "\<exists>s'. ?P [] s' \<and> wsNetDiff (wb_server s') \<noteq> None \<and> wsPoolStats (wb_server s') \<noteq> None"
    if prem: "?P [PoolStatsJob] s" "wsNetDiff (wb_server s) \<noteq> None" for s
  proof -
    obtain ws' where x: "updatePoolStats (cc (wb_world s)) (wb_server s) = Some ws'"
      using prem(2) updatePoolStats_cases(1) by fastforce
    show ?thesis using step [OF prem(1), of "wb_world s" ws' None] updatePoolStats_cases(2) [OF x] x prem(2) by (auto simp: announced_def)
  qed
  obtain s1 where "?P [WonBlocksJob, NetDiffJob, PoolStatsJob] s1" using p1 [OF p0] by blast
  then obtain s2 where "?P [NetDiffJob, PoolStatsJob] s2" using p2 by blast
  then obtain s3 where "?P [PoolStatsJob] s3" "wsNetDiff (wb_server s3) \<noteq> None" using p3 by blast
  then obtain s4 where "?P [] s4" "wsNetDiff (wb_server s4) \<noteq> None" "wsPoolStats (wb_server s4) \<noteq> None" using p4 by blast
  then show ?thesis by blast
qed

text \<open>
  A client that disconnects before the web server has noticed it leaves before it joins: it stays registered for ever with a closed
  queue, and the next message to all clients ends the process.
\<close>

lemma client_leaves_before_it_joins:
  "\<exists>s k. web_reachable W e (web_start W w) s \<and> wsNetDiff (wb_server s) \<noteq> None \<and> k \<in> set (wsClients (wb_server s)) \<and>
     clClosed (wb_clients s ! k) \<and> clStopped (wb_clients s ! k) \<and> wb_leaving s = [] \<and> wb_joining s = [] \<and> web_step W e s None"
proof -
  obtain s where s: "web_reachable W e (web_start W w) s" "wb_clients s = []" "wb_joining s = []" "wb_leaving s = []" "wsClients (wb_server s) = []"
    "wsPoolStats (wb_server s) \<noteq> None" "wsNetDiff (wb_server s) \<noteq> None"
    using start_completes by blast
  let ?closed = "NewClient\<lparr>clClosed := True\<rparr>" and ?gone = "NewClient\<lparr>clClosed := True, clStopped := True\<rparr>"
  let ?s1 = "s\<lparr>wb_clients := [NewClient], wb_joining := [0]\<rparr>" let ?s2 = "?s1\<lparr>wb_clients := [?closed]\<rparr>"
  let ?s3 = "?s2\<lparr>wb_leaving := [0], wb_clients := [?gone]\<rparr>" 
  let ?s4 = "?s3\<lparr>wb_leaving := [], wb_server := (wb_server s)\<lparr>wsClients := []\<rparr>, wb_clients := [?gone]\<rparr>"
  let ?s5 = "?s4\<lparr>wb_joining := [], wb_server := (wb_server s)\<lparr>wsClients := [0]\<rparr>, wb_clients := [?gone]\<rparr>"
  have "webSocketHandler True True True (wb_server s) = Some (Some NewClient)"
    using s(6) by (simp add: webSocketHandler_def getPoolStatsInfo_def bind_eq_Some_conv)
  from web_step.connect [OF this, of 0 W e] have "web_step W e s (Some ?s1)" using s by simp
  then have r1: "web_reachable W e (web_start W w) ?s1" by (rule web_reachable.step [OF s(1)])
  have "web_step W e ?s1 (Some ?s2)"
    using web_step.client [of 0 ?s1 W ReadFails ?s1 e] by (simp add: NewClient_def close_msgs_def)
  then have r2: "web_reachable W e (web_start W w) ?s2" by (rule web_reachable.step [OF r1])
  have "web_step W e ?s2 (Some ?s3)"
    using web_step.client [of 0 ?s2 W StopSubscription "?s2\<lparr>wb_leaving := [0]\<rparr>" e] s(4)
    by (simp add: NewClient_def stop_subscription_def)
  then have r3: "web_reachable W e (web_start W w) ?s3" by (rule web_reachable.step [OF r2])
  have "web_step W e ?s3 (Some ?s4)"
    using web_step.leave [of 0 ?s3 "?s3\<lparr>wb_leaving := []\<rparr>" W e] s(5) by (simp add: after_event_def)
  then have r4: "web_reachable W e (web_start W w) ?s4" by (rule web_reachable.step [OF r3])
  have "web_step W e ?s4 (Some ?s5)"
    using web_step.join [of 0 ?s4 "?s4\<lparr>wb_joining := []\<rparr>" W e] s(5) by (simp add: after_event_def List.insert_def)
  then have r5: "web_reachable W e (web_start W w) ?s5" by (rule web_reachable.step [OF r4])
  have "web_step W e ?s5 None"
    using web_step.broadcast [of Ping W e ?s5] by (simp add: idx_def QueueMsg_def NewClient_def queue_capacity_def)
  then show ?thesis using r5 s(4,7) by (intro exI [of _ ?s5] exI [of _ 0]) simp
qed

section \<open>What can go wrong\<close>

text \<open>Subscribing to an unknown account replaces the id and so ends the existing subscription at its next update.\<close>

lemma failed_subscription_replaces:
  assumes "GetMiner i c = None" "\<not> clClosed cl" "subscribe_new W c i cl = Some cl'"
  shows "clID cl' = i \<and> clTicking cl' = clTicking cl \<and> (\<forall>cl''. subscribe_tick W c cl' = Some cl'' \<longrightarrow> \<not> clTicking cl'')"
  using assms
  by (auto simp: subscribe_new_def subscribe_tick_def updateSubscription_def genSubscriptionMsg_def GenMinerInfo_def
      QueueMsg_def bind_eq_Some_conv split: if_splits)

text \<open>
  Before the first update of the statistics, a request for them through the API ends the process; the pages are not served.
\<close>

lemma stats_missing_at_start:
  "api_GetPoolStatsInfo (NewWebServer W c) = None" "indexHandler cfg (NewWebServer W c) = None"
  by (simp_all add: api_GetPoolStatsInfo_def getPoolStatsInfo_def NewWebServer_def indexHandler_def index_info_def)

section \<open>The properties\<close>



text \<open>C37.
  The web server survives everything but two cases: no client, however slowly it reads and whatever it sends, ever has more than
  four messages waiting, and a step ends the process only if a message goes to a client that has closed its
  queue (but is still registered or subscribed), or if the first statistics have not been computed yet.
\<close>

theorem web_server_crashes:
  assumes "web_reachable W e (web_start W w) s"
  shows "(\<forall>k < length (wb_clients s). length (clMsgs (wb_clients s ! k)) \<le> 4) \<and>
    (web_step W e s None \<longrightarrow> wsNetDiff (wb_server s) = None \<or>
      (\<exists>k < length (wb_clients s). clClosed (wb_clients s ! k) \<and> length (clMsgs (wb_clients s ! k)) < 4 \<and>
         (k \<in> set (wsClients (wb_server s)) \<or> \<not> clStopped (wb_clients s ! k))))"
proof -
  have inv: "web_inv (block_info_of W (CurrentBlock (cc w))) s" by (rule web_reachable_inv [OF assms])
  then have sub: "set (wsClients (wb_server s)) \<subseteq> {..<length (wb_clients s)}"
    and ok: "k < length (wb_clients s) \<Longrightarrow> client_ok (wb_clients s ! k)" for k
    by (auto simp: web_inv_def clients_ok_def list_all_length)
  have d: "deadly (wb_clients s ! k) \<Longrightarrow> k < length (wb_clients s) \<Longrightarrow>
      clClosed (wb_clients s ! k) \<and> length (clMsgs (wb_clients s ! k)) < 4" for k
    using ok [of k] by (auto simp: deadly_def client_ok_def queue_capacity_def)
  have jobs: "wsNetDiff (wb_server s) = None \<or> (\<exists>k < length (wb_clients s). clClosed (wb_clients s ! k) \<and>
      length (clMsgs (wb_clients s ! k)) < 4 \<and> (k \<in> set (wsClients (wb_server s)) \<or> \<not> clStopped (wb_clients s ! k)))"
    if "webSocketJobs W c x (wb_server s) (wb_clients s) = None" for c x
    using webSocketJobs_cases(1) [OF sub that] d sub by blast
  have "web_step W e s None \<Longrightarrow> wsNetDiff (wb_server s) = None \<or>
      (\<exists>k < length (wb_clients s). clClosed (wb_clients s ! k) \<and> length (clMsgs (wb_clients s ! k)) < 4 \<and>
         (k \<in> set (wsClients (wb_server s)) \<or> \<not> clStopped (wb_clients s ! k)))"
  proof (erule web_stepE)
    fix j
    assume j: "None = map_option (after_job s) (cacheUpdateJobs W e j (wb_world s) (wb_server s))"
    then have "cacheUpdateJobs W e j (wb_world s) (wb_server s) = None" by simp
    then have "wsNetDiff (wb_server s) = None"
      by (cases j) (auto simp: updatePoolStats_cases(1) bind_eq_None_conv split: prod.splits)
    then show ?thesis by blast
  next
    fix k x
    assume k: "k < length (wb_clients s)" "client_ready W x (wb_clients s ! k)"
      and "None = map_option (\<lambda>cl. (if x = StopSubscription then s\<lparr>wb_leaving := wb_leaving s @ [k]\<rparr> else s)
        \<lparr>wb_clients := (wb_clients s)[k := cl]\<rparr>) (client_goroutines W (cc (wb_world s)) x (wb_clients s ! k))"
    then have "client_goroutines W (cc (wb_world s)) x (wb_clients s ! k) = None" by simp
    from client_goroutines_cases(1) [OF ok [OF k(1)] k(2) this] show ?thesis using d k(1) by blast
  qed (use jobs in \<open>auto simp: eq_commute [of None]\<close>)
  then show ?thesis using ok by (auto simp: client_ok_def queue_capacity_def)
qed

theorem web_server_crashes_witness:
  "\<exists>s. web_reachable sample_web sample_env (web_start sample_web sample_world) s \<and> web_step sample_web sample_env s None \<and>
     (\<exists>k < length (wb_clients s). clClosed (wb_clients s ! k) \<and> length (clMsgs (wb_clients s ! k)) < 4)"
proof -
  obtain s where s: "web_reachable sample_web sample_env (web_start sample_web sample_world) s"
    "wsNetDiff (wb_server s) \<noteq> None" "web_step sample_web sample_env s None"
    using client_leaves_before_it_joins by blast
  with web_server_crashes [OF s(1)] obtain k where
    "k < length (wb_clients s)" "clClosed (wb_clients s ! k)" "length (clMsgs (wb_clients s ! k)) < 4" by auto
  then show ?thesis using s(1,3) by (intro exI [of _ s] exI [of _ k] conjI)
qed

end
