(* ===== verification/Boot.thy ===== *)
theory Boot
  imports Config "HOL-Library.Monad_Syntax"
begin

text \<open>
  What happens before there is a state: reading the configuration (\<open>LoadConfig\<close> of \<^verbatim>\<open>config.go\<close>) and opening the
  databases with their migrations (\<open>initializeDatabase\<close> and the beginning of \<open>NewModelX\<close> in \<^verbatim>\<open>modelx.go\<close>). Files, the YAML
  parser, the MySQL driver and the migration library are arguments; \<open>None\<close> is \<open>Logger.Fatal\<close>, which ends the process.
\<close>

section \<open>The configuration\<close>

definition LoadConfig :: "(string \<Rightarrow> string + string) \<Rightarrow> (string \<Rightarrow> Config \<Rightarrow> string + Config) \<Rightarrow> Config \<Rightarrow> Config option" where
  "LoadConfig readFile unmarshal cfg =
     (case readFile ''./config.yaml'' of
        Inl err \<Rightarrow> None
      | Inr raw \<Rightarrow>
          (case unmarshal raw (cfg\<lparr>Version := ''v1.4.3''\<rparr>) of
             Inl err \<Rightarrow> None
           | Inr cfg \<Rightarrow> (case validateConfig cfg of Inl err \<Rightarrow> None | Inr cfg \<Rightarrow> Some cfg)))"

lemma LoadConfig_ok: "LoadConfig rf um c0 = Some cfg \<Longrightarrow> config_ok cfg"
  using validateConfig_ok by (auto simp: LoadConfig_def split: sum.splits)

section \<open>The databases\<close>

datatype migrate_error = ErrNilVersion | ErrNoChange | OtherError string

text \<open>
  The answers of the libraries: an error, if any. \<open>Connect\<close> and \<open>Exec\<close> see their texts, \<open>drVersion\<close> is the recorded version of the
  schema, whether its migration was broken off, and an error.
\<close>

record sql_driver =
  drConnect :: "string \<Rightarrow> string option"
  drExec :: "string \<Rightarrow> string option"
  drWithInstance :: "string option"
  drNewMigrate :: "string \<Rightarrow> string option"
  drVersion :: "nat \<times> bool \<times> migrate_error option"
  drForce :: "nat \<Rightarrow> migrate_error option"
  drUp :: "migrate_error option"

definition must :: "'e option \<Rightarrow> unit option" where
  "must r = (case r of None \<Rightarrow> Some () | Some err \<Rightarrow> None)"

definition create_schema :: "Config \<Rightarrow> string" where
  "create_schema cfg = ''CREATE SCHEMA IF NOT EXISTS `'' @ dbName (DB cfg) @ ''` DEFAULT CHARACTER SET utf8;''"

text \<open>The result tells the version that was forced, if any.\<close>

definition initializeDatabase :: "sql_driver \<Rightarrow> Config \<Rightarrow> bool \<Rightarrow> nat option option" where
  "initializeDatabase D cfg migrateDB = do {
     _ \<leftarrow> must (drConnect D (DataSourceName (DB cfg) False));
     _ \<leftarrow> must (drExec D (create_schema cfg));
     _ \<leftarrow> must (drConnect D (DataSourceName (DB cfg) True));
     if \<not> migrateDB then Some None
     else do {
       _ \<leftarrow> must (drWithInstance D);
       _ \<leftarrow> must (drNewMigrate D ''file://migrations'');
       let (version, dirty, versionErr) = drVersion D;
       _ \<leftarrow> (if versionErr \<notin> {None, Some ErrNilVersion} then None else Some ());
       _ \<leftarrow> (if dirty then must (drForce D version) else Some ());
       _ \<leftarrow> (if drUp D \<notin> {None, Some ErrNoChange} then None else Some ());
       Some (if dirty then Some version else None) } }"

text \<open>The beginning of \<open>NewModelX\<close>: the pool's database, and that of a wallet if one is configured.\<close>

definition open_databases :: "sql_driver \<Rightarrow> Config \<Rightarrow> bool \<Rightarrow> nat option option" where
  "open_databases D cfg migrateDB = do {
     forced \<leftarrow> initializeDatabase D cfg migrateDB;
     _ \<leftarrow> (if dbName (WalletDB cfg) \<noteq> [] then must (drConnect D (DataSourceName (WalletDB cfg) True)) else Some ());
     Some forced }"

lemma must_Some [simp]: "must r = Some u \<longleftrightarrow> r = None"
  by (simp add: must_def split: option.split)

text \<open>
  The process goes on only with a schema that the migration library reports as complete, and only with connections that stand.
\<close>

lemma open_databases_migrated:
  assumes "open_databases D cfg True = Some forced"
  shows "drUp D \<in> {None, Some ErrNoChange} \<and> drConnect D (DataSourceName (DB cfg) True) = None \<and>
    (dbName (WalletDB cfg) \<noteq> [] \<longrightarrow> drConnect D (DataSourceName (WalletDB cfg) True) = None) \<and>
    (forced = None \<longleftrightarrow> \<not> fst (snd (drVersion D)))"
proof -
  obtain version dirty err where v: "drVersion D = (version, dirty, err)" by (metis surj_pair)
  have i: "(if b then None else Some ()) = Some u \<longleftrightarrow> \<not> b" for b u by simp
  show ?thesis using assms
    by (cases dirty) (auto simp: open_databases_def initializeDatabase_def bind_eq_Some_conv v i Let_def simp del: not_None_eq split: if_splits)
qed

text \<open>A migration that was broken off is not repeated: its version is declared complete, and the next one is tried.\<close>

lemma broken_migration_forced:
  assumes "drVersion D = (version, True, None)" "drForce D version = None" "drUp D = Some ErrNoChange"
    and "\<forall>s. drConnect D s = None \<and> drExec D s = None \<and> drNewMigrate D s = None" "drWithInstance D = None"
  shows "open_databases D cfg True = Some (Some version)"
  using assms by (simp add: open_databases_def initializeDatabase_def must_def)

end
