(* ===== verification/Process.thy ===== *)
theory Process
  imports Schema Mining PoolProofs WebSteps Boot
begin

text \<open>
  The whole process: \<^verbatim>\<open>main.go\<close> from a configuration to the running pool and web server, and both together on
  one state. Whatever the miners, nodes, browsers, wallets and the connection to the database do, in every state that is reached
  without a crash the database and the cache are consistent and the web server tells the truth about both.
\<close>

section \<open>The database along the steps of the pool\<close>

lemma holds_SomeD: "holds_o Q x \<Longrightarrow> x = Some w \<Longrightarrow> Q w" "holds_op Q y \<Longrightarrow> y = Some (w, a) \<Longrightarrow> Q w"
  by (simp_all add: holds_defs)

context mining_frame
begin

lemma checkAndAddNewBlock: "holds Q w \<Longrightarrow> holds_o Q (checkAndAddNewBlock e w)"
  unfolding checkAndAddNewBlock_def by (intro mining_rules MaybeSwitchOrNewBlock | assumption)+

text \<open>A request continues with the miner object that it found or created, if any.\<close>

lemma burst_handler: "holds Q w \<Longrightarrow> holds_op Q (burst_handler P e limited ri req w)"
proof -
  have update: "holds_op Q (UpdateOrCreateNonceSubmission e p h d n bt gs w \<bind> (\<lambda>(w, err). Some (case err of
      Some _ \<Rightarrow> (w, reply, None) | None \<Rightarrow> (w, reply, Some (ns w)))))" if "holds Q w" for p h d n bt gs w reply ns
    using UpdateOrCreateNonceSubmission [OF that, of p h d n bt gs]
    by (auto simp: holds_defs bind_eq_Some_conv split: option.splits)
  have found: "holds_op Q (case check_request e ri req (cc w) of Inl reply \<Rightarrow> Some (w, reply, None)
      | Inr (accountID, n) \<Rightarrow> FirstOrCreateMiner e accountID w \<bind> f accountID n)"
    if "holds Q w" "\<And>i n w a. holds Q w \<Longrightarrow> holds_op Q (f i n (w, a))" for w f
  proof (cases "check_request e ri req (cc w)")
    case (Inr b)
    have "holds_op Q (FirstOrCreateMiner e (fst b) w \<bind> f (fst b) (snd b))"
      using that by (intro frames FirstOrCreateMiner)
    then show ?thesis by (simp add: Inr case_prod_beta)
  qed (use that in \<open>simp add: frames\<close>)
  have "holds Q w \<Longrightarrow> holds_op Q (processSubmitNonceRequest P e ri req w)" for w
    unfolding processSubmitNonceRequest_def Let_def prod.case
    by (intro found update frames cached frames_bind_pure | assumption)+
  then show "holds Q w \<Longrightarrow> holds_op Q (burst_handler P e limited ri req w)"
    unfolding burst_handler_def by (intro frames | assumption)+
qed

lemma node_SubmitNonce: "holds Q w \<Longrightarrow> holds_op Q (node_SubmitNonce e ri msg w)"
  unfolding node_SubmitNonce_def Let_def prod.case
  by (intro frames frames_bind_pure FirstOrCreateMiner UpdateOrCreateNonceSubmission | assumption)+

lemma forge_receive: "holds Q w \<Longrightarrow> holds_op Q (forge_receive P e ns w st)"
  unfolding forge_receive_def Let_def by (intro frames cached UpdateBestSubmission | assumption)+

lemma forge_start: "holds Q w \<Longrightarrow> holds_op Q (forge_start P e b w)"
  unfolding forge_start_def Let_def by (intro frames cached GetBestNonceSubmissionOnBlock | assumption)+

lemma forge_timeout: "holds Q w \<Longrightarrow> holds_p Q (forge_timeout e w st)"
proof -
  have "holds Q w \<Longrightarrow> holds_p Q (submit_tries e k ns w)" for k ns w
    by (induction k arbitrary: w) (simp_all add: frames effects)
  then show "holds Q w \<Longrightarrow> holds_p Q (forge_timeout e w st)" unfolding forge_timeout_def submitNonce_def
    by (intro frames | assumption)+
qed

lemma pool_step_mining:
  assumes "pool_step P e s s'" "Q (ps_world s)"
  shows "Q (ps_world s') \<or> (\<exists>j w. s' = s\<lparr>ps_world := w\<rparr> \<and> run_job e j (ps_world s) = Some w)"
proof -
  have w: "holds Q (ps_world s)" using assms(2) by (simp add: holds_def)
  from assms show ?thesis
  proof (cases rule: pool_step.cases)
    case (poll w)
    then show ?thesis using holds_SomeD(1) [OF checkAndAddNewBlock [OF w]] by simp
  next
    case (job j w)
    then show ?thesis by blast
  next
    case (serve ri limited req w reply ns)
    then show ?thesis using holds_SomeD(2) [OF burst_handler [OF w] serve(3)] by simp
  next
    case (node ri msg w err ns)
    then show ?thesis using holds_SomeD(2) [OF node_SubmitNonce [OF w] node(3)] by simp
  next
    case (receive ns w st)
    then show ?thesis using holds_SomeD(2) [OF forge_receive [OF w] receive(3)] by simp
  next
    case (timeout t w st)
    then show ?thesis using forge_timeout [OF w, of "ps_forge s"] by (simp add: holds_p_def)
  qed (use assms(2) in simp)
qed

lemma NewPool: "Q w \<Longrightarrow> NewPool P e w = Some s \<Longrightarrow> Q (ps_world s)"
  using forge_start [of w P "CurrentBlock (cc w)"] by (auto simp: NewPool_def bind_eq_Some_conv holds_defs)

end

locale pool_frame = job_frame + mining_frame
begin

lemma run_job: "holds Q w \<Longrightarrow> holds_o Q (run_job e j w)"
  by (cases j) (simp_all add: frames RewardBlocks Payout RereadMinerNames CleanDB)

lemma pool_step: "pool_step P e s s' \<Longrightarrow> Q (ps_world s) \<Longrightarrow> Q (ps_world s')"
  using pool_step_mining [of P s s'] holds_SomeD(1) [OF run_job] by (fastforce simp: holds_def)

end

text \<open>Consistency of the database: every statement keeps it.\<close>

locale store_frame = statement_frame + mining_frame

sublocale store_frame \<subseteq> pool_frame ..

lemma preservesD: "preserves P st \<Longrightarrow> P d \<Longrightarrow> st d = Inr d' \<Longrightarrow> P d'"
  by (simp add: preserves_def)

interpretation consistent: store_frame "\<lambda>w. schema (FeeAccountID (ev_cfg e)) (db w)" "preserves (schema (FeeAccountID (ev_cfg e)))" e for e
  by unfold_locales (simp_all add: stmts upd_cache_def preservesD)

text \<open>The payment tables: new transactions keep their invariant as a whole, all other statements one by one.\<close>

lemma payout_inv_stmt:
  assumes "\<And>d d'. st d = Inr d' \<Longrightarrow> account_ids d' = account_ids d \<and> tx_ids d' = tx_ids d \<and> next_tx d' = next_tx d \<and>
    transaction_recipient d' = transaction_recipient d"
  shows "preserves payout_inv st"
  using assms payout_inv_frame by (blast intro: preservesI)

lemma payout_inv_sum: "(\<And>d. payout_inv d \<Longrightarrow> \<exists>d'. st d = Inr d' \<and> payout_inv d') \<Longrightarrow> preserves payout_inv st"
  by (fastforce intro: preservesI)

lemma payout_inv_batches: "payout_inv d \<Longrightarrow> batches_ok d"
  by (simp add: payout_inv_def)

lemma payout_inv_deletes: "preserves payout_inv (sql_delete_blocks_below h)" "preserves payout_inv (sql_delete_old_accounts fee)"
proof -
  have "payout_inv d \<Longrightarrow> payout_inv (cascade (d\<lparr>block := ks\<rparr>))"
    "payout_inv d \<Longrightarrow> payout_inv (cascade (d\<lparr>account := filter P (account d)\<rparr>))" for d ks P
    by (auto intro!: payout_inv_cascade dest!: payout_inv_batches
        simp: batches_ok_def account_ids_def tx_ids_def recipients_of_def distinct_map_filter)
  then show "preserves payout_inv (sql_delete_blocks_below h)" "preserves payout_inv (sql_delete_old_accounts fee)"
    by (auto simp: preserves_def sql_delete_blocks_below_def sql_delete_old_accounts_def)
qed

lemma payout_inv_insert_account: "preserves payout_inv (sql_insert_account i address n)"
  by (rule preservesI) (auto simp: sql_insert_account_def has_account_def payout_inv_def batches_ok_def account_ids_def tx_ids_def
      recipients_of_def split: if_splits)

lemma payout_inv_accounts: "preserves payout_inv (sql_add_pending x i)" "preserves payout_inv (sql_set_min_payout v iv t x i)"
  "preserves payout_inv (sql_set_name n i)" "preserves payout_inv (sql_transfer_pending fee)"
  by (rule payout_inv_stmt; auto simp: sql_add_pending_def sql_set_min_payout_def sql_set_name_def sql_transfer_pending_def Let_def
      account_ids_def tx_ids_def upd_where_ids split: if_splits)+

lemma payout_inv_others:
  "preserves payout_inv (sql_set_capacity c i)" "preserves payout_inv sql_delete_idle_miners" "preserves payout_inv (sql_insert_miner i)"
  "preserves payout_inv (sql_set_won x i h)" "preserves payout_inv (sql_set_verified h)" "preserves payout_inv (sql_pick_best h now)"
  "preserves payout_inv (sql_verify_empty h now)" "preserves payout_inv (sql_set_generation_time gt h)"
  "preserves payout_inv (sql_insert_block h bt sc gs created gt)" "preserves payout_inv (sql_switch_delete i h)"
  "preserves payout_inv (sql_update_submission dl n i h)" "preserves payout_inv (sql_insert_submission i h dl n)"
  "preserves payout_inv (sql_set_best i h)" "preserves payout_inv (sql_switch_block gs bt h)"
  by (rule payout_inv_stmt; auto simp: sql_set_capacity_def sql_delete_idle_miners_def sql_insert_miner_def sql_set_won_def
      sql_set_verified_def sql_pick_best_def sql_verify_empty_def sql_set_generation_time_def sql_insert_block_def sql_switch_delete_def
      sql_update_submission_def sql_insert_submission_def sql_set_best_def sql_switch_block_fails account_ids_def tx_ids_def split: if_splits)+

lemma payout_inv_txs: "preserves payout_inv (sql_forget_tx_id tx)" "preserves payout_inv (sql_confirm_tx h tx)"
  "preserves payout_inv (sql_set_tx_id tx now t)"
  by (rule payout_inv_sum, erule sql_forget_tx_id_inv sql_confirm_tx_inv sql_set_tx_id_inv)+

interpretation payable: pool_frame "\<lambda>w. payout_inv (db w)" "preserves payout_inv" e for e
proof unfold_locales
  fix w assume "holds (\<lambda>w. payout_inv (db w)) w"
  then show "holds_o (\<lambda>w. payout_inv (db w)) (createTransactions e w)"
    using createTransactions_inv [of w e] by (auto simp: holds_defs)
qed (simp_all add: upd_cache_def preservesD payout_inv_deletes payout_inv_insert_account payout_inv_accounts payout_inv_others payout_inv_txs)

section \<open>The start\<close>

text \<open>
  \<^verbatim>\<open>main.go\<close> with a loaded configuration, which is \<open>ev_cfg\<close> from then on: the cache is made, the databases are opened, the model is
  loaded, and the web server is made from it. \<open>math.Log\<close> is the parameter \<open>pp_log\<close>.
\<close>

definition main_web :: "sql_driver \<Rightarrow> pool_params \<Rightarrow> web_params \<Rightarrow> env \<Rightarrow> world \<Rightarrow> web_state option" where
  "main_web D P W e w = do {
     c \<leftarrow> InitCache (pp_log P) (ev_cfg e);
     forced \<leftarrow> open_databases D (ev_cfg e) True;
     w \<leftarrow> NewModelX e (w\<lparr>cc := c\<rparr>);
     Some (web_start W w) }"

text \<open>
  The process: the goroutines of the web server run before the pool is made and beside it, on the same database and cache.
\<close>

record process =
  pr_pool :: pool_state
  pr_web :: web_state

inductive process_start :: "sql_driver \<Rightarrow> pool_params \<Rightarrow> web_params \<Rightarrow> env \<Rightarrow> world \<Rightarrow> process \<Rightarrow> bool" for D P W e w0 where
  main: "main_web D P W e w0 = Some v0 \<Longrightarrow> (\<lambda>v v'. web_step W e v (Some v'))\<^sup>*\<^sup>* v0 v \<Longrightarrow> NewPool P e (wb_world v) = Some p \<Longrightarrow>
    process_start D P W e w0 \<lparr>pr_pool = p, pr_web = v\<lparr>wb_world := ps_world p\<rparr>\<rparr>"

inductive process_step :: "pool_params \<Rightarrow> web_params \<Rightarrow> env \<Rightarrow> process \<Rightarrow> process \<Rightarrow> bool" for P W e where
  pool: "pool_step P e (pr_pool s) p \<Longrightarrow> process_step P W e s \<lparr>pr_pool = p, pr_web = (pr_web s)\<lparr>wb_world := ps_world p\<rparr>\<rparr>"
| web: "web_step W e (pr_web s) (Some v) \<Longrightarrow> process_step P W e s \<lparr>pr_pool = (pr_pool s)\<lparr>ps_world := wb_world v\<rparr>, pr_web = v\<rparr>"

inductive_cases process_startE: "process_start D P W e w0 s"
inductive_cases process_stepE: "process_step P W e s s'"

section \<open>The start brings database and cache in order\<close>

definition ready :: "Config \<Rightarrow> world \<Rightarrow> bool" where
  "ready cfg w \<longleftrightarrow> cache_inv cfg (cc w) \<and> schema (FeeAccountID cfg) (db w) \<and> payout_inv (db w)"

lemma createFeeAccount_db:
  assumes "(if FeeAccountID (ev_cfg e) \<noteq> 0 then createFeeAccount e w else Some w) = Some w'"
    and "loadable (FeeAccountID (ev_cfg e)) (db w)" "payout_inv (db w)"
  shows "schema (FeeAccountID (ev_cfg e)) (db w') \<and> payout_inv (db w')"
proof (cases "FeeAccountID (ev_cfg e) = 0")
  case True
  then show ?thesis using assms by (simp add: schema_def keys_ok_def loadable_def)
next
  case False
  then obtain address where a: "Encode (FeeAccountID (ev_cfg e)) = Some address"
    "sql_insert_account (FeeAccountID (ev_cfg e)) address None (db w) = Inr (db w')"
    using assms(1) by (auto simp: createFeeAccount_def mustExec_Some bind_eq_Some_conv)
  show ?thesis using fee_account_created [OF a(2) assms(2) a(1)] preservesD [OF payout_inv_insert_account assms(3) a(2)] by simp
qed

lemma holds_after_load:
  assumes "mining_frame Q S e" "Q w" "(if FeeAccountID (ev_cfg e) \<noteq> 0 then createFeeAccount e w0 else Some w0) = Some w"
    and "NewModelX e w0 = Some w'"
  shows "Q w'"
proof -
  have w: "holds Q w" using assms(2) by (simp add: holds_def)
  note m = mining_frame.loadCurrentBlock [OF assms(1) w] mining_frame.cacheMiners [OF assms(1)] mining_frame.newBlock [OF assms(1)]
    mining_frame.cacheRewardRecipients [OF assms(1)]
  obtain w1 loaded where w1: "loadCurrentBlock e w = Some (w1, loaded)"
    using assms(3,4) by (auto simp: NewModelX_def bind_eq_Some_conv)
  have q1: "holds Q w1" using holds_SomeD(2) [OF m(1) w1] by (simp add: holds_def)
  show ?thesis
  proof (cases loaded)
    case True
    then obtain w2 where w2: "cacheMiners e w1 = Some w2" "w' = cacheRewardRecipients e w2"
      using assms(3,4) w1 by (auto simp: NewModelX_def bind_eq_Some_conv)
    then show ?thesis using m(4) [of w2] holds_SomeD(1) [OF m(2) [OF q1] w2(1)] by (simp add: holds_def)
  next
    case False
    obtain w2 r where x: "ask e hMiningInfo w1 = (w2, r)" by (metis surj_pair)
    have q2: "holds Q w2" using effects.questions(2) [OF mining_frame.axioms(1) [OF assms(1)] q1, where e = e and a = hMiningInfo]
      by (simp add: x holds_p_def holds_def)
    obtain mi where r: "r = Inr mi" using assms(3,4) w1 False x by (cases r) (auto simp: NewModelX_def)
    have "newBlock e (miBaseTarget mi) (miGenerationSignature mi) (miHeight mi) w2 = Some (w', None)"
      using assms(3,4) w1 False x by (auto simp: NewModelX_def r split: option.splits)
    from holds_SomeD(2) [OF m(3) [OF q2] this] show ?thesis .
  qed
qed

lemma NewModelX_ready:
  assumes run: "NewModelX e w = Some w'" and inv: "cache_inv (ev_cfg e) (cc w)" "miners (cc w) = []"
    and d: "loadable (FeeAccountID (ev_cfg e)) (db w)" "payout_inv (db w)" "0 \<notin> kHeight ` set (block (db w))"
  shows "ready (ev_cfg e) w'"
proof -
  obtain w1 where w1: "(if FeeAccountID (ev_cfg e) \<noteq> 0 then createFeeAccount e w else Some w) = Some w1"
    using run by (auto simp: NewModelX_def bind_eq_Some_conv)
  note d1 = createFeeAccount_db [OF w1 d(1,2)]
  have "schema (FeeAccountID (ev_cfg e)) (db w')"
    by (rule holds_after_load [where Q = "\<lambda>w. schema (FeeAccountID (ev_cfg e)) (db w)", OF _ conjunct1 [OF d1] w1 run])
      (rule consistent.mining_frame_axioms)
  moreover have "payout_inv (db w')"
    by (rule holds_after_load [where Q = "\<lambda>w. payout_inv (db w)", OF _ conjunct2 [OF d1] w1 run]) (rule payable.mining_frame_axioms)
  moreover have "list_all (\<lambda>k. kHeight k \<noteq> 0) (block (db w))" using d(3) by (auto simp: list_all_iff image_iff)
  ultimately show ?thesis
    using NewModelX_inv [OF run inv loadable_submission_keys [OF d(1)]] by (simp add: ready_def)
qed

lemma main_web_ready:
  assumes "main_web D P W e w = Some v" "config_ok (ev_cfg e)"
    and "loadable (FeeAccountID (ev_cfg e)) (db w)" "payout_inv (db w)" "0 \<notin> kHeight ` set (block (db w))"
  shows "ready (ev_cfg e) (wb_world v) \<and> v = web_start W (wb_world v)"
proof -
  obtain c w1 where x: "InitCache (pp_log P) (ev_cfg e) = Some c" "NewModelX e (w\<lparr>cc := c\<rparr>) = Some w1" "v = web_start W w1"
    using assms(1) by (auto simp: main_web_def bind_eq_Some_conv)
  have c: "cache_inv (ev_cfg e) c" "miners c = []" using InitCache_inv [OF assms(2), of "pp_log P"] x(1) by auto
  show ?thesis using NewModelX_ready [OF x(2)] c assms(3-5) by (simp add: x(3) web_start_def)
qed

section \<open>The process as a whole\<close>

lemma steady_cache: "steady cfg w w' \<Longrightarrow> cache_inv cfg (cc w')"
  by (simp add: steady_def)

lemma pool_step_ready:
  assumes "pool_step P e s s'" "ready (ev_cfg e) (ps_world s)"
  shows "ready (ev_cfg e) (ps_world s')"
proof -
  have inv: "cache_inv (ev_cfg e) (cc (ps_world s))" and d: "schema (FeeAccountID (ev_cfg e)) (db (ps_world s))"
    "payout_inv (db (ps_world s))" using assms(2) by (simp_all add: ready_def)
  from assms(1) have "cache_inv (ev_cfg e) (cc (ps_world s'))"
  proof (cases rule: pool_step.cases)
    case (poll w)
    then show ?thesis using steady_cache [OF poll_steady [OF _ inv]] by simp
  next
    case (job j w)
    then show ?thesis using steady_cache [OF run_job_steady [OF _ inv]] by simp
  next
    case (serve ri limited req w reply ns)
    then show ?thesis using steady_cache [OF conjunct1 [OF serve_steady [OF _ inv]]] by simp
  next
    case (node ri msg w err ns)
    then show ?thesis using steady_cache [OF conjunct1 [OF node_steady [OF _ inv]]] by simp
  next
    case (receive ns w st)
    from receive(3) show ?thesis using receive(1) inv StoreBest_world(1) [OF inv]
      by (cases rule: forge_receive_cases) simp_all
  next
    case (timeout t w st)
    obtain ok where "submitNonce e (fgBest (ps_forge s)) (ps_world s) = (w, ok)"
      using timeout(4) by (auto simp: forge_timeout_def) (metis surj_pair prod.collapse)
    then show ?thesis using timeout(1) inv submit_tries_ok [of e nonceSubmissionRetries "fgBest (ps_forge s)" "ps_world s" w ok]
      by (simp add: submitNonce_def)
  qed (use inv in simp)
  then show ?thesis using consistent.pool_step [OF assms(1) d(1)] payable.pool_step [OF assms(1) d(2)] by (simp add: ready_def)
qed

lemma NewPool_ready:
  assumes "NewPool P e w = Some s" "ready (ev_cfg e) w"
  shows "ready (ev_cfg e) (ps_world s)"
proof -
  obtain w' st where x: "forge_start P e (CurrentBlock (cc w)) w = Some (w', st)" "ps_world s = w'"
    using assms(1) by (auto simp: NewPool_def bind_eq_Some_conv)
  have inv: "cache_inv (ev_cfg e) (cc w)" and d: "schema (FeeAccountID (ev_cfg e)) (db w)" "payout_inv (db w)"
    using assms(2) by (simp_all add: ready_def)
  obtain w1 r where q: "GetBestNonceSubmissionOnBlock e (bHeight (CurrentBlock (cc w))) w = (w1, r)" by (metis surj_pair)
  have "cc w1 = cc w" using query_next [OF q [unfolded GetBestNonceSubmissionOnBlock_def]] by simp
  then have "cache_inv (ev_cfg e) (cc w')" using x(1) q inv StoreBest_world(1) [OF inv]
    by (cases r) (auto simp: forge_start_def Let_def split: if_splits)
  then show ?thesis using consistent.NewPool [OF d(1) assms(1)] payable.NewPool [OF d(2) assms(1)] by (simp add: ready_def x(2))
qed

lemma cache_inv_statistics: "cache_inv cfg (StoreMinerCount n (StorePoolCap x c)) \<longleftrightarrow> cache_inv cfg c"
  by (simp add: cache_inv_def cache_simps miners_wf_def announces_current_def)

lemma web_step_ready: "web_step W e s (Some t) \<Longrightarrow> ready cfg (wb_world s) \<Longrightarrow> ready cfg (wb_world t)"
  using web_step_world [of W e s t] by (auto simp: ready_def cache_inv_statistics)

definition process_ready :: "sql_driver \<Rightarrow> pool_params \<Rightarrow> web_params \<Rightarrow> env \<Rightarrow> world \<Rightarrow> process \<Rightarrow> bool" where
  "process_ready D P W e w0 s \<longleftrightarrow> ready (ev_cfg e) (ps_world (pr_pool s)) \<and> wb_world (pr_web s) = ps_world (pr_pool s) \<and>
    (\<exists>w. main_web D P W e w0 = Some (web_start W w) \<and> web_reachable W e (web_start W w) (pr_web s))"

lemma process_start_ready:
  assumes "process_start D P W e w0 s" "LoadConfig rf um c0 = Some (ev_cfg e)"
    and "loadable (FeeAccountID (ev_cfg e)) (db w0)" "payout_inv (db w0)" "0 \<notin> kHeight ` set (block (db w0))"
  shows "process_ready D P W e w0 s"
  using assms(1)
proof (cases rule: process_start.cases)
  case (main v0 v p)
  have v0: "ready (ev_cfg e) (wb_world v0)" "v0 = web_start W (wb_world v0)"
    using main_web_ready [OF main(2) LoadConfig_ok [OF assms(2)] assms(3-5)] by simp_all
  have "ready (ev_cfg e) (wb_world v) \<and> web_reachable W e v0 v" using main(3)
    by (induction rule: rtranclp_induct) (auto intro: v0(1) web_reachable.intros web_step_ready)
  then have "ready (ev_cfg e) (ps_world p)" "web_reachable W e (web_start W (wb_world v0)) (v\<lparr>wb_world := ps_world p\<rparr>)"
    using NewPool_ready [OF main(4)] web_reachable.rest v0(2) by simp_all
  moreover have "main_web D P W e w0 = Some (web_start W (wb_world v0))" using main(2) v0(2) by simp
  ultimately show ?thesis unfolding process_ready_def main(1) by auto
qed

lemma process_step_ready:
  assumes "process_step P W e s s'" "process_ready D P W e w0 s"
  shows "process_ready D P W e w0 s'"
  using assms(1)
proof (cases rule: process_step.cases)
  case (pool p)
  then show ?thesis using assms(2) pool_step_ready [OF pool(2)] by (auto simp: process_ready_def intro: web_reachable.rest)
next
  case (web v)
  then show ?thesis using assms(2) web_step_ready [OF web(2)] by (auto simp: process_ready_def intro: web_reachable.step)
qed

lemma process_run_ready: "(process_step P W e)\<^sup>*\<^sup>* s s' \<Longrightarrow> process_ready D P W e w0 s \<Longrightarrow> process_ready D P W e w0 s'"
  by (induction rule: rtranclp_induct) (auto intro: process_step_ready)

text \<open>C1.
  The process keeps its data consistent: with a configuration that loads, started on a database with consistent keys whose
  fee account has never mined, in every state that is reached, whatever the miners, nodes, browsers, wallets and
  the database do and in whichever order the goroutines run, the database is consistent (unique keys, no dangling reference, each
  account under its address, a fee account, no transaction with too many recipients), the cache satisfies its invariant, and
  the announcements of the web server only ever advance.
\<close>

theorem process_consistent:
  assumes "process_start D P W e w0 s0" "LoadConfig readFile unmarshal cfg0 = Some (ev_cfg e)"
    and "loadable (FeeAccountID (ev_cfg e)) (db w0)" "payout_inv (db w0)" "0 \<notin> kHeight ` set (block (db w0))"
    and "(process_step P W e)\<^sup>*\<^sup>* s0 s"
  shows "schema (FeeAccountID (ev_cfg e)) (db (ps_world (pr_pool s))) \<and> payout_inv (db (ps_world (pr_pool s))) \<and>
    cache_inv (ev_cfg e) (cc (ps_world (pr_pool s))) \<and> wb_world (pr_web s) = ps_world (pr_pool s) \<and>
    successively newer (wb_announced (pr_web s))"
proof -
  note r = process_run_ready [OF assms(6) process_start_ready [OF assms(1-5)], unfolded process_ready_def]
  then obtain w where "web_reachable W e (web_start W w) (pr_web s)" by blast
  from web_reachable_inv [OF this] have "successively newer (wb_announced (pr_web s))"
    by (simp add: web_inv_def announcements_ok_def successively_Cons split: if_splits)
  then show ?thesis using r by (simp add: ready_def)
qed

section \<open>The best submission of the process\<close>

text \<open>A step of the web server writes statistics only; a step of the pool is one step.\<close>

lemma web_step_pool_inv:
  assumes "web_step W e v (Some v')" "wb_world v = ps_world s" "pool_inv cfg s"
  shows "pool_inv cfg (s\<lparr>ps_world := wb_world v'\<rparr>)"
proof -
  have "cache_inv cfg (cc (ps_world s))" using assms(3) by (simp add: pool_inv_def)
  then have "cache_inv cfg (cc (wb_world v'))" using web_step_world [OF assms(1)] assms(2) by (auto simp: cache_inv_statistics)
  moreover have "advanced (cc (ps_world s)) (cc (wb_world v'))" using web_step_world [OF assms(1)] assms(2)
    by (auto simp: advanced_def cache_simps)
  ultimately have "steady cfg (ps_world s) (wb_world v')" by (simp add: steady_def)
  from pool_inv_world [OF assms(3) this, of "[]"] show ?thesis by simp
qed

lemma process_step_inv:
  assumes "process_step P W e s s'" "wb_world (pr_web s) = ps_world (pr_pool s)" "pool_inv (ev_cfg e) (pr_pool s)"
  shows "pool_inv (ev_cfg e) (pr_pool s')"
  using assms(1)
proof (cases rule: process_step.cases)
  case (pool p)
  then show ?thesis using pool_step_inv [OF pool(2) assms(3)] by simp
next
  case (web v)
  then show ?thesis using web_step_pool_inv [OF web(2) assms(2,3)] by simp
qed

lemma process_step_best:
  assumes "process_step P W e s s'" "pool_inv (ev_cfg e) (pr_pool s)" "signatures_differ (rounds_of (pr_pool s'))"
    and "signatures_differ (rounds_of (pr_pool s)) \<longrightarrow> best_of (fgBest (ps_forge (pr_pool s))) (set (ps_received (pr_pool s)))"
  shows "best_of (fgBest (ps_forge (pr_pool s'))) (set (ps_received (pr_pool s')))"
  using assms(1)
proof (cases rule: process_step.cases)
  case (pool p)
  then have d: "signatures_differ (rounds_of p)" using assms(3) by simp
  have "best_of (fgBest (ps_forge (pr_pool s))) (set (ps_received (pr_pool s)))"
    using signatures_differ_mono [OF rounds_of_step [OF pool(2)] d] assms(4) by simp
  from pool_step_best [OF pool(2) assms(2) d this] show ?thesis by (simp add: pool(1))
next
  case (web v)
  then show ?thesis using assms(3,4) by (simp add: rounds_of_def)
qed

lemma NewPool_current: "NewPool P e w = Some s \<Longrightarrow> CurrentBlock (cc (ps_world s)) = CurrentBlock (cc w)"
proof -
  assume "NewPool P e w = Some s"
  moreover obtain w1 r where q: "GetBestNonceSubmissionOnBlock e (bHeight (CurrentBlock (cc w))) w = (w1, r)" by (metis surj_pair)
  moreover have "cc w1 = cc w" using query_next [OF q [unfolded GetBestNonceSubmissionOnBlock_def]] by simp
  ultimately show ?thesis
    by (cases r) (auto simp: NewPool_def forge_start_def Let_def bind_eq_Some_conv CurrentBlock_def cache_simps split: if_splits)
qed

lemma process_run_best:
  assumes "(process_step P W e)\<^sup>*\<^sup>* s0 s" "process_ready D P W e w0 s0"
    and "pool_inv (ev_cfg e) (pr_pool s0)" "ps_received (pr_pool s0) = []"
  shows "pool_inv (ev_cfg e) (pr_pool s) \<and>
    (signatures_differ (rounds_of (pr_pool s)) \<longrightarrow> best_of (fgBest (ps_forge (pr_pool s))) (set (ps_received (pr_pool s))))"
  using assms(1)
proof (induction rule: rtranclp_induct)
  case base
  then show ?case using assms(3,4) by (simp add: best_of_def)
next
  case (step s s')
  have "wb_world (pr_web s) = ps_world (pr_pool s)"
    using process_run_ready [OF step.hyps(1) assms(2)] by (simp add: process_ready_def)
  from process_step_inv [OF step.hyps(2) this] show ?case using process_step_best [OF step.hyps(2)] step.IH by blast
qed

lemma process_start_best:
  assumes "process_start D P W e w0 s" "process_ready D P W e w0 s"
    and "bBestNonceSubmissionID (CurrentBlock (cc (ps_world (pr_pool s)))) = None"
  shows "pool_inv (ev_cfg e) (pr_pool s) \<and> ps_received (pr_pool s) = []"
  using assms(1)
proof (cases rule: process_start.cases)
  case (main v0 v p)
  have c: "CurrentBlock (cc (ps_world p)) = CurrentBlock (cc (wb_world v))" by (rule NewPool_current [OF main(4)])
  then have fresh: "bBestNonceSubmissionID (CurrentBlock (cc (wb_world v))) = None" using assms(3) main(1) by simp
  have "ps_world p = wb_world v" using main(4) fresh by (auto simp: NewPool_def forge_start_def)
  then have "cache_inv (ev_cfg e) (cc (wb_world v))" using assms(2) main(1) by (simp add: process_ready_def ready_def)
  from NewPool_inv [OF main(4) this fresh] show ?thesis by (simp add: main(1))
qed


section \<open>A process\<close>

text \<open>A database with one open block and no account yet.\<close>

definition first_world :: world where
  "first_world = sample_world\<lparr>db := sample_db\<lparr>account := [], miner := []\<rparr>\<rparr>"

definition sample_driver :: sql_driver where
  "sample_driver = \<lparr>drConnect = (\<lambda>s. None), drExec = (\<lambda>s. None), drWithInstance = None, drNewMigrate = (\<lambda>s. None),
     drVersion = (3, False, None), drForce = (\<lambda>v. None), drUp = Some ErrNoChange\<rparr>"

lemma first_world_ok:
  "loadable 7 (db first_world)" "payout_inv (db first_world)" "0 \<notin> kHeight ` set (block (db first_world))"
  by (simp_all add: first_world_def sample_world_def sample_db_def loadable_def unique_keys_def addressed_def refs_ok_iff is_miner_id_def
      payout_inv_def batches_ok_def account_ids_def tx_ids_def recipients_of_def)

lemma sample_fee: "FeeAccountID (ev_cfg sample_env) = 7"
  by (simp add: sample_env_def with_defaults_def example_config_def)

lemma sample_config: "LoadConfig (\<lambda>_. Inr []) (\<lambda>_ _. Inr example_config) example_config = Some (ev_cfg sample_env)"
  using example_config_accepted by (simp add: LoadConfig_def sample_env_def)

lemma add_blocks_current: "currentBlock (add_blocks cfg t hs c) = currentBlock c"
  by (induction hs arbitrary: c) (simp_all add: add_blocks_def AddBlock_sel)

lemma sample_process: "\<exists>s. process_start sample_driver sample_params sample_web sample_env first_world s \<and>
    bBestNonceSubmissionID (CurrentBlock (cc (ps_world (pr_pool s)))) = None \<and> rounds_of (pr_pool s) = {} \<and>
    length (account (db (ps_world (pr_pool s)))) = 1"
proof -
  let ?cfg = "ev_cfg sample_env"
  have cfg: "?cfg = with_defaults example_config" by (simp add: sample_env_def)
  have "open_databases sample_driver ?cfg True = Some None"
    by (simp add: open_databases_def initializeDatabase_def must_def sample_driver_def)
  have "config_ok ?cfg" using validateConfig_ok [OF example_config_accepted] cfg by simp
  then obtain c where c: "InitCache (pp_log sample_params) ?cfg = Some c" using InitCache_inv by blast
  have q: "query sample_env f w = (next_tick w, f (db w))" for f :: "database \<Rightarrow> sql_error + 'a" and w
    by (simp add: query_def sample_env_def)
  have nf: "\<not> ev_fault sample_env t" for t by (simp add: sample_env_def)
  let ?w0 = "first_world\<lparr>cc := c\<rparr>"
  note fee = sample_fee
  obtain address where a: "Encode 7 = Some address" using Decode_Encode by blast
  obtain d where d: "sql_insert_account 7 address None (db ?w0) = Inr d" "block d = block (db ?w0)"
    "nonce_submission d = []" "length (account d) = 1" by (simp add: sql_insert_account_def has_account_def first_world_def sample_world_def sample_db_def)
  let ?w1 = "(next_tick ?w0)\<lparr>db := d\<rparr>"
  have w1: "createFeeAccount sample_env ?w0 = Some ?w1"
    using d(1) by (simp add: createFeeAccount_def fee a mustExec_Some nf)
  have row: "sql_latest_block d = Inr (hd (block sample_db))" "scans (hd (block sample_db))" "kBest (hd (block sample_db)) = None"
    "kGenSig (hd (block sample_db)) = replicate 64 CHR ''0''"
    using d(2) by (simp_all add: sql_latest_block_def scans_def first_world_def sample_world_def sample_db_def)
  obtain w2 where w2: "loadCurrentBlock sample_env ?w1 = Some (w2, True)" "db w2 = d" "bBestNonceSubmissionID (CurrentBlock (cc w2)) = None"
    using row by (simp add: loadCurrentBlock_def q zeros_decode cache_simps CurrentBlock_def block_of_row_def)
  have "sql_slow_heights (TMin ?cfg) (NAVG ?cfg + 1) d = Inr [100000]"
    using d(2) by (simp add: sql_slow_heights_def first_world_def sample_world_def sample_db_def cfg with_defaults_def example_config_def)
  then obtain w3 where w3: "cacheMiners sample_env w2 = Some w3" "currentBlock (cc w3) = currentBlock (cc w2)" "db w3 = d"
    using w2(2) d(3) by (simp add: cacheMiners_def q Let_def sql_submissions_on_def add_blocks_current)
  let ?w4 = "cacheRewardRecipients sample_env w3"
  have d4: "db ?w4 = d" using w3(3) by (simp add: cacheRewardRecipients_sel)
  have "NewModelX sample_env ?w0 = Some ?w4" using w1 w2(1) w3(1) by (simp add: NewModelX_def fee)
  then have "main_web sample_driver sample_params sample_web sample_env first_world = Some (web_start sample_web ?w4)" by (simp add: main_web_def c \<open>open_databases sample_driver ?cfg True = Some None\<close>)
  moreover obtain p where "NewPool sample_params sample_env (wb_world (web_start sample_web ?w4)) = Some p"
    "bBestNonceSubmissionID (CurrentBlock (cc (ps_world p))) = None" "rounds_of p = {}" "length (account (db (ps_world p))) = 1"
    using w2(3) w3(2) d(4) d4 by (simp add: NewPool_def forge_start_def web_start_def CurrentBlock_def cacheRewardRecipients_sel rounds_of_def)
  ultimately show ?thesis using process_start.main [of sample_driver sample_params sample_web sample_env first_world] by fastforce
qed

theorem process_consistent_witness:
  "\<exists>s. process_start sample_driver sample_params sample_web sample_env first_world s \<and> schema 7 (db (ps_world (pr_pool s))) \<and>
     has_account 7 (db (ps_world (pr_pool s)))"
proof -
  obtain s where s: "process_start sample_driver sample_params sample_web sample_env first_world s" using sample_process by blast
  from process_consistent [OF s sample_config _ _ _ rtranclp.rtrancl_refl] show ?thesis using s first_world_ok
    by (intro exI [of _ s]) (simp add: sample_fee schema_def keys_ok_def)
qed

text \<open>A request that comes in right after the start works with the current round.\<close>

lemma sample_arrival:
  obtains s s' where "process_start sample_driver sample_params sample_web sample_env first_world s"
    "bBestNonceSubmissionID (CurrentBlock (cc (ps_world (pr_pool s)))) = None" "process_step sample_params sample_web sample_env s s'"
    "rounds_of (pr_pool s') = {round_of_info (GetRoundInfo (cc (ps_world (pr_pool s))))}" "ps_received (pr_pool s') = []"
    "length (account (db (ps_world (pr_pool s)))) = 1"
proof -
  obtain s where s: "process_start sample_driver sample_params sample_web sample_env first_world s"
    "bBestNonceSubmissionID (CurrentBlock (cc (ps_world (pr_pool s)))) = None" "rounds_of (pr_pool s) = {}"
    "length (account (db (ps_world (pr_pool s)))) = 1"
    using sample_process by blast
  define p where "p = (pr_pool s)\<lparr>ps_rounds := ps_rounds (pr_pool s) @ [GetRoundInfo (cc (ps_world (pr_pool s)))]\<rparr>"
  define s' where "s' = \<lparr>pr_pool = p, pr_web = (pr_web s)\<lparr>wb_world := ps_world p\<rparr>\<rparr>"
  have "process_step sample_params sample_web sample_env s s'"
    using process_step.pool [OF pool_step.arrive [of sample_params sample_env "pr_pool s"]] by (simp add: p_def s'_def)
  moreover have "rounds_of (pr_pool s') = {round_of_info (GetRoundInfo (cc (ps_world (pr_pool s))))}" "ps_received (pr_pool s') = []"
    using s(3) by (auto simp: s'_def p_def rounds_of_def)
  ultimately show ?thesis using that s(1,2,4) by blast
qed


end
