(* ===== verification/Settings.thy ===== *)
theory Settings
  imports PayoutProofs
begin

text \<open>
  Correctness of the payout settings that miners send as messages: a change is charged to the account
  it concerns and credited to the fee account, or it has no effect.
\<close>

section \<open>One setting\<close>

lemma upd_where_rows:
  assumes "\<And>a. aID (f a) = aID a \<and> aPending (f a) = aPending a + x"
  shows "\<forall>a' \<in> set (upd_where (\<lambda>a. aID a = i) f as). \<exists>a \<in> set as. aID a' = aID a \<and>
    aPending a' = (if aID a = i then aPending a + x else aPending a)"
proof
  fix a' assume "a' \<in> set (upd_where (\<lambda>a. aID a = i) f as)"
  then obtain a where "a \<in> set as" "a' = (if aID a = i then f a else a)" by (auto simp: upd_where_def)
  then show "\<exists>a \<in> set as. aID a' = aID a \<and> aPending a' = (if aID a = i then aPending a + x else aPending a)"
    using assms by (intro bexI [of _ a]) simp_all
qed

lemma sql_set_min_payout_ok:
  assumes "sql_set_min_payout v iv t cost i d = Inr d'"
  shows "account_ids d' = account_ids d"
    "distinct (account_ids d) \<Longrightarrow> i \<in> set (account_ids d) \<Longrightarrow> total_pending d' = total_pending d - cost"
    "\<forall>a' \<in> set (account d'). \<exists>a \<in> set (account d). aID a' = aID a \<and>
       aPending a' = (if aID a = i then aPending a - cost else aPending a)"
    "d' = d\<lparr>account := account d'\<rparr>"
proof -
  let ?f = "\<lambda>a. a\<lparr>aMinPayout := v, aInterval := iv, aNextDate := map_option to_datetime t, aPending := aPending a - cost\<rparr>"
  have d': "d' = d\<lparr>account := upd_where (\<lambda>a. aID a = i) ?f (account d)\<rparr>"
    using assms by (auto simp: sql_set_min_payout_def split: if_splits)
  show "account_ids d' = account_ids d" by (simp add: d' account_ids_def upd_where_ids)
  show "distinct (account_ids d) \<Longrightarrow> i \<in> set (account_ids d) \<Longrightarrow> total_pending d' = total_pending d - cost"
    using upd_where_sum [of "account d" i ?f "- cost"] by (simp add: d' account_ids_def total_pending_def)
  show "\<forall>a' \<in> set (account d'). \<exists>a \<in> set (account d). aID a' = aID a \<and>
      aPending a' = (if aID a = i then aPending a - cost else aPending a)"
  proof -
    have f: "\<And>a. aID (?f a) = aID a \<and> aPending (?f a) = aPending a + - cost" by simp
    have "account d' = upd_where (\<lambda>a. aID a = i) ?f (account d)" by (simp add: d')
    then show ?thesis using upd_where_rows [OF f, of i "account d"] unfolding add_uminus_conv_diff by simp
  qed
  show "d' = d\<lparr>account := account d'\<rparr>" by (simp add: d')
qed

lemma sql_add_pending_rows:
  assumes "sql_add_pending x i d = Inr d'"
  shows "\<forall>a' \<in> set (account d'). \<exists>a \<in> set (account d). aID a' = aID a \<and>
      aPending a' = (if aID a = i then aPending a + x else aPending a)"
    "d' = d\<lparr>account := account d'\<rparr>"
  using assms upd_where_rows [of "\<lambda>a. a\<lparr>aPending := aPending a + x\<rparr>" x i "account d"]
  by (auto simp: sql_add_pending_def split: if_splits)

text \<open>What one request may do to the database.\<close>

definition charged :: "env \<Rightarrow> uint64 \<Rightarrow> payout_setting \<Rightarrow> database \<Rightarrow> database \<Rightarrow> bool" where
  "charged e i s d d' \<longleftrightarrow> (\<exists>d1. sql_enough i (psCost s) d = Inr True \<and>
     sql_set_min_payout (psMinPayoutValue s) (psPayoutInterval s) (psNextPayoutDate s) (psCost s) i d = Inr d1 \<and>
     sql_add_pending (psCost s) (FeeAccountID (ev_cfg e)) d1 = Inr d')"

lemma apply_setting_cases: "db (apply_setting e i s w) = db w \<or> charged e i s (db w) (db (apply_setting e i s w))"
proof -
  let ?set = "sql_set_min_payout (psMinPayoutValue s) (psPayoutInterval s) (psNextPayoutDate s) (psCost s) i"
  let ?fee = "sql_add_pending (psCost s) (FeeAccountID (ev_cfg e))"
  obtain w1 r1 where x1: "begin_tx e w = (w1, r1)" by (metis surj_pair)
  obtain w2 r2 where x2: "query e (sql_enough i (psCost s)) w1 = (w2, r2)" by (metis surj_pair)
  obtain w3 r3 where x3: "exec e ?set w2 = (w3, r3)" by (metis surj_pair)
  obtain w4 r4 where x4: "exec e ?fee w3 = (w4, r4)" by (metis surj_pair)
  obtain w5 r5 where x5: "commit e (db w) w4 = (w5, r5)" by (metis surj_pair)
  have d12: "db w1 = db w" "db w2 = db w"
    using begin_tx_next [OF x1] query_next [OF x2] by simp_all
  let ?w6 = "case GetMiner i (cc w5) of Some p \<Rightarrow> upd_cache (map_miner p (cached_setting e s)) w5 | None \<Rightarrow> w5"
  have eq: "apply_setting e i s w = (case r1 of Some err \<Rightarrow> w1 | None \<Rightarrow>
      (case r2 of Inl err \<Rightarrow> rollback (db w) w2 | Inr enough \<Rightarrow> if \<not> enough then rollback (db w) w2 else
        (case r3 of Some err \<Rightarrow> rollback (db w) w3 | None \<Rightarrow>
          (case r4 of Some err \<Rightarrow> rollback (db w) w4 | None \<Rightarrow> ?w6))))"
    by (simp only: apply_setting_def Let_def x1 x2 x3 x4 x5 prod.case fst_conv)
  have w6: "db ?w6 = db w5" by (simp split: option.splits)
  show ?thesis
  proof (cases "r1 = None \<and> r2 = Inr True \<and> r3 = None \<and> r4 = None \<and> r5 = None")
    case True
    then have "charged e i s (db w) (db w5)"
      using x2 x3 x4 x5 d12 query_Inr [of e _ w1 w2 True]
      by (auto simp: charged_def elim!: exec_cases commit_cases)
    then show ?thesis using True w6 by (simp add: eq)
  next
    case False
    then have "r5 \<noteq> None \<Longrightarrow> db w5 = db w" using x5 by (auto elim: commit_cases)
    then show ?thesis using False w6 d12
      unfolding eq by (cases r1; cases r2; cases r3; cases r4) auto
  qed
qed

text \<open>Whatever the fee is, what one account loses the other gains.\<close>

lemma charged_total:
  assumes "charged e i s d d'" "distinct (account_ids d)" "FeeAccountID (ev_cfg e) \<in> set (account_ids d)"
  shows "total_pending d' = total_pending d \<and> account_ids d' = account_ids d \<and> d' = d\<lparr>account := account d'\<rparr>"
proof -
  let ?fee = "FeeAccountID (ev_cfg e)"
  obtain d1 where d1: "sql_enough i (psCost s) d = Inr True"
    "sql_set_min_payout (psMinPayoutValue s) (psPayoutInterval s) (psNextPayoutDate s) (psCost s) i d = Inr d1"
    "sql_add_pending (psCost s) ?fee d1 = Inr d'" using assms(1) by (auto simp: charged_def)
  note S = sql_set_min_payout_ok [OF d1(2)] and A = sql_add_pending_ok [OF d1(3)] sql_add_pending_rows [OF d1(3)]
  have i: "i \<in> set (account_ids d)" using d1(1) by (force simp: account_ids_def sql_enough_def split: if_splits)
  have "d' = d\<lparr>account := account d'\<rparr>" using S(4) A(9) by (metis database.update_convs(1) database.surjective)
  then show ?thesis using S A assms(2,3) i by simp
qed

lemma charged_ok:
  assumes "charged e i s d d'" "distinct (account_ids d)" "FeeAccountID (ev_cfg e) \<in> set (account_ids d)"
    and "0 \<le> psCost s" "\<forall>a \<in> set (account d). 0 \<le> aPending a"
  shows "total_pending d' = total_pending d \<and> account_ids d' = account_ids d \<and> d' = d\<lparr>account := account d'\<rparr> \<and>
    (\<forall>a \<in> set (account d'). 0 \<le> aPending a)"
proof -
  let ?fee = "FeeAccountID (ev_cfg e)"
  obtain d1 where d1: "sql_enough i (psCost s) d = Inr True"
    "sql_set_min_payout (psMinPayoutValue s) (psPayoutInterval s) (psNextPayoutDate s) (psCost s) i d = Inr d1"
    "sql_add_pending (psCost s) ?fee d1 = Inr d'" using assms(1) by (auto simp: charged_def)
  note S = sql_set_min_payout_ok [OF d1(2)] and A = sql_add_pending_ok [OF d1(3)] sql_add_pending_rows [OF d1(3)]
  obtain a where a: "a \<in> set (account d)" "aID a = i" "psCost s \<le> aPending a"
    using d1(1) by (auto simp: sql_enough_def split: if_splits)
  have unique: "b = a" if "b \<in> set (account d)" "aID b = i" for b
    using assms(2) a that by (auto simp: account_ids_def distinct_map inj_on_def)
  have "0 \<le> aPending b" if "b \<in> set (account d1)" for b
    using S(3) that assms(4,5) a unique by (metis diff_ge_0_iff_ge)
  then have "0 \<le> aPending b" if "b \<in> set (account d')" for b
    using A(8) that assms(4) by (metis add_nonneg_nonneg)
  then show ?thesis using charged_total [OF assms(1-3)] by simp
qed

section \<open>All messages\<close>

lemma interval_setting_ok:
  assumes "interval_setting e i msg t cost w = (w', r)"
  shows "db w' = db w" "r = Some s \<Longrightarrow> psCost s = cost"
  using assms by (auto simp: interval_setting_def dest!: query_next split: prod.splits sum.splits bool.splits)

definition fees_nonneg :: "Config \<Rightarrow> bool" where
  "fees_nonneg cfg \<longleftrightarrow> 0 \<le> SetWeeklyFee cfg \<and> 0 \<le> SetDailyFee cfg \<and> 0 \<le> SetNowFee cfg \<and> 0 \<le> SetMinPayoutFee cfg"

lemma payout_request_ok:
  assumes "payout_request e i msg w = (w', r)"
  shows "db w' = db w" "r = Some s \<Longrightarrow> fees_nonneg (ev_cfg e) \<Longrightarrow> 0 \<le> psCost s"
proof -
  have "db w' = db w \<and> (\<forall>s. r = Some s \<longrightarrow> fees_nonneg (ev_cfg e) \<longrightarrow> 0 \<le> psCost s)"
  proof (cases "msg = ''weekly'' \<or> msg = ''daily'' \<or> msg = ''now''")
    case True
    then show ?thesis
      using assms interval_setting_ok [of e i msg]
      by (auto simp: payout_request_def Let_def fees_nonneg_def split: if_splits)
  next
    case False
    then show ?thesis
      using assms
      by (auto simp: payout_request_def Let_def fees_nonneg_def dest!: query_next
          split: option.splits if_splits prod.splits sum.splits bool.splits)
  qed
  then show "db w' = db w" "r = Some s \<Longrightarrow> fees_nonneg (ev_cfg e) \<Longrightarrow> 0 \<le> psCost s" by blast+
qed

text \<open>What every charged setting keeps, all of them keep.\<close>

lemma SetMinPayout_keeps:
  assumes "P (db w)" "\<And>i s d d'. P d \<Longrightarrow> charged e i s d d' \<Longrightarrow> (fees_nonneg (ev_cfg e) \<Longrightarrow> 0 \<le> psCost s) \<Longrightarrow> P d'"
  shows "P (db (SetMinPayout e msgOf w))"
  using assms(1)
proof (induction msgOf arbitrary: w)
  case (Cons m msgOf)
  obtain i msg where m: "m = (i, msg)" by (metis surj_pair)
  obtain w1 r where x: "payout_request e i msg w = (w1, r)" by (metis surj_pair)
  note R = payout_request_ok [OF x]
  show ?case
  proof (cases r)
    case None
    then show ?thesis using Cons R(1) m x by simp
  next
    case (Some s)
    have "P (db (apply_setting e i s w1))"
      using apply_setting_cases [of e i s w1] assms(2) [of "db w1" i s] R(1) R(2) [OF Some] Cons.prems by metis
    then show ?thesis using Cons.IH m x Some by simp
  qed
qed simp

definition moved :: "database \<Rightarrow> database \<Rightarrow> bool" where
  "moved d d' \<longleftrightarrow> total_pending d' = total_pending d \<and> account_ids d' = account_ids d \<and> d' = d\<lparr>account := account d'\<rparr>"

lemma moved_trans: "moved d d1 \<Longrightarrow> moved d1 d2 \<Longrightarrow> moved d d2"
  unfolding moved_def by (metis database.surjective database.update_convs(1))

lemma SetMinPayout_moved:
  assumes "distinct (account_ids (db w))" "FeeAccountID (ev_cfg e) \<in> set (account_ids (db w))"
  shows "moved (db w) (db (SetMinPayout e msgOf w))"
proof (rule SetMinPayout_keeps)
  fix i s d d' assume d: "moved (db w) d" "charged e i s d d'"
  then show "moved (db w) d'" using moved_trans [OF d(1)] charged_total [OF d(2)] assms by (simp add: moved_def)
qed (simp add: moved_def)

text \<open>C18.
  Payout settings move money, they do not make it: whatever the messages say and whichever statement
  fails, the sum of all pending amounts stays the same, nobody's pending amount becomes negative,
  and no table but that of the accounts is touched.
\<close>

theorem SetMinPayout_conserves:
  assumes "distinct (account_ids (db w))" and "FeeAccountID (ev_cfg e) \<in> set (account_ids (db w))"
    and "fees_nonneg (ev_cfg e)" and "\<forall>a \<in> set (account (db w)). 0 \<le> aPending a"
  shows "total_pending (db (SetMinPayout e msgOf w)) = total_pending (db w) \<and>
    account_ids (db (SetMinPayout e msgOf w)) = account_ids (db w) \<and>
    db (SetMinPayout e msgOf w) = (db w)\<lparr>account := account (db (SetMinPayout e msgOf w))\<rparr> \<and>
    (\<forall>a \<in> set (account (db (SetMinPayout e msgOf w))). 0 \<le> aPending a)"
proof -
  let ?d = "db (SetMinPayout e msgOf w)"
  have "moved (db w) ?d \<and> (\<forall>a \<in> set (account ?d). 0 \<le> aPending a)"
  proof (rule SetMinPayout_keeps)
    fix i s d d'
    assume d: "moved (db w) d \<and> (\<forall>a \<in> set (account d). 0 \<le> aPending a)" "charged e i s d d'"
      and "fees_nonneg (ev_cfg e) \<Longrightarrow> 0 \<le> psCost s"
    then show "moved (db w) d' \<and> (\<forall>a \<in> set (account d'). 0 \<le> aPending a)"
      using charged_ok [OF d(2)] moved_trans [of "db w" d d'] assms(1-3) by (simp add: moved_def)
  qed (simp add: moved_def assms(4))
  then show ?thesis by (simp add: moved_def)
qed

theorem SetMinPayout_conserves_witness:
  "total_pending (db (SetMinPayout sample_env [(77, ''weekly''), (77, ''250.5''), (5, ''100'')] sample_world)) = 30000000000"
proof -
  have "distinct (account_ids (db sample_world))" "FeeAccountID (ev_cfg sample_env) \<in> set (account_ids (db sample_world))"
    "fees_nonneg (ev_cfg sample_env)" "\<forall>a \<in> set (account (db sample_world)). 0 \<le> aPending a"
    "total_pending (db sample_world) = 30000000000"
    by (simp_all add: sample_world_def sample_db_def account_ids_def total_pending_def fees_nonneg_def
        sample_env_def with_defaults_def example_config_def)
  with SetMinPayout_conserves [of sample_world sample_env] show ?thesis by (simp del: SetMinPayout.simps)
qed

section \<open>What the messages can ask for\<close>

text \<open>A negative minimum is accepted; the account is then paid out as soon as it has the fee.\<close>

lemma negative_minimum_accepted: "parse_min_payout e ''-100'' = Some (- 100)"
proof -
  have "FormatInt (- 100) = ''-100''"
    by (simp add: FormatInt_def FormatUint_def digits10.simps digit_char_def char_of_def bit_0)
  then have "ParseInt ''-100'' = Inr (- 100)" using ParseInt_FormatInt [of "- 100"] by (simp add: is_i64_def)
  then show ?thesis by (simp add: parse_min_payout_def)
qed

text \<open>
  The message \<^verbatim>\<open>now\<close> has an effect only once: it is taken for a repetition as long as the account's
  interval is \<^verbatim>\<open>now\<close>, and paying the account resets its date but not its interval.
\<close>

lemma now_only_once:
  assumes "a \<in> set (account (db w))" "aID a = i" "aInterval a = Some ''now''" "\<not> ev_fault e (tick w)"
  shows "db (SetMinPayout e [(i, ''now'')] w) = db w"
proof -
  have "sql_has_interval i ''now'' (db w)" using assms(1-3) by (auto simp: sql_has_interval_def)
  then have "payout_request e i ''now'' w = (next_tick w, None)"
    using assms(4) by (simp add: payout_request_def interval_setting_def query_def)
  then show ?thesis by simp
qed

end
