(* ===== verification/RewardsProofs.thy ===== *)
theory RewardsProofs
  imports Rewards Sending Settings
begin

text \<open>
  Correctness of the rewards: the division of a block reward is exact, what the miners receive is
  close to their shares, a block is rewarded completely or not at all, and cleaning the database
  neither creates nor destroys pending amounts.
\<close>

section \<open>Dividing a reward\<close>

definition reward_of :: "GetBlockReply \<Rightarrow> int" where
  "reward_of b = gbBlockReward b * 100000000 + gbTotalFeeNQT b"

lemma split_parts:
  assumes "0 \<le> gbBlockReward b" "0 \<le> gbTotalFeeNQT b" "reward_of b < 2 ^ 52"
    and "PoolFeeShare cfg = F p" "0 \<le> p" "p \<le> 1" "WinnerShare cfg = F s" "0 \<le> s" "s \<le> 1"
  shows "spTotal (split_reward cfg b) = reward_of b"
    "spPoolFee (split_reward cfg b) + spWinner (split_reward cfg b) + spRest (split_reward cfg b) = reward_of b"
    "0 \<le> spPoolFee (split_reward cfg b)" "0 \<le> spWinner (split_reward cfg b)" "0 \<le> spRest (split_reward cfg b)"
    "FeeAccountID cfg = 0 \<Longrightarrow> spPoolFee (split_reward cfg b) = 0"
proof -
  let ?T = "reward_of b" and ?r = "gbBlockReward b * 100000000"
  have r: "0 \<le> ?r" "?r \<le> ?T" "0 \<le> ?T" using assms(1,2) by (simp_all add: reward_of_def)
  then have "is_i64 ?r" "is_i64 ?T" using assms(3) by (simp_all add: is_i64_def)
  then have T: "i64 (i64 ?r + gbTotalFeeNQT b) = ?T" by (simp add: reward_of_def)
  define fee where "fee = (if FeeAccountID cfg \<noteq> 0 then round_planck (fmul (f_of_int ?T) (PoolFeeShare cfg)) else 0)"
  have f: "0 \<le> fee" "fee \<le> ?T"
    using round_share [OF assms(5,6) r(3) assms(3)] assms(4) r(3) by (simp_all add: fee_def)
  then have i1: "i64 (?T - fee) = ?T - fee" using assms(3) r(3) by (intro i64_id) (simp add: is_i64_def)
  define win where "win = round_planck (fmul (f_of_int (?T - fee)) (WinnerShare cfg))"
  have w: "0 \<le> win" "win \<le> ?T - fee"
    using round_share [OF assms(8,9), of "?T - fee"] f assms(3,7) by (simp_all add: win_def)
  then have i2: "i64 (?T - fee - win) = ?T - fee - win"
    using f assms(3) r(3) by (intro i64_id) (simp add: is_i64_def)
  have "split_reward cfg b = \<lparr>spTotal = ?T, spPoolFee = fee, spWinner = win, spRest = ?T - fee - win\<rparr>"
    unfolding split_reward_def Let_def T fee_def [symmetric] i1 win_def [symmetric] i2 ..
  then show "spTotal (split_reward cfg b) = reward_of b"
    "spPoolFee (split_reward cfg b) + spWinner (split_reward cfg b) + spRest (split_reward cfg b) = reward_of b"
    "0 \<le> spPoolFee (split_reward cfg b)" "0 \<le> spWinner (split_reward cfg b)" "0 \<le> spRest (split_reward cfg b)"
    "FeeAccountID cfg = 0 \<Longrightarrow> spPoolFee (split_reward cfg b) = 0"
    using f w by (simp_all add: fee_def)
qed

section \<open>How close the amounts are to the shares\<close>

lemma rnd_error:
  assumes "0 \<le> x" "x < 2 ^ 52"
  shows "\<bar>rnd x - x\<bar> \<le> 1/4"
proof (cases "x = 0")
  case False
  then have x: "0 < x" using assms by simp
  let ?u = "2 powi ulp_exp x :: rat"
  have "ilog2 x < 52"
  proof (rule ccontr)
    assume "\<not> ilog2 x < 52"
    then have "(2 :: rat) powi 52 \<le> 2 powi ilog2 x" by (intro power_int_increasing) simp_all
    then show False using ilog2_bounds [OF x] assms(2) by simp
  qed
  then have "ulp_exp x \<le> - 1" using x by (simp add: ulp_exp_def)
  then have u: "?u \<le> 1/2" "0 < ?u"
    using power_int_increasing [of "ulp_exp x" "- 1" "2 :: rat"] by (simp_all add: power_int_minus)
  have "\<bar>of_int (rne (x / ?u)) - x / ?u\<bar> \<le> 1/2" by (rule rne_error)
  then have "\<bar>of_int (rne (x / ?u)) - x / ?u\<bar> * ?u \<le> 1/2 * (1/2)"
    using u by (intro mult_mono) simp_all
  moreover have "rnd x - x = (of_int (rne (x / ?u)) - x / ?u) * ?u"
    using u(2) False by (simp add: rnd_def Let_def left_diff_distrib)
  then have "\<bar>rnd x - x\<bar> = \<bar>of_int (rne (x / ?u)) - x / ?u\<bar> * ?u" using u(2) by (simp add: abs_mult)
  ultimately show ?thesis by simp
qed (simp add: rnd_def)

text \<open>A rounded share is at most one planck away from the exact share.\<close>

lemma round_close:
  assumes "0 \<le> s" "s \<le> 1" "0 \<le> n" "n < 2 ^ 51"
  shows "\<bar>of_int (round_planck (fmul (F s) (f_of_int n))) - s * of_int n\<bar> \<le> 1"
proof -
  let ?x = "s * of_int n"
  have n: "(of_int n :: rat) < of_int (2 ^ 51)" using assms(4) by (subst of_int_less_iff)
  have x: "0 \<le> ?x" "?x \<le> of_int n" using assms by (auto intro: mult_left_le_one_le)
  have x51: "?x < 2 ^ 51" using x(2) n by simp
  have "\<bar>?x\<bar> \<le> 2 ^ 64" using x x51 by simp
  then have m: "fmul (F s) (f_of_int n) = F (rnd ?x)"
    using assms by (simp add: fl_rnd)
  let ?y = "rnd ?x"
  have e1: "\<bar>?y - ?x\<bar> \<le> 1/4" using rnd_error x x51 by simp
  have y0: "0 \<le> ?y" using x(1) by (rule rnd_nonneg)
  show ?thesis
  proof (cases "?y < 1/2")
    case True
    then have "round_planck (F ?y) = 0" using y0 by (simp add: round_planck_def)
    moreover have "?x \<le> 1" using True e1 by linarith
    ultimately show ?thesis using x(1) by (simp add: m)
  next
    case False
    have "?y \<le> ?x + 1/4" using e1 by linarith
    moreover have p: "(2 :: rat) ^ 51 + 1 < 2 ^ 52" by simp
    ultimately have y: "0 \<le> ?y + 1/2" "?y + 1/2 < 2 ^ 52" using y0 x51 by linarith+
    then have f: "fl (?y + 1/2) = F (rnd (?y + 1/2))" by (intro fl_rnd) simp
    have e2: "\<bar>rnd (?y + 1/2) - (?y + 1/2)\<bar> \<le> 1/4" using y by (rule rnd_error)
    let ?z = "rnd (?y + 1/2)"
    have "?z \<le> ?x + 1" using e1 e2 by linarith
    with p have z: "0 \<le> ?z" "?z \<le> 2 ^ 52"
      using rnd_nonneg [OF y(1)] x51 by linarith+
    then have "0 \<le> \<lfloor>?z\<rfloor>" "\<lfloor>?z\<rfloor> \<le> 2 ^ 52" by (simp_all add: floor_le_iff)
    then have "f_to_int 64 (F ?z) = \<lfloor>?z\<rfloor>" using z by (simp add: f_to_int_def Let_def trunc_rat_def)
    then have "round_planck (F ?y) = \<lfloor>?z\<rfloor>" using False y0 f by (simp add: round_planck_def)
    moreover have "of_int \<lfloor>?z\<rfloor> \<le> ?z" "?z < of_int \<lfloor>?z\<rfloor> + 1" by linarith+
    ultimately show ?thesis using e1 e2 unfolding m by linarith
  qed
qed

section \<open>The amounts of a block\<close>

definition planck_of :: "uint64 \<Rightarrow> split \<Rightarrow> uint64 \<times> float64 \<Rightarrow> int64" where
  "planck_of generator sp q = (let x = round_planck (fmul (snd q) (f_of_int (spRest sp))) in
     if fst q = generator then i64 (x + spWinner sp) else x)"

lemma planck_shares_map:
  assumes "distinct (map fst shareOf)" "fst ` set shareOf \<inter> fst ` set acc = {}"
  shows "planck_shares g sp shareOf acc = acc @ map (\<lambda>q. (fst q, planck_of g sp q)) shareOf"
  using assms
proof (induction shareOf arbitrary: acc)
  case (Cons q shareOf)
  obtain i x where q: "q = (i, x)" by (metis surj_pair)
  have "AList.update i (planck_of g sp q) acc = acc @ [(i, planck_of g sp q)]"
  proof -
    have "i \<notin> fst ` set acc" using Cons.prems(2) q by simp
    then show ?thesis by (intro update_new) (simp add: map_of_eq_None_iff)
  qed
  then show ?case
    using Cons.IH [of "acc @ [(i, planck_of g sp q)]"] Cons.prems q
    by (simp add: planck_of_def Let_def)
qed simp

text \<open>The share of an account as a number; shares that are not finite do not count.\<close>

definition share_value :: "float64 \<Rightarrow> rat" where
  "share_value x = (case x of F y \<Rightarrow> y | _ \<Rightarrow> 0)"

definition unit_shares :: "(uint64 \<times> float64) list \<Rightarrow> bool" where
  "unit_shares shareOf \<longleftrightarrow> distinct (map fst shareOf) \<and>
     (\<forall>q \<in> set shareOf. \<exists>y. snd q = F y \<and> 0 \<le> y \<and> y \<le> 1)"

lemma is_i64_small_sum: "0 \<le> a \<Longrightarrow> a \<le> b \<Longrightarrow> b < 2 ^ 51 \<Longrightarrow> 0 \<le> c \<Longrightarrow> c < 2 ^ 52 \<Longrightarrow> is_i64 (a + c)"
  by (simp add: is_i64_def)

lemma planck_of_close:
  assumes "snd q = F y" "0 \<le> y" "y \<le> 1" "0 \<le> spRest sp" "spRest sp < 2 ^ 51" "0 \<le> spWinner sp" "spWinner sp < 2 ^ 52"
  shows "\<bar>of_int (planck_of g sp q) - (share_value (snd q) * of_int (spRest sp) +
    (if fst q = g then of_int (spWinner sp) else 0))\<bar> \<le> 1"
proof -
  let ?x = "round_planck (fmul (F y) (f_of_int (spRest sp)))"
  have "spRest sp < 2 ^ 52" using assms(5) by simp
  then have "0 \<le> ?x" "?x \<le> spRest sp"
    unfolding fmul_commute [of "F y"] using round_share [OF assms(2,3,4)] by blast+
  then have "is_i64 (?x + spWinner sp)" using assms(5-7) by (intro is_i64_small_sum)
  then have "planck_of g sp q = ?x + (if fst q = g then spWinner sp else 0)"
    using assms(1) by (simp add: planck_of_def)
  then show ?thesis using round_close [OF assms(2-5)] assms(1) by (simp add: share_value_def)
qed

lemma sum_close:
  assumes "\<And>q. q \<in> set qs \<Longrightarrow> \<bar>of_int (f q) - g q\<bar> \<le> (1 :: rat)"
  shows "\<bar>of_int (sum_list (map f qs)) - sum_list (map g qs)\<bar> \<le> of_nat (length qs)"
  using assms
proof (induction qs)
  case (Cons q qs)
  have "\<bar>of_int (f q) - g q\<bar> \<le> (1 :: rat)"
    "\<bar>of_int (sum_list (map f qs)) - sum_list (map g qs)\<bar> \<le> (of_nat (length qs) :: rat)"
    using Cons by simp_all
  then show ?case by simp
qed simp

lemma winner_term: "distinct (map fst qs) \<Longrightarrow>
    sum_list (map (\<lambda>q. if fst q = g then c else 0) qs) = (if g \<in> fst ` set qs then c else (0 :: rat))"
  by (induction qs) auto


section \<open>Shares\<close>

lemma representable_rnd: "representable (rnd x)"
proof (cases "x = 0")
  case True
  then show ?thesis by (simp add: rnd_def)
next
  case False
  let ?u = "ulp_exp x"
  have "\<bar>x\<bar> < 2 powi (ilog2 \<bar>x\<bar> + 1)" using ilog2_bounds [of "\<bar>x\<bar>"] False by simp
  also have "\<dots> \<le> 2 powi (?u + 53)" by (intro power_int_increasing) (simp_all add: ulp_exp_def)
  also have "\<dots> = 2 ^ 53 * (2 powi ?u :: rat)" by (simp add: power_int_add)
  finally have b: "\<bar>x / 2 powi ?u\<bar> \<le> of_int (2 ^ 53)" by (simp add: abs_divide divide_le_eq)
  then have "x / 2 powi ?u \<le> of_int (2 ^ 53)" "of_int (- (2 ^ 53)) \<le> x / 2 powi ?u"
    unfolding abs_le_iff by simp_all
  from this [THEN rne_mono, unfolded rne_of_int]
  have "rne (x / 2 powi ?u) \<le> 2 ^ 53" "- (2 ^ 53) \<le> rne (x / 2 powi ?u)" .
  then have "\<bar>rne (x / 2 powi ?u)\<bar> \<le> 2 ^ 53" by (simp add: abs_le_iff)
  moreover have "rnd x = of_int (rne (x / 2 powi ?u)) * 2 powi ?u" "- 1074 \<le> ?u"
    using False by (simp_all add: rnd_def Let_def ulp_exp_def)
  ultimately show ?thesis unfolding representable_def by blast
qed

text \<open>A running sum of non-negative numbers does not fall.\<close>

lemma fadd_grows:
  assumes "representable a" "0 \<le> b" "a + b \<le> 2 ^ 62" "0 \<le> a"
  shows "fadd (F a) (F b) = F (rnd (a + b)) \<and> representable (rnd (a + b)) \<and> a \<le> rnd (a + b)"
proof -
  have "rnd a \<le> rnd (a + b)" using assms(2) by (intro rnd_mono) simp
  then show ?thesis using assms by (simp add: fl_rnd representable_rnd rnd_representable)
qed

lemma sum_at_least:
  assumes "representable a" "representable b" "0 \<le> a" "0 \<le> b"
  shows "b \<le> rnd (a + b)"
  using rnd_mono [of b "a + b"] assms by (simp add: rnd_representable)

text \<open>What is used of the capacities: they are numbers of moderate size and not negative.\<close>

definition modest :: "float64 \<Rightarrow> bool" where
  "modest x \<longleftrightarrow> (\<exists>y. x = F y \<and> 0 \<le> y \<and> y \<le> 2 ^ 40 \<and> representable y)"

definition eeps_args_ok :: "float64 list \<Rightarrow> (uint64 \<times> float64 \<times> nat) list \<Rightarrow> bool" where
  "eeps_args_ok al args \<longleftrightarrow> length args < 2 ^ 20 \<and> (\<forall>(i, wd, n) \<in> set args. modest (eeps al n wd))"

definition only_capacities :: "world \<Rightarrow> world \<Rightarrow> bool" where
  "only_capacities w w' \<longleftrightarrow> cc w' = cc w \<and> payments w' = payments w \<and> db w' = (db w)\<lparr>miner := miner (db w')\<rparr>"

lemma only_capacities_refl: "only_capacities w w"
  by (simp add: only_capacities_def)

lemma only_capacities_trans: "only_capacities w w' \<Longrightarrow> only_capacities w' w'' \<Longrightarrow> only_capacities w w''"
  unfolding only_capacities_def by (metis database.surjective database.update_convs(4))

lemma set_capacity_only:
  assumes "mustExec e (sql_set_capacity x i) w = Some w'"
  shows "only_capacities w w'"
  using assms by (auto simp: only_capacities_def mustExec_Some sql_set_capacity_def next_tick_def)

lemma eeps_each_only:
  assumes "eeps_each e wr args eepsOf s w = Some (w', eepsOf', s')"
  shows "only_capacities w w' \<and> (distinct (map fst eepsOf) \<longrightarrow> distinct (map fst eepsOf'))"
  using assms
proof (induction args arbitrary: eepsOf s w)
  case Nil
  then show ?case by (simp add: only_capacities_refl)
next
  case (Cons a args)
  obtain i wd n where a: "a = (i, wd, n)" by (metis surj_pair)
  let ?x = "eeps (alphas (cc w)) n wd"
  obtain w1 where w1: "(if wr then mustExec e (sql_set_capacity (f_to_int 32 (fmul ?x (F 1000))) i) w else Some w) = Some w1"
    and rest: "eeps_each e wr args (AList.update i ?x eepsOf) (fadd s ?x) w1 = Some (w', eepsOf', s')"
    using Cons.prems a by (auto simp: Let_def bind_eq_Some_conv)
  have "only_capacities w w1" using w1 set_capacity_only by (cases wr) (auto simp: only_capacities_refl)
  then have "only_capacities w w'" using Cons.IH [OF rest] only_capacities_trans [of w w1 w'] by simp
  then show ?case using Cons.IH [OF rest] by (simp add: distinct_update)
qed

lemma representable_step: "0 \<le> k \<Longrightarrow> k \<le> 2 ^ 53 \<Longrightarrow> representable (of_int k * 2 ^ 40)"
proof -
  assume "0 \<le> k" "k \<le> 2 ^ 53"
  then have "of_int k * 2 ^ 40 = (of_int k * 2 powi 40 :: rat)" "\<bar>k\<bar> \<le> 2 ^ 53" "- 1074 \<le> (40 :: int)" by simp_all
  then show ?thesis unfolding representable_def by blast
qed

definition entries_below :: "rat \<Rightarrow> (uint64 \<times> float64) list \<Rightarrow> bool" where
  "entries_below s eepsOf \<longleftrightarrow> (\<forall>q \<in> set eepsOf. \<exists>y. snd q = F y \<and> 0 \<le> y \<and> y \<le> s)"

lemma entries_below_update:
  assumes "entries_below s m" "s \<le> t" "0 \<le> y" "y \<le> t"
  shows "entries_below t (AList.update i (F y) m)"
proof -
  have "\<exists>y. snd q = F y \<and> 0 \<le> y \<and> y \<le> t" if "q \<in> set (AList.update i (F y) m)" for q
  proof -
    have "q = (i, F y) \<or> q \<in> set m" using that by (induction m) (auto split: if_splits)
    then show ?thesis
    proof
      assume "q \<in> set m"
      then obtain z where "snd q = F z" "0 \<le> z" "z \<le> s" using assms(1) unfolding entries_below_def by blast
      then show ?thesis using assms(2) by (intro exI [of _ z]) simp
    qed (use assms in simp)
  qed
  then show ?thesis by (simp add: entries_below_def)
qed

lemma eeps_each_sum:
  assumes "eeps_each e wr args eepsOf (F s) w = Some (w', eepsOf', s')"
    and "\<forall>(i, wd, n) \<in> set args. modest (eeps (alphas (cc w)) n wd)" and "representable s" and "0 \<le> s"
    and "s \<le> of_int k * 2 ^ 40" and "0 \<le> k" and "k + int (length args) \<le> 2 ^ 20" and "entries_below s eepsOf"
  shows "\<exists>t. s' = F t \<and> 0 \<le> t \<and> t \<le> 2 ^ 60 \<and> entries_below t eepsOf'"
  using assms
proof (induction args arbitrary: eepsOf s w k)
  case Nil
  have "of_int k \<le> (of_int (2 ^ 20) :: rat)" using Nil.prems(7) by (subst of_int_le_iff) simp
  then have "of_int k * 2 ^ 40 \<le> (2 ^ 60 :: rat)" by simp
  then show ?case using Nil.prems by (auto intro: order_trans)
next
  case (Cons a args)
  obtain i wd n where a: "a = (i, wd, n)" by (metis surj_pair)
  obtain y where y: "eeps (alphas (cc w)) n wd = F y" "0 \<le> y" "y \<le> 2 ^ 40" "representable y"
    using Cons.prems(2) a by (auto simp: modest_def)
  obtain w1 where w1: "(if wr then mustExec e (sql_set_capacity (f_to_int 32 (fmul (F y) (F 1000))) i) w else Some w) = Some w1"
    and rest: "eeps_each e wr args (AList.update i (F y) eepsOf) (fadd (F s) (F y)) w1 = Some (w', eepsOf', s')"
    using Cons.prems(1) a y(1) by (auto simp: Let_def bind_eq_Some_conv simp del: fadd.simps fmul.simps)
  have "only_capacities w w1" using w1 set_capacity_only by (cases wr) (auto simp: only_capacities_refl)
  then have cc: "cc w1 = cc w" by (simp add: only_capacities_def)
  have k: "0 \<le> k + 1" "k + 1 \<le> 2 ^ 20" using Cons.prems(6,7) by simp_all
  have "of_int (k + 1) \<le> (of_int (2 ^ 20) :: rat)" using k by (subst of_int_le_iff) simp
  moreover have sy: "s + y \<le> of_int (k + 1) * 2 ^ 40" using Cons.prems(5) y(3) by simp
  ultimately have "s + y \<le> 2 ^ 62" by simp
  note G = fadd_grows [OF Cons.prems(3) y(2) this Cons.prems(4)]
  let ?s = "rnd (s + y)"
  have "representable (of_int (k + 1) * 2 ^ 40)" using k by (intro representable_step) simp_all
  then have le: "?s \<le> of_int (k + 1) * 2 ^ 40" using rnd_mono [OF sy] by (simp only: rnd_representable)
  have ys: "y \<le> ?s" using sum_at_least [OF Cons.prems(3) y(4) Cons.prems(4) y(2)] .
  have "entries_below ?s (AList.update i (F y) eepsOf)"
    using G ys y(2) by (intro entries_below_update [OF Cons.prems(8)]) simp_all
  moreover have "\<forall>(i, wd, n) \<in> set args. modest (eeps (alphas (cc w1)) n wd)" using Cons.prems(2) cc by simp
  moreover have "eeps_each e wr args (AList.update i (F y) eepsOf) (F ?s) w1 = Some (w', eepsOf', s')"
    using rest G by simp
  moreover have "0 \<le> ?s" using G Cons.prems(4) by linarith
  moreover have "k + 1 + int (length args) \<le> 2 ^ 20" using Cons.prems(7) by simp
  ultimately show ?case using Cons.IH [of "AList.update i (F y) eepsOf" ?s w1 "k + 1"] G le k(1) by blast
qed

text \<open>C35.
  The shares on a block are a distribution key: each account has one, and each is a number between 0
  and 1, as the running floating-point sum of the capacities never falls below one of them.
  Computing them changes nothing but the stored capacities.
\<close>

theorem GetSharesOnBlock_unit:
  assumes "GetSharesOnBlock e height w = Some (w', Inr shareOf)"
    and "\<forall>args. sql_eeps_args height (TMin (ev_cfg e)) (NAVG (ev_cfg e)) (db w) = Inr args \<longrightarrow>
      eeps_args_ok (alphas (cc w)) args"
  shows "unit_shares shareOf \<and> only_capacities w w'"
proof -
  obtain w0 r where g0: "GetEEPSsOnBlock e height True w = Some (w0, r)"
    using assms(1) by (auto simp: GetSharesOnBlock_def bind_eq_Some_conv)
  then have "(case r of Inl err \<Rightarrow> (w0, Inl err) | Inr (eepsOf, eepsSum) \<Rightarrow> (w0, Inr (shares_of eepsOf eepsSum))) = (w', Inr shareOf)"
    using assms(1) by (simp add: GetSharesOnBlock_def)
  then obtain eepsOf S where r': "r = Inr (eepsOf, S)" "shareOf = shares_of eepsOf S" and "w0 = w'"
    by (cases r) auto
  with g0 have g: "GetEEPSsOnBlock e height True w = Some (w', r)" by simp
  obtain w1 q where q: "query e (sql_eeps_args height (TMin (ev_cfg e)) (NAVG (ev_cfg e))) w = (w1, q)"
    by (metis surj_pair)
  then obtain args where args: "q = Inr args" and each: "eeps_each e True args [] (F 0) w1 = Some (w', eepsOf, S)"
    using g r'(1) by (cases q) (auto simp: GetEEPSsOnBlock_def bind_eq_Some_conv)
  have w1: "w1 = next_tick w" and ok: "eeps_args_ok (alphas (cc w)) args"
    using q args query_Inr [of e _ w w1 args] assms(2) by auto
  have cc: "cc w1 = cc w" by (simp add: w1)
  obtain t where t: "S = F t" "0 \<le> t" "t \<le> 2 ^ 60" "entries_below t eepsOf"
    using eeps_each_sum [OF each, of 0] ok cc unfolding eeps_args_ok_def entries_below_def by auto
  note D = eeps_each_only [OF each]
  have "only_capacities w w1" by (simp add: only_capacities_def w1 next_tick_def)
  then have "only_capacities w w'" using D only_capacities_trans by blast
  moreover have "unit_shares shareOf"
  proof (cases "t = 0")
    case True
    then show ?thesis by (simp add: r'(2) t(1) shares_of_def unit_shares_def)
  next
    case False
    have "\<exists>z. fdiv (F y) (F t) = F z \<and> 0 \<le> z \<and> z \<le> 1" if "0 \<le> y" "y \<le> t" for y
      using that False t(2) fl_between [of 0 1 "y / t"] by (simp add: divide_le_eq)
    then have "\<exists>z. fdiv (snd p) S = F z \<and> 0 \<le> z \<and> z \<le> 1" if "p \<in> set eepsOf" for p
      using t(1,4) that unfolding entries_below_def by (metis)
    then show ?thesis
      using D False by (auto simp: r'(2) shares_of_def unit_shares_def t(1) comp_def case_prod_beta)
  qed
  ultimately show ?thesis by blast
qed

section \<open>Rewarding a block\<close>

definition credited :: "(uint64 \<times> int64) list \<Rightarrow> database \<Rightarrow> database \<Rightarrow> bool" where
  "credited m d d' \<longleftrightarrow> account_ids d' = account_ids d \<and> d' = d\<lparr>account := account d'\<rparr> \<and>
     total_pending d' = total_pending d + sum_list (map (\<lambda>(i, x). if i \<in> set (account_ids d) then x else 0) m)"

lemma sql_add_pending_credited:
  assumes "sql_add_pending x i d = Inr d'" "distinct (account_ids d)"
  shows "credited [(i, x)] d d'"
  using sql_add_pending_ok [OF assms(1)] sql_add_pending_rows(2) [OF assms(1)] assms(2)
  by (cases "i \<in> set (account_ids d)") (simp_all add: credited_def)

lemma credited_Cons: "credited [q] d d1 \<Longrightarrow> credited m d1 d' \<Longrightarrow> credited (q # m) d d'"
  unfolding credited_def
  by (auto simp: algebra_simps) (metis database.surjective database.update_convs(1))

lemma credit_each_ok:
  assumes "credit_each e m w = (w', ok)" "distinct (account_ids (db w))"
  shows "cc w' = cc w \<and> payments w' = payments w \<and> (ok \<longrightarrow> credited m (db w) (db w'))"
  using assms
proof (induction m arbitrary: w)
  case Nil
  then show ?case by (simp add: credited_def)
next
  case (Cons q m)
  obtain i x where q: "q = (i, x)" by (metis surj_pair)
  obtain w1 r where w1: "exec e (sql_add_pending x i) w = (w1, r)" by (metis surj_pair)
  have f: "same_frame w w1" using w1 by (rule exec_frame) (rule sql_add_pending_ok(1))
  show ?case
  proof (cases r)
    case (Some err)
    then show ?thesis using Cons.prems(1) w1 q f by (simp add: same_frame_def)
  next
    case None
    then obtain d1 where "sql_add_pending x i (db w) = Inr d1" "db w1 = d1" using w1 by (auto elim: exec_cases)
    then have c: "credited [q] (db w) (db w1)" using sql_add_pending_credited Cons.prems(2) q by blast
    have rest: "credit_each e m w1 = (w', ok)" using Cons.prems(1) w1 q None by simp
    have "distinct (account_ids (db w1))" using Cons.prems(2) f by (simp add: same_frame_def)
    then show ?thesis using Cons.IH [OF rest] credited_Cons [OF c] f by (simp add: same_frame_def)
  qed
qed

lemma GetSharesOnBlock_only: "GetSharesOnBlock e height w = Some (w', r) \<Longrightarrow> only_capacities w w'"
proof -
  assume "GetSharesOnBlock e height w = Some (w', r)"
  then obtain w0 g where g0: "GetEEPSsOnBlock e height True w = Some (w0, g)"
    by (auto simp: GetSharesOnBlock_def bind_eq_Some_conv)
  then have "w0 = w'"
    using \<open>GetSharesOnBlock e height w = Some (w', r)\<close> by (cases g) (auto simp: GetSharesOnBlock_def)
  with g0 have g: "GetEEPSsOnBlock e height True w = Some (w', g)" by simp
  obtain w1 q where q: "query e (sql_eeps_args height (TMin (ev_cfg e)) (NAVG (ev_cfg e))) w = (w1, q)"
    by (metis surj_pair)
  have one: "only_capacities w w1" using query_next [OF q] by (simp add: only_capacities_def next_tick_def)
  show ?thesis
  proof (cases q)
    case (Inl err)
    then show ?thesis using g q one by (simp add: GetEEPSsOnBlock_def)
  next
    case (Inr args)
    then obtain m s where "eeps_each e True args [] (F 0) w1 = Some (w', m, s)"
      using g q by (auto simp: GetEEPSsOnBlock_def bind_eq_Some_conv)
    then show ?thesis using eeps_each_only only_capacities_trans [OF one] by blast
  qed
qed

definition won_rows :: "GetBlockReply \<Rightarrow> int64 \<Rightarrow> database \<Rightarrow> bool" where
  "won_rows b reward d \<longleftrightarrow> (\<forall>k \<in> set (block d). kHeight k = gbHeight b \<longrightarrow>
     kVerified k \<and> kReward k = Some reward \<and> kWinner k = Some (gbGenerator b))"

definition rewarded_rows :: "GetBlockReply \<Rightarrow> int64 \<Rightarrow> block_row list \<Rightarrow> block_row list" where
  "rewarded_rows b reward = upd_where (\<lambda>k. kHeight k = gbHeight b)
     (\<lambda>k. k\<lparr>kVerified := True, kReward := Some reward, kWinner := Some (gbGenerator b)\<rparr>)"

lemma sql_set_won_ok:
  assumes "sql_set_won reward (gbGenerator b) (gbHeight b) d = Inr d'"
  shows "account d' = account d" "block d' = rewarded_rows b reward (block d)"
  using assms by (auto simp: sql_set_won_def rewarded_rows_def split: if_splits)

lemma rewarded_rows_won: "block d = rewarded_rows b reward ks \<Longrightarrow> won_rows b reward d"
  by (auto simp: rewarded_rows_def won_rows_def upd_where_def)

text \<open>The outcome of \<open>rewardBlock\<close>: nothing, or everything.\<close>

lemma rewardBlock_outcome:
  assumes "rewardBlock e b w = Some w'" and "distinct (account_ids (db w))"
  shows "payments w' = payments w \<and>
    (account (db w') = account (db w) \<and> block (db w') = block (db w) \<and> cc w' = cc w \<or>
     (\<exists>shareOf. let m = planck_map (ev_cfg e) b shareOf in
        account_ids (db w') = account_ids (db w) \<and>
        total_pending (db w') = total_pending (db w) +
          sum_list (map (\<lambda>(i, x). if i \<in> set (account_ids (db w)) then x else 0) m) \<and>
        block (db w') = rewarded_rows b (spTotal (split_reward (ev_cfg e) b)) (block (db w)) \<and> cc w' = credit_cached m (cc w)))"
proof -
  obtain w1 r1 where x1: "GetSharesOnBlock e (gbHeight b) w = Some (w1, r1)"
    using assms(1) by (auto simp: rewardBlock_def bind_eq_Some_conv)
  have o1: "only_capacities w w1" using GetSharesOnBlock_only [OF x1] .
  define m where "m = planck_map (ev_cfg e) b (case r1 of Inl err \<Rightarrow> [] | Inr shareOf \<Rightarrow> shareOf)"
  let ?won = "sql_set_won (spTotal (split_reward (ev_cfg e) b)) (gbGenerator b) (gbHeight b)"
  obtain w2 r2 where x2: "begin_tx e w1 = (w2, r2)" by (metis surj_pair)
  obtain w3 r3 where x3: "prepare e w2 = (w3, r3)" by (metis surj_pair)
  obtain w4 ok where x4: "credit_each e m w3 = (w4, ok)" by (metis surj_pair)
  obtain w5 r5 where x5: "exec e ?won w4 = (w5, r5)" by (metis surj_pair)
  obtain w6 r6 where x6: "commit e (db w1) w5 = (w6, r6)" by (metis surj_pair)
  have eq: "w' = (case r2 of Some err \<Rightarrow> w2 | None \<Rightarrow> (case r3 of Some err \<Rightarrow> rollback (db w1) w3 | None \<Rightarrow>
      (case ok of False \<Rightarrow> rollback (db w1) w4 | True \<Rightarrow> (case r5 of Some err \<Rightarrow> rollback (db w1) w5 | None \<Rightarrow>
        (case r6 of Some err \<Rightarrow> w6 | None \<Rightarrow> upd_cache (credit_cached m) w6)))))"
    using assms(1) unfolding rewardBlock_def x1 bind.simps prod.case Let_def m_def [symmetric] x2 x3 x4 x5 x6
    by simp
  have s23: "db w2 = db w1" "cc w2 = cc w" "payments w2 = payments w"
    "db w3 = db w1" "cc w3 = cc w" "payments w3 = payments w"
    using begin_tx_next [OF x2] prepare_next [OF x3] o1 by (simp_all add: next_tick_def only_capacities_def)
  have d1: "account (db w1) = account (db w)" "block (db w1) = block (db w)"
    using o1 unfolding only_capacities_def by (metis database.select_convs database.surjective database.update_convs(4))+
  then have ids: "account_ids (db w1) = account_ids (db w)" "total_pending (db w1) = total_pending (db w)"
    by (simp_all add: account_ids_def total_pending_def)
  have C: "cc w4 = cc w \<and> payments w4 = payments w \<and> (ok \<longrightarrow> credited m (db w1) (db w4))"
    using credit_each_ok [OF x4] assms(2) s23 ids by simp
  have C5: "cc w5 = cc w" "payments w5 = payments w" using x5 C by (auto elim!: exec_cases simp: next_tick_def)
  have C6: "cc w6 = cc w" "payments w6 = payments w" using x6 C5
    by (auto elim!: commit_cases simp: next_tick_def rollback_def)
  show ?thesis
  proof (cases "r2 = None \<and> r3 = None \<and> ok \<and> r5 = None \<and> r6 = None")
    case False
    then have "r6 \<noteq> None \<Longrightarrow> db w6 = db w1" using x6 by (auto elim: commit_cases)
    then have "db w' = db w1 \<and> cc w' = cc w \<and> payments w' = payments w"
      using False s23 C C5 C6 unfolding eq
      by (cases r2; cases r3; cases ok; cases r5; cases r6) (simp_all add: rollback_def)
    then show ?thesis using d1 by simp
  next
    case True
    then have w': "w' = upd_cache (credit_cached m) w6" by (simp add: eq)
    have "db w6 = db w5" using True x6 by (auto elim: commit_cases)
    moreover obtain d5 where "?won (db w4) = Inr d5" "db w5 = d5" using True x5 by (auto elim: exec_cases)
    ultimately have S: "account (db w6) = account (db w4)" "block (db w6) = rewarded_rows b (spTotal (split_reward (ev_cfg e) b)) (block (db w4))"
      using sql_set_won_ok by simp_all
    then have a: "account_ids (db w6) = account_ids (db w4)" "total_pending (db w6) = total_pending (db w4)"
      by (simp_all add: account_ids_def total_pending_def)
    have "credited m (db w1) (db w4)" using C True by simp
    then have "account_ids (db w') = account_ids (db w) \<and> total_pending (db w') = total_pending (db w) +
        sum_list (map (\<lambda>(i, x). if i \<in> set (account_ids (db w)) then x else 0) m)"
      using a w' ids unfolding credited_def by simp
    moreover have "block (db w4) = block (db w)" using C True d1(2) unfolding credited_def
      by (metis database.select_convs(3) database.surjective database.update_convs(1))
    then have "block (db w') = rewarded_rows b (spTotal (split_reward (ev_cfg e) b)) (block (db w))" "cc w' = credit_cached m (cc w)"
      "payments w' = payments w" using S(2) w' C6 by (simp_all add: upd_cache_def)
    ultimately show ?thesis unfolding Let_def m_def by blast
  qed
qed


section \<open>Cleaning the database\<close>

lemma cascade_account [simp]: "account (cascade d) = account d"
  using cascade_preserves [of "\<lambda>d'. account d' = account d" d] by (simp add: cascade_round_others)

lemma cascade_miner: "set (miner (cascade d)) \<subseteq> set (miner d)"
proof -
  have "set (miner (cascade_round d')) \<subseteq> set (miner d')" for d' by (auto simp: cascade_round_def)
  then show ?thesis using cascade_preserves [of "\<lambda>d'. set (miner d') \<subseteq> set (miner d)" d] by (meson order_trans order_refl)
qed

lemma partition_sum:
  "sum_list (map f (filter P xs)) + sum_list (map f (filter (\<lambda>x. \<not> P x) xs)) = (sum_list (map f xs) :: int)"
  by (induction xs) auto

text \<open>Setting the fee account to the sum over the accounts that do not mine, and deleting those, keeps the total.\<close>

lemma transfer_and_delete:
  assumes "sql_transfer_pending fee d = Inr d1" "sql_delete_old_accounts fee d1 = Inr d2"
    and "distinct (account_ids d)" "fee \<in> set (account_ids d)" "\<not> is_miner_id fee d"
  shows "total_pending d2 = total_pending d" "fee \<in> set (account_ids d2)"
proof -
  let ?idle = "\<lambda>a. \<not> is_miner_id (aID a) d"
  let ?s = "sum_list (map aPending (filter ?idle (account d)))"
  have d1: "d1 = d\<lparr>account := upd_where (\<lambda>a. aID a = fee) (\<lambda>a. a\<lparr>aPending := ?s\<rparr>) (account d)\<rparr>"
    using assms(1,4) by (auto simp: sql_transfer_pending_def Let_def has_account_ids split: if_splits)
  have m: "is_miner_id i d1 = is_miner_id i d" for i by (simp add: is_miner_id_def d1)
  have acc: "account d2 = filter (\<lambda>a. aID a = fee \<or> is_miner_id (aID a) d)
      (upd_where (\<lambda>a. aID a = fee) (\<lambda>a. a\<lparr>aPending := ?s\<rparr>) (account d))"
    using assms(2) by (auto simp: sql_delete_old_accounts_def m) (simp add: d1)
  have "sum_list (map aPending (filter (\<lambda>a. aID a = fee \<or> is_miner_id (aID a) d)
      (upd_where (\<lambda>a. aID a = fee) (\<lambda>a. a\<lparr>aPending := v\<rparr>) as))) =
      (if fee \<in> aID ` set as then v else 0) + sum_list (map aPending (filter (\<lambda>a. is_miner_id (aID a) d) as))"
    if "distinct (map aID as)" for v as
    using that assms(5) by (induction as) (auto simp: upd_where_def)
  from this [of "account d" ?s] have "total_pending d2 = ?s + sum_list (map aPending (filter (\<lambda>a. is_miner_id (aID a) d) (account d)))"
    using assms(3,4) by (simp add: total_pending_def acc account_ids_def)
  then show "total_pending d2 = total_pending d"
    using partition_sum [of aPending "\<lambda>a. is_miner_id (aID a) d" "account d"] by (simp add: total_pending_def)
  obtain a where a: "a \<in> set (account d)" "aID a = fee" using assms(4) by (auto simp: account_ids_def)
  then have "a\<lparr>aPending := ?s\<rparr> \<in> set (account d2)"
    unfolding acc upd_where_def by (auto intro!: image_eqI [of _ _ a])
  from imageI [OF this, of aID] show "fee \<in> set (account_ids d2)" using a(2) by (simp add: account_ids_def)
qed

lemma CleanDB_pending:
  assumes "CleanDB e w = Some w'" and "distinct (account_ids (db w))"
    and "FeeAccountID (ev_cfg e) \<in> set (account_ids (db w))" and "\<not> is_miner_id (FeeAccountID (ev_cfg e)) (db w)"
  shows "total_pending (db w') = total_pending (db w) \<and> FeeAccountID (ev_cfg e) \<in> set (account_ids (db w'))"
proof -
  let ?fee = "FeeAccountID (ev_cfg e)"
  obtain w1 where x1: "mustExec e (sql_delete_blocks_below (bHeight (CurrentBlock (cc w)) - 5000)) w = Some w1"
    using assms(1) by (auto simp: CleanDB_def Let_def bind_eq_Some_conv)
  obtain w2 where x2: "mustExec e sql_delete_idle_miners w1 = Some w2"
    using assms(1) x1 by (auto simp: CleanDB_def Let_def bind_eq_Some_conv)
  obtain w3 r3 where x3: "begin_tx e w2 = (w3, r3)" by (metis surj_pair)
  obtain w4 r4 where x4: "exec e (sql_transfer_pending ?fee) w3 = (w4, r4)" by (metis surj_pair)
  obtain w5 r5 where x5: "exec e (sql_delete_old_accounts ?fee) w4 = (w5, r5)" by (metis surj_pair)
  obtain w6 r6 where x6: "commit e (db w2) w5 = (w6, r6)" by (metis surj_pair)
  have eq: "w' = (case r3 of Some err \<Rightarrow> w3 | None \<Rightarrow> (case r4 of Some err \<Rightarrow> rollback (db w2) w4 | None \<Rightarrow>
      (case r5 of Some err \<Rightarrow> rollback (db w2) w5 | None \<Rightarrow> w6)))"
    using assms(1) unfolding CleanDB_def Let_def x1 x2 bind.simps x3 x4 x5 x6 prod.case fst_conv by simp
  have d2: "account (db w2) = account (db w)" "\<not> is_miner_id ?fee (db w2)"
  proof -
    have "db w1 = cascade ((db w)\<lparr>block := filter (\<lambda>k. \<not> kHeight k < bHeight (CurrentBlock (cc w)) - 5000) (block (db w))\<rparr>)"
      using x1 by (auto simp: mustExec_Some sql_delete_blocks_below_def)
    then have a: "account (db w1) = account (db w)" "set (miner (db w1)) \<subseteq> set (miner (db w))"
      using cascade_miner by fastforce+
    have "account (db w2) = account (db w1)" "set (miner (db w2)) \<subseteq> set (miner (db w1))"
      using x2 by (auto simp: mustExec_Some sql_delete_idle_miners_def)
    then show "account (db w2) = account (db w)" "\<not> is_miner_id ?fee (db w2)"
      using a assms(4) by (auto simp: is_miner_id_def)
  qed
  then have ids: "account_ids (db w2) = account_ids (db w)" "total_pending (db w2) = total_pending (db w)"
    by (simp_all add: account_ids_def total_pending_def)
  have d3: "db w3 = db w2" using begin_tx_next [OF x3] by simp
  show ?thesis
  proof (cases "r3 = None \<and> r4 = None \<and> r5 = None \<and> r6 = None")
    case False
    then have "r6 \<noteq> None \<Longrightarrow> db w6 = db w2" using x6 by (auto elim: commit_cases)
    then have "db w' = db w2" using False d3 unfolding eq by (cases r3; cases r4; cases r5; cases r6) simp_all
    then show ?thesis using ids assms(3) by simp
  next
    case True
    then have "db w' = db w5" using x6 by (auto simp: eq elim: commit_cases)
    moreover obtain d4 where "sql_transfer_pending ?fee (db w2) = Inr d4" "db w4 = d4"
      using x4 True d3 by (auto elim: exec_cases)
    moreover obtain d5 where "sql_delete_old_accounts ?fee (db w4) = Inr d5" "db w5 = d5"
      using x5 True by (auto elim: exec_cases)
    ultimately show ?thesis using transfer_and_delete [of ?fee "db w2" d4 d5] ids d2(2) assms(2,3) by simp
  qed
qed

text \<open>C19.
  The daily cleaning neither creates nor destroys pending amounts, whichever statement fails: what the
  deleted accounts had pending goes to the fee account, which is kept. (The fee account must not be
  among the miners.)
\<close>

theorem CleanDB_conserves:
  assumes "CleanDB e w = Some w'" and "distinct (account_ids (db w))"
    and "FeeAccountID (ev_cfg e) \<in> set (account_ids (db w))" and "\<not> is_miner_id (FeeAccountID (ev_cfg e)) (db w)"
  shows "total_pending (db w') = total_pending (db w) \<and> FeeAccountID (ev_cfg e) \<in> set (account_ids (db w'))"
  by (rule CleanDB_pending [OF assms])

text \<open>
  If the fee account mines, its own pending amount is replaced by that of the other idle accounts and
  is lost.
\<close>

lemma fee_account_overwritten:
  assumes "sql_transfer_pending fee d = Inr d1" "has_account fee d" "is_miner_id fee d" "distinct (account_ids d)"
    and "a \<in> set (account d)" "aID a = fee"
  shows "total_pending d1 = total_pending d - aPending a +
    sum_list (map aPending (filter (\<lambda>a. \<not> is_miner_id (aID a) d) (account d)))"
proof -
  let ?s = "sum_list (map aPending (filter (\<lambda>a. \<not> is_miner_id (aID a) d) (account d)))"
  have d1: "d1 = d\<lparr>account := upd_where (\<lambda>a. aID a = fee) (\<lambda>a. a\<lparr>aPending := ?s\<rparr>) (account d)\<rparr>"
    using assms(1,2) by (auto simp: sql_transfer_pending_def Let_def split: if_splits)
  have "sum_list (map aPending (upd_where (\<lambda>a. aID a = fee) (\<lambda>a. a\<lparr>aPending := v\<rparr>) as)) =
      sum_list (map aPending as) + (if a \<in> set as then v - aPending a else 0)"
    if "distinct (map aID as)" "set as \<subseteq> set (account d)" for v as
    using that
  proof (induction as)
    case (Cons b bs)
    have one: "b = a \<longleftrightarrow> aID b = fee"
      using Cons.prems(2) assms(4-6) by (auto simp: account_ids_def distinct_map inj_on_def)
    have "a \<notin> set bs" if "b = a" using that Cons.prems(1) by auto
    then show ?case using Cons one by (auto simp: upd_where_def)
  qed (simp add: upd_where_def)
  from this [of "account d" ?s] show ?thesis
    using assms(4,5) by (simp add: d1 total_pending_def account_ids_def)
qed

text \<open>
  Deleting an idle account also deletes its recipient rows, sent or not: a payment that was created
  but not yet sent is lost.
\<close>

definition idle_account :: "uint64 \<Rightarrow> account_row" where
  "idle_account i = \<lparr>aID = i, aAddress = [], aName = None, aPending = 0, aMinPayout = None, aInterval = None, aNextDate = None\<rparr>"

definition orphan_db :: database where
  "orphan_db = sample_db\<lparr>account := [idle_account 7, idle_account 77], miner := [], block := [],
     transaction := [\<lparr>tID = 1, tTxID = None, tHeight = None, tCreated = 0\<rparr>],
     transaction_recipient := [\<lparr>pID = 1, pTx = 1, pRecipient = 77, pAmount = 29995000000\<rparr>], next_tx := 2\<rparr>"

lemma unsent_payment_lost:
  "\<exists>d'. sql_delete_old_accounts 7 orphan_db = Inr d' \<and> sql_unsent orphan_db = Inr [1] \<and>
     total_pending d' = total_pending orphan_db \<and> total_payments orphan_db = 29995000000 \<and> total_payments d' = 0"
proof -
  have s: "sql_unsent orphan_db = Inr [1]" by (simp add: sql_unsent_def orphan_db_def)
  have t: "total_payments orphan_db = 29995000000" "total_pending orphan_db = 0"
    by (simp_all add: total_payments_def total_pending_def orphan_db_def idle_account_def)
  let ?d = "orphan_db\<lparr>account := [idle_account 7]\<rparr>"
  have del: "sql_delete_old_accounts 7 orphan_db = Inr (cascade ?d)"
    by (simp add: sql_delete_old_accounts_def is_miner_id_def orphan_db_def idle_account_def)
  have "row_count ?d = 2" by (simp add: row_count_def orphan_db_def sample_db_def)
  then have "cascade ?d = cascade_round (cascade_round ?d)" by (simp add: cascade_def numeral_2_eq_2)
  then have "transaction_recipient (cascade ?d) = []"
    by (simp add: cascade_round_def has_account_def orphan_db_def idle_account_def)
  then have "total_payments (cascade ?d) = 0" "total_pending (cascade ?d) = 0"
    by (simp_all add: total_payments_def total_pending_def idle_account_def)
  then show ?thesis using s t del by simp
qed

section \<open>A run\<close>



theorem CleanDB_conserves_witness:
  "\<exists>w'. CleanDB sample_env sample_world = Some w' \<and> total_pending (db w') = 30000000000"
proof -
  have "healthy sample_env" by (simp add: healthy_def sample_env_def)
  note M = mustExec_healthy [OF this]
  obtain w1 where "mustExec sample_env (sql_delete_blocks_below (bHeight (CurrentBlock (cc sample_world)) - 5000)) sample_world = Some w1"
    using M [of "sql_delete_blocks_below (bHeight (CurrentBlock (cc sample_world)) - 5000)" sample_world]
    by (auto simp: sql_delete_blocks_below_def)
  moreover obtain w2 where "mustExec sample_env sql_delete_idle_miners w1 = Some w2"
    using M [of sql_delete_idle_miners w1] by (auto simp: sql_delete_idle_miners_def)
  ultimately obtain w' where w': "CleanDB sample_env sample_world = Some w'"
    by (simp add: CleanDB_def Let_def)
  have "distinct (account_ids (db sample_world))" "FeeAccountID (ev_cfg sample_env) \<in> set (account_ids (db sample_world))"
    "\<not> is_miner_id (FeeAccountID (ev_cfg sample_env)) (db sample_world)" "total_pending (db sample_world) = 30000000000"
    by (simp_all add: sample_cfg account_ids_def is_miner_id_def total_pending_def sample_world_def sample_db_def)
  then show ?thesis using CleanDB_conserves [OF w'] w' by simp
qed

text \<open>Two submissions of one miner on two slow blocks, with a capacity of 240 TB and the only share.\<close>

definition sample_shared :: world where
  "sample_shared = sample_world\<lparr>db := sample_db\<lparr>
     block := map (\<lambda>h. \<lparr>kHeight = h, kBaseTarget = 1, kScoop = 17, kGenSig = [], kVerified = False, kReward = None,
       kWinner = None, kBest = None, kCreated = 0, kGenTime = 240\<rparr>) [99999, 100000],
     nonce_submission := map (\<lambda>h. \<lparr>sID = uint h, sMiner = 77, sHeight = h, sDeadline = 9162596898, sNonce = 5\<rparr>)
       [99999, 100000]\<rparr>, cc := (cc sample_world)\<lparr>alphas := [F 1, F 1, F 1]\<rparr>\<rparr>"

lemma sample_args: "sql_eeps_args 100000 20 360 (db sample_shared) = Inr [(77, F 18325193796, 2)]"
  by (simp add: sql_eeps_args_def weighted_submissions_def slow_blocks_upto_def sample_shared_def sample_db_def)

lemma sample_eeps: "eeps [F 1, F 1, F 1] 2 (F 18325193796) = F 240"
  using fl_of_int [of 240] fl_of_int [of 1] by (simp add: eeps_def Capacity.alpha_def GenesisBaseTarget_def)

lemma sample_shares: "\<exists>w'. GetSharesOnBlock sample_env 100000 sample_shared = Some (w', Inr [(77, F 1)])"
proof -
  have c: "TMin (ev_cfg sample_env) = 20" "NAVG (ev_cfg sample_env) = 360"
    by (simp_all add: sample_env_def with_defaults_def example_config_def)
  have al: "alphas (cc sample_shared) = [F 1, F 1, F 1]" by (simp add: sample_shared_def)
  have "\<exists>w'. mustExec sample_env (sql_set_capacity k 77) w = Some w'" for k w
    by (simp add: mustExec_Some sample_env_def sql_set_capacity_def)
  then obtain w' where "mustExec sample_env (sql_set_capacity (f_to_int 32 (fmul (F 240) (F 1000))) 77)
      (next_tick sample_shared) = Some w'" by blast
  then have "GetEEPSsOnBlock sample_env 100000 True sample_shared = Some (w', Inr ([(77, F 240)], F 240))"
    using fl_of_int [of 240]
    by (simp add: GetEEPSsOnBlock_def sample_query c sample_args al sample_eeps Let_def del: fmul.simps)
  then show ?thesis using fl_of_int [of 1] by (simp add: GetSharesOnBlock_def shares_of_def)
qed

theorem GetSharesOnBlock_unit_witness:
  "\<exists>w'. GetSharesOnBlock sample_env 100000 sample_shared = Some (w', Inr [(77, F 1)]) \<and>
     unit_shares [(77, F 1)] \<and> only_capacities sample_shared w'"
proof -
  obtain w' where w': "GetSharesOnBlock sample_env 100000 sample_shared = Some (w', Inr [(77, F 1)])"
    using sample_shares by blast
  have c: "TMin (ev_cfg sample_env) = 20" "NAVG (ev_cfg sample_env) = 360"
    by (simp_all add: sample_env_def with_defaults_def example_config_def)
  have "modest (F 240)" using representable_of_int [of 240] by (simp add: modest_def)
  then have "eeps_args_ok (alphas (cc sample_shared)) [(77, F 18325193796, 2)]"
    by (simp add: eeps_args_ok_def sample_shared_def sample_eeps)
  then show ?thesis using GetSharesOnBlock_unit [OF w'] w' by (simp add: c sample_args)
qed

end
