(* ===== verification/Ledger.thy ===== *)
theory Ledger
  imports RewardsProofs Schema
begin

text \<open>
  The books of a whole run of \<open>RewardBlocks\<close>: what is credited, for which blocks, and that no block is
  credited twice.
\<close>

section \<open>Rows of blocks\<close>

definition rows_except :: "uint64 set \<Rightarrow> database \<Rightarrow> block_row list" where
  "rows_except H d = filter (\<lambda>k. kHeight k \<notin> H) (block d)"

lemma rows_except_mono:
  assumes "rows_except H d' = rows_except H d" "H \<subseteq> H'"
  shows "rows_except H' d' = rows_except H' d"
proof -
  have "rows_except H' d0 = filter (\<lambda>k. kHeight k \<notin> H') (rows_except H d0)" for d0
    using assms(2) by (auto simp: rows_except_def intro!: filter_cong)
  then show ?thesis using assms(1) by simp
qed

lemma rows_except_upd: "(\<And>k. kHeight (f k) = kHeight k) \<Longrightarrow> (\<And>k. P k \<Longrightarrow> kHeight k \<in> H) \<Longrightarrow>
    filter (\<lambda>k. kHeight k \<notin> H) (upd_where P f ks) = filter (\<lambda>k. kHeight k \<notin> H) ks"
  by (induction ks) (auto simp: upd_where_def)

lemma rows_except_at:
  assumes "block d' = upd_where (\<lambda>k. kHeight k = h) f (block d)" "\<And>k. kHeight (f k) = kHeight k"
  shows "rows_except {h} d' = rows_except {h} d"
  unfolding rows_except_def assms(1) by (rule rows_except_upd) (simp_all add: assms(2))

lemma rewarded_rows_except: "block d' = rewarded_rows b x (block d) \<Longrightarrow> rows_except {gbHeight b} d' = rows_except {gbHeight b} d"
  unfolding rewarded_rows_def by (erule rows_except_at) simp

lemma won_rows_except:
  assumes "won_rows b x d" "rows_except H d' = rows_except H d" "gbHeight b \<notin> H"
  shows "won_rows b x d'"
  unfolding won_rows_def
proof (intro ballI impI)
  fix k assume k: "k \<in> set (block d')" "kHeight k = gbHeight b"
  then have "k \<in> set (rows_except H d')" using assms(3) by (simp add: rows_except_def)
  then have "k \<in> set (block d)" unfolding assms(2) by (simp add: rows_except_def)
  then show "kVerified k \<and> kReward k = Some x \<and> kWinner k = Some (gbGenerator b)" using assms(1) k(2) by (simp add: won_rows_def)
qed

section \<open>A run\<close>

text \<open>A reward: the block as the wallets report it, and the shares of the miners; what it adds to the pending amounts.\<close>

type_synonym reward = "GetBlockReply \<times> (uint64 \<times> float64) list"

definition reward_total :: "Config \<Rightarrow> uint64 list \<Rightarrow> reward \<Rightarrow> int" where
  "reward_total cfg ids r = sum_list (map (\<lambda>(i, x). if i \<in> set ids then x else 0) (planck_map cfg (fst r) (snd r)))"

definition booked :: "Config \<Rightarrow> reward list \<Rightarrow> database \<Rightarrow> database \<Rightarrow> bool" where
  "booked cfg rs d d' \<longleftrightarrow> account_ids d' = account_ids d \<and>
     total_pending d' = total_pending d + sum_list (map (reward_total cfg (account_ids d)) rs) \<and>
     (\<forall>r \<in> set rs. won_rows (fst r) (spTotal (split_reward cfg (fst r))) d') \<and> distinct (map (gbHeight \<circ> fst) rs)"

text \<open>The wallets answer for the block they were asked for.\<close>

definition answers_for_height :: "env \<Rightarrow> bool" where
  "answers_for_height e \<longleftrightarrow> (\<forall>t h i n won b. hWonBlock (ev_wallet e t) h i n = Inr (won, b) \<longrightarrow> gbHeight b = h)"

lemma rewardBlock_booked:
  assumes "rewardBlock e b w = Some w'" "distinct (account_ids (db w))"
  shows "payments w' = payments w \<and> rows_except {gbHeight b} (db w') = rows_except {gbHeight b} (db w) \<and>
    (\<exists>rs. booked (ev_cfg e) rs (db w) (db w') \<and> gbHeight ` fst ` set rs \<subseteq> {gbHeight b})"
proof -
  note o = rewardBlock_outcome [OF assms]
  from conjunct2 [OF o] show ?thesis
  proof (elim disjE exE)
    assume n: "account (db w') = account (db w) \<and> block (db w') = block (db w) \<and> cc w' = cc w"
    then have "booked (ev_cfg e) [] (db w) (db w')" by (simp add: booked_def account_ids_def total_pending_def)
    then show ?thesis using o n by (auto simp: rows_except_def intro!: exI [of _ "[]"])
  next
    fix sh
    let ?m = "planck_map (ev_cfg e) b sh"
    assume "let m = ?m in account_ids (db w') = account_ids (db w) \<and>
      total_pending (db w') = total_pending (db w) + sum_list (map (\<lambda>(i, x). if i \<in> set (account_ids (db w)) then x else 0) m) \<and>
      block (db w') = rewarded_rows b (spTotal (split_reward (ev_cfg e) b)) (block (db w)) \<and> cc w' = credit_cached m (cc w)"
    then have r: "account_ids (db w') = account_ids (db w)"
      "total_pending (db w') = total_pending (db w) + sum_list (map (\<lambda>(i, x). if i \<in> set (account_ids (db w)) then x else 0) ?m)"
      "block (db w') = rewarded_rows b (spTotal (split_reward (ev_cfg e) b)) (block (db w))" by (simp_all add: Let_def)
    have "booked (ev_cfg e) [(b, sh)] (db w) (db w')"
      using r(1,2) rewarded_rows_won [OF r(3)] by (simp add: booked_def reward_total_def)
    then show ?thesis using o rewarded_rows_except [OF r(3)] by (auto intro!: exI [of _ "[(b, sh)]"])
  qed
qed

lemma booked_append:
  assumes "booked cfg rs d d1" "booked cfg rs' d1 d2" "rows_except H d2 = rows_except H d1"
    and "gbHeight ` fst ` set rs \<inter> H = {}" "gbHeight ` fst ` set rs' \<subseteq> H"
  shows "booked cfg (rs @ rs') d d2"
proof -
  have "won_rows (fst r) (spTotal (split_reward cfg (fst r))) d2" if "r \<in> set rs" for r
  proof -
    have "gbHeight (fst r) \<notin> H" using assms(4) that by blast
    then show ?thesis using assms(1,3) that won_rows_except unfolding booked_def by blast
  qed
  moreover have "distinct (map (gbHeight \<circ> fst) (rs @ rs'))"
    using assms(1,2,4,5) by (auto simp: booked_def)
  ultimately show ?thesis using assms(1,2) by (auto simp: booked_def)
qed

lemma disjoint_from_single: "A \<subseteq> {h} \<Longrightarrow> h \<notin> H \<Longrightarrow> A \<inter> H = {}"
  by blast

lemma verify_each_booked:
  assumes "verify_each e infos w = Some w'" "distinct (account_ids (db w))" "distinct (map wiHeight infos)" "answers_for_height e"
  shows "payments w' = payments w \<and> rows_except (wiHeight ` set infos) (db w') = rows_except (wiHeight ` set infos) (db w) \<and>
    (\<exists>rs. booked (ev_cfg e) rs (db w) (db w') \<and> gbHeight ` fst ` set rs \<subseteq> wiHeight ` set infos)"
  using assms(1-3)
proof (induction infos arbitrary: w)
  case Nil
  then show ?case by (auto simp: booked_def intro!: exI [of _ "[]"])
next
  case (Cons info infos)
  let ?h = "wiHeight info" and ?H = "wiHeight ` set infos"
  obtain w1 r where x: "ask e (\<lambda>h. hWonBlock h ?h (wiMinerID info) (wiNonce info)) w = (w1, r)" by (metis surj_pair)
  have w1: "db w1 = db w" "payments w1 = payments w" using ask_next [OF x] by (simp_all add: next_tick_def)
  have "\<exists>w2 rs. verify_each e infos w2 = Some w' \<and> payments w2 = payments w \<and> rows_except {?h} (db w2) = rows_except {?h} (db w) \<and>
      booked (ev_cfg e) rs (db w) (db w2) \<and> gbHeight ` fst ` set rs \<subseteq> {?h}"
  proof (cases r)
    case (Inl err)
    then show ?thesis using Cons.prems(1) x w1 by (intro exI [of _ w1] exI [of _ "[]"]) (simp add: booked_def)
  next
    case (Inr p)
    obtain won b where p: "p = (won, b)" by (metis surj_pair)
    have h: "gbHeight b = ?h" using assms(4) x unfolding answers_for_height_def Inr p by (auto simp: ask_def)
    obtain w2 where w2: "(if won then rewardBlock e b w1 else mustExec e (sql_set_verified ?h) w1) = Some w2" "verify_each e infos w2 = Some w'"
      using Cons.prems(1) x by (auto simp: Inr p bind_eq_Some_conv)
    show ?thesis
    proof (cases won)
      case True
      then show ?thesis using rewardBlock_booked [of e b w1 w2] w2 w1 h Cons.prems(2) by auto
    next
      case False
      then have "db w2 = (db w)\<lparr>block := upd_where (\<lambda>k. kHeight k = ?h) (\<lambda>k. k\<lparr>kVerified := True\<rparr>) (block (db w))\<rparr>" "payments w2 = payments w"
        using w2(1) w1 by (auto simp: mustExec_Some sql_set_verified_def next_tick_def)
      moreover have "rows_except {?h} (db w2) = rows_except {?h} (db w)"
        by (rule rows_except_at [where f = "\<lambda>k. k\<lparr>kVerified := True\<rparr>"]) (simp_all add: calculation)
      ultimately show ?thesis using w2(2)
        by (intro exI [of _ w2] exI [of _ "[]"]) (simp add: booked_def account_ids_def total_pending_def)
    qed
  qed
  then obtain w2 rs where w2: "verify_each e infos w2 = Some w'" "payments w2 = payments w" "rows_except {?h} (db w2) = rows_except {?h} (db w)"
    "booked (ev_cfg e) rs (db w) (db w2)" "gbHeight ` fst ` set rs \<subseteq> {?h}" by blast
  have "distinct (account_ids (db w2))" using w2(4) Cons.prems(2) by (simp add: booked_def)
  then obtain rs' where ih: "payments w' = payments w2" "rows_except ?H (db w') = rows_except ?H (db w2)"
    "booked (ev_cfg e) rs' (db w2) (db w')" "gbHeight ` fst ` set rs' \<subseteq> ?H"
    using Cons.IH [OF w2(1)] Cons.prems(3) by auto
  have "?h \<notin> ?H" using Cons.prems(3) by simp
  note disjoint_from_single [OF w2(5) this]
  from booked_append [OF w2(4) ih(3,2) this ih(4)] have "booked (ev_cfg e) (rs @ rs') (db w) (db w')" .
  moreover have "rows_except (insert ?h ?H) (db w') = rows_except (insert ?h ?H) (db w)"
    by (rule trans [OF rows_except_mono [OF ih(2)] rows_except_mono [OF w2(3)]]) blast+
  moreover have "gbHeight ` fst ` set (rs @ rs') \<subseteq> insert ?h ?H" using w2(5) ih(4) by (simp only: set_append image_Un) blast
  ultimately show ?case using ih(1) w2(2) by (simp only: list.set image_insert) blast
qed

section \<open>The blocks that are due\<close>

text \<open>What happens to the rows before the wallets are asked: due blocks get their best submission, those without one are done.\<close>

definition progressed :: "block_row \<Rightarrow> block_row \<Rightarrow> bool" where
  "progressed k k' \<longleftrightarrow> kHeight k' = kHeight k \<and> (kVerified k \<longrightarrow> k' = k)"

lemma progressed_upd: "(\<And>k. P k \<Longrightarrow> \<not> kVerified k) \<Longrightarrow> (\<And>k. kHeight (f k) = kHeight k) \<Longrightarrow>
    list_all2 progressed ks (upd_where P f ks)"
  by (induction ks) (auto simp: upd_where_def progressed_def)

lemma progressed_trans: "list_all2 progressed ks ks' \<Longrightarrow> list_all2 progressed ks' ks'' \<Longrightarrow> list_all2 progressed ks ks''"
  by (rule list_all2_trans [of progressed progressed progressed]) (auto simp: progressed_def)

lemma progressed_heights: "list_all2 progressed ks ks' \<Longrightarrow> map kHeight ks' = map kHeight ks"
  by (induction rule: list_all2_induct) (simp_all add: progressed_def)

lemma progressed_rows:
  assumes "list_all2 progressed ks ks'"
  shows "k \<in> set ks \<Longrightarrow> kVerified k \<Longrightarrow> k \<in> set ks'"
    and "k' \<in> set ks' \<Longrightarrow> \<not> kVerified k' \<Longrightarrow> \<exists>k \<in> set ks. kHeight k = kHeight k' \<and> \<not> kVerified k"
  using assms by (induction rule: list_all2_induct) (auto simp: progressed_def)

lemma filter_one: "distinct (map f xs) \<Longrightarrow> filter (\<lambda>x. c = Some (f x)) xs = [] \<or> (\<exists>x. filter (\<lambda>x. c = Some (f x)) xs = [x])"
  by (induction xs) (auto simp: filter_empty_conv)

lemma won_infos_heights:
  assumes "sql_won_infos mh mc d = Inr infos" "distinct (map kHeight (block d))" "distinct (map sID (nonce_submission d))"
  shows "distinct (map wiHeight infos)" "wiHeight ` set infos \<subseteq> kHeight ` {k \<in> set (block d). \<not> kVerified k}"
proof -
  define of_block where "of_block = (\<lambda>k :: block_row. map (\<lambda>s. \<lparr>wiHeight = kHeight k, wiCreated = kCreated k, wiNonce = sNonce s, wiMinerID = sMiner s\<rparr>)
        (filter (\<lambda>s. kBest k = Some (sID s)) (nonce_submission d)))"
  have infos: "infos = concat (map of_block (sort_key kHeight (filter (due mh mc) (block d))))"
    using assms(1) by (simp add: sql_won_infos_def of_block_def)
  have one: "map wiHeight (of_block k) = [] \<or> map wiHeight (of_block k) = [kHeight k]" for k
    using filter_one [OF assms(3), of "kBest k"] by (auto simp: of_block_def)
  have "distinct (map wiHeight (concat (map of_block ks))) \<and> wiHeight ` set (concat (map of_block ks)) \<subseteq> kHeight ` set ks"
    if "distinct (map kHeight ks)" for ks
    using that
  proof (induction ks)
    case (Cons k ks)
    have "wiHeight x = kHeight k" if "x \<in> set (of_block k)" for x using one [of k] that by auto
    moreover have "distinct (map wiHeight (of_block k))" using one [of k] by auto
    moreover have ih: "distinct (map wiHeight (concat (map of_block ks)))" "wiHeight ` set (concat (map of_block ks)) \<subseteq> kHeight ` set ks"
      using Cons by simp_all
    moreover have "wiHeight x \<in> kHeight ` set ks" if "x \<in> set (concat (map of_block ks))" for x using that ih(2) by blast
    ultimately show ?case using Cons.prems unfolding list.map concat.simps map_append distinct_append set_append set_map by auto
  qed simp
  from this [of "sort_key kHeight (filter (due mh mc) (block d))"]
  have "distinct (map wiHeight infos) \<and> wiHeight ` set infos \<subseteq> kHeight ` set (filter (due mh mc) (block d))"
    using assms(2) by (simp add: infos distinct_map inj_on_def)
  then show "distinct (map wiHeight infos)" "wiHeight ` set infos \<subseteq> kHeight ` {k \<in> set (block d). \<not> kVerified k}"
    by (auto simp: due_def)
qed

section \<open>The property\<close>

lemma messages_moved:
  assumes "distinct (account_ids (db w))" "FeeAccountID (ev_cfg e) \<in> set (account_ids (db w))"
    and "w' = (case infos of [] \<Rightarrow> w | info # _ \<Rightarrow> (case ask e (\<lambda>h. hIncomingMsgsSince h (f info)) w of
      (w, Inl err) \<Rightarrow> w | (w, Inr msgOf) \<Rightarrow> SetMinPayout e msgOf w))"
  shows "moved (db w) (db w')"
proof (cases infos)
  case (Cons info infos')
  obtain w1 r where x: "ask e (\<lambda>h. hIncomingMsgsSince h (f info)) w = (w1, r)" by (metis surj_pair)
  have "db w1 = db w" using ask_next [OF x] by simp
  then show ?thesis using assms Cons x SetMinPayout_moved [of w1 e] by (cases r) (simp_all add: moved_def)
qed (simp add: assms(3) moved_def)

text \<open>The database when the wallets are asked: the blocks that are due are marked, and the messages of the miners are heeded.\<close>

definition marked :: "database \<Rightarrow> database \<Rightarrow> bool" where
  "marked d d' \<longleftrightarrow> account d' = account d \<and> nonce_submission d' = nonce_submission d \<and> list_all2 progressed (block d) (block d')"

lemma marked_stmts: "sql_pick_best mh mc d = Inr d' \<Longrightarrow> marked d d'" "sql_verify_empty mh mc d = Inr d' \<Longrightarrow> marked d d'"
  by (auto simp: sql_pick_best_def sql_verify_empty_def marked_def due_def intro!: progressed_upd)

lemma marked_trans: "marked d d' \<Longrightarrow> marked d' d'' \<Longrightarrow> marked d d''"
  using progressed_trans by (simp add: marked_def) blast

lemma RewardBlocks_cases:
  assumes "RewardBlocks e w = Some w'" "distinct (account_ids (db w))" "FeeAccountID (ev_cfg e) \<in> set (account_ids (db w))"
  obtains (unread) "marked (db w) (db w')"
    | (read) d mh mc infos w4 where "marked (db w) d" "sql_won_infos mh mc d = Inr infos" "moved d (db w4)" "verify_each e infos w4 = Some w'"
proof -
  define mh mc where "mh = bHeight (CurrentBlock (cc w)) - BlockHeightPayoutDelay (ev_cfg e)"
    and "mc = time_now e w + i64 (i64 (- i64 (uint (PayoutDelay (ev_cfg e)))) * second)"
  obtain w1 where w1: "mustExec e (sql_pick_best mh mc) w = Some w1"
    using assms(1) by (auto simp: RewardBlocks_def Let_def mh_def mc_def bind_eq_Some_conv)
  obtain w2 where w2: "mustExec e (sql_verify_empty mh mc) w1 = Some w2"
    using assms(1) w1 by (auto simp: RewardBlocks_def Let_def mh_def mc_def bind_eq_Some_conv)
  obtain w3 q where x: "query e (sql_won_infos mh mc) w2 = (w3, q)" by (metis surj_pair)
  have d3: "db w3 = db w2" using query_next [OF x] by simp
  have "marked (db w) (db w1)" "marked (db w1) (db w2)" using w1 w2 marked_stmts by (auto simp: mustExec_Some)
  then have m: "marked (db w) (db w2)" by (rule marked_trans)
  show ?thesis
  proof (cases q)
    case (Inl err)
    then have "w' = w3" using assms(1) w1 w2 x by (simp add: RewardBlocks_def Let_def mh_def mc_def)
    then show ?thesis using unread m d3 by simp
  next
    case (Inr infos)
    define w4 where "w4 = (case infos of [] \<Rightarrow> w3 | info # _ \<Rightarrow> (case ask e (\<lambda>h. hIncomingMsgsSince h (wiCreated info - 30 * second)) w3 of
      (w, Inl err) \<Rightarrow> w | (w, Inr msgOf) \<Rightarrow> SetMinPayout e msgOf w))"
    have run: "verify_each e infos w4 = Some w'"
      using assms(1) w1 w2 x Inr by (simp add: RewardBlocks_def Let_def mh_def mc_def w4_def)
    have "moved (db w3) (db w4)"
      by (rule messages_moved [OF _ _ w4_def]) (use assms(2,3) m d3 in \<open>simp_all add: account_ids_def marked_def\<close>)
    then have "moved (db w2) (db w4)" by (simp add: d3)
    from read [OF m conjunct1 [OF query_Inr [OF x [unfolded Inr]]] this run] show ?thesis .
  qed
qed

text \<open>Blocks that are verified already are none of those that are looked at, and stay.\<close>

lemma unverified_before:
  assumes "marked d d'" "H \<subseteq> kHeight ` {k \<in> set (block d'). \<not> kVerified k}"
  shows "H \<subseteq> kHeight ` {k \<in> set (block d). \<not> kVerified k}"
proof
  fix h assume "h \<in> H"
  then obtain k' where "k' \<in> set (block d')" "\<not> kVerified k'" "h = kHeight k'" using assms(2) by blast
  moreover obtain k where "k \<in> set (block d)" "kHeight k = kHeight k'" "\<not> kVerified k"
    using assms(1) progressed_rows(2) [OF _ calculation(1,2)] by (auto simp: marked_def)
  ultimately show "h \<in> kHeight ` {k \<in> set (block d). \<not> kVerified k}" by (metis (mono_tags, lifting) image_eqI mem_Collect_eq)
qed

lemma verified_stay:
  assumes "marked d d'" "H \<subseteq> kHeight ` {k \<in> set (block d'). \<not> kVerified k}" "distinct (map kHeight (block d))"
    and "rows_except H d'' = rows_except H d'"
  shows "{k \<in> set (block d). kVerified k} \<subseteq> set (block d'')"
proof (intro subsetI, elim CollectE conjE)
  fix k assume k: "k \<in> set (block d)" "kVerified k"
  have p: "list_all2 progressed (block d) (block d')" using assms(1) by (simp add: marked_def)
  then have k2: "k \<in> set (block d')" using progressed_rows(1) k by blast
  have keys: "distinct (map kHeight (block d'))" using assms(3) progressed_heights [OF p] by simp
  have "kHeight k \<notin> H"
  proof
    assume "kHeight k \<in> H"
    then obtain k' where "k' \<in> set (block d')" "\<not> kVerified k'" "kHeight k' = kHeight k" using assms(2) by auto
    then show False using keys k2 k(2) by (auto simp: distinct_map inj_on_def)
  qed
  then have "k \<in> set (rows_except H d')" using k2 by (simp add: rows_except_def)
  then show "k \<in> set (block d'')" unfolding assms(4) [symmetric] by (simp add: rows_except_def)
qed

lemma RewardBlocks_booked:
  assumes "RewardBlocks e w = Some w'" "schema (FeeAccountID (ev_cfg e)) (db w)" "FeeAccountID (ev_cfg e) \<noteq> 0" "answers_for_height e"
  shows "(\<exists>rs. booked (ev_cfg e) rs (db w) (db w') \<and> gbHeight ` fst ` set rs \<subseteq> kHeight ` {k \<in> set (block (db w)). \<not> kVerified k}) \<and>
    {k \<in> set (block (db w)). kVerified k} \<subseteq> set (block (db w'))"
proof -
  have keys: "distinct (account_ids (db w))" "FeeAccountID (ev_cfg e) \<in> set (account_ids (db w))" "distinct (map kHeight (block (db w)))"
    "distinct (map sID (nonce_submission (db w)))"
    using assms(2,3) by (simp_all add: schema_simps has_account_def account_ids_def)
  from assms(1) keys(1,2) show ?thesis
  proof (cases rule: RewardBlocks_cases)
    case unread
    then have "booked (ev_cfg e) [] (db w) (db w')" by (simp add: booked_def account_ids_def total_pending_def marked_def)
    then show ?thesis using verified_stay [OF unread _ keys(3), of "{}" "db w'"] by (auto intro!: exI [of _ "[]"])
  next
    case (read d mh mc infos w4)
    have p: "list_all2 progressed (block (db w)) (block d)" using read(1) by (simp add: marked_def)
    have h: "distinct (map wiHeight infos)" "wiHeight ` set infos \<subseteq> kHeight ` {k \<in> set (block d). \<not> kVerified k}"
      using won_infos_heights [OF read(2)] keys(3,4) read(1) progressed_heights [OF p] by (simp_all add: marked_def)
    have m: "total_pending (db w4) = total_pending (db w)" "account_ids (db w4) = account_ids (db w)" "block (db w4) = block d"
      using read(1,3) unfolding moved_def marked_def
      by (simp_all add: total_pending_def account_ids_def) (metis database.select_convs(3) database.surjective database.update_convs(1))
    obtain rs where rs: "booked (ev_cfg e) rs (db w4) (db w')" "gbHeight ` fst ` set rs \<subseteq> wiHeight ` set infos"
      "rows_except (wiHeight ` set infos) (db w') = rows_except (wiHeight ` set infos) (db w4)"
      using verify_each_booked [OF read(4) _ h(1) assms(4)] keys(1) m(2) by auto
    have "booked (ev_cfg e) rs (db w) (db w')" using rs(1) m(1,2) by (simp add: booked_def)
    moreover note unverified_before [OF read(1) order_trans [OF rs(2) h(2)]]
    moreover have "rows_except (wiHeight ` set infos) (db w') = rows_except (wiHeight ` set infos) d"
      using rs(3) m(3) by (simp add: rows_except_def)
    from verified_stay [OF read(1) h(2) keys(3) this] have "{k \<in> set (block (db w)). kVerified k} \<subseteq> set (block (db w'))" .
    ultimately show ?thesis by blast
  qed
qed


section \<open>A run with one won block\<close>

text \<open>Without failures of the database a run always comes to its end.\<close>

lemma rewardBlock_total:
  assumes "healthy e"
  shows "\<exists>w'. rewardBlock e b w = Some w'"
proof -
  have each: "\<exists>r. eeps_each e f args m x w = Some r" for f args m x w
  proof (induction args arbitrary: m x w)
    case (Cons a args)
    obtain i y n where a: "a = (i, y, n)" by (metis surj_pair)
    show ?case using Cons by (cases f) (simp_all add: a Let_def mustExec_healthy [OF assms] sql_set_capacity_def)
  qed simp
  obtain w1 q where q: "query e (sql_eeps_args (gbHeight b) (TMin (ev_cfg e)) (NAVG (ev_cfg e))) w = (w1, q)" by (metis surj_pair)
  have "\<exists>r. GetEEPSsOnBlock e (gbHeight b) True w = Some r"
  proof (cases q)
    case (Inr args)
    obtain w2 m x where "eeps_each e True args [] (F 0) w1 = Some (w2, m, x)" using each by (metis surj_pair)
    then show ?thesis by (simp add: GetEEPSsOnBlock_def q Inr)
  qed (simp add: GetEEPSsOnBlock_def q)
  then obtain w2 r where "GetSharesOnBlock e (gbHeight b) w = Some (w2, r)"
    by (fastforce simp: GetSharesOnBlock_def split: sum.split)
  then show ?thesis by (simp add: rewardBlock_def Let_def)
qed

lemma RewardBlocks_total:
  assumes "healthy e"
  shows "\<exists>w'. RewardBlocks e w = Some w'"
proof -
  have each: "\<exists>w'. verify_each e infos w = Some w'" for infos w
  proof (induction infos arbitrary: w)
    case (Cons info infos)
    obtain w1 r where x: "ask e (\<lambda>h. hWonBlock h (wiHeight info) (wiMinerID info) (wiNonce info)) w = (w1, r)" by (metis surj_pair)
    show ?case
    proof (cases r)
      case (Inr p)
      obtain w2 where "(if fst p then rewardBlock e (snd p) w1 else mustExec e (sql_set_verified (wiHeight info)) w1) = Some w2"
        using rewardBlock_total [OF assms, of "snd p" w1] by (cases "fst p") (auto simp: mustExec_healthy [OF assms] sql_set_verified_def)
      moreover obtain w' where "verify_each e infos w2 = Some w'" using Cons by blast
      ultimately show ?thesis using x by (cases p; cases "fst p") (simp_all add: Inr)
    qed (use Cons x in simp)
  qed simp
  show ?thesis using each
    by (auto simp: RewardBlocks_def Let_def mustExec_healthy [OF assms] sql_pick_best_def sql_verify_empty_def split: prod.split sum.split)
qed

definition reward_world :: world where
  "reward_world = sample_world\<lparr>db := sample_db\<lparr>
     account := map (\<lambda>a. a\<lparr>aAddress := the (Encode (aID a))\<rparr>) (account sample_db),
     nonce_submission := [\<lparr>sID = 0, sMiner = 77, sHeight = 99000, sDeadline = 900, sNonce = 5\<rparr>],
     block := [(hd (block sample_db))\<lparr>kHeight := 99000\<rparr>, (hd (block sample_db))\<lparr>kHeight := 98000, kVerified := True\<rparr>]\<rparr>\<rparr>"

lemma reward_world_schema: "schema 7 (db reward_world)"
proof -
  have "Encode i = Some (the (Encode i))" for i using Decode_Encode [of i] by auto
  then show ?thesis by (simp add: reward_world_def sample_db_def schema_simps addressed_def has_account_def is_miner_id_def)
qed

lemma sample_answers: "answers_for_height sample_env"
  by (auto simp: answers_for_height_def sample_env_def sample_handler_def)


end
