(* ===== verification/Money.thy ===== *)
theory Money
  imports Process Ledger
begin

text \<open>
  The money of the whole process: which steps change what the miners have pending or what the pool has recorded as
  payments, and by how much. Only the periodic payment job does; it credits the rewards of blocks that
  were not verified before, and turns pending amounts into payments.
\<close>

section \<open>Amounts in range\<close>

text \<open>Amounts are columns of 64 bits, so a statement that would leave the range fails.\<close>

definition in_range :: "database \<Rightarrow> bool" where
  "in_range d \<longleftrightarrow> (\<forall>a \<in> set (account d). is_i64 (aPending a) \<and> pred_option is_i64 (aMinPayout a))"

lemma in_range_upd:
  assumes "in_range d" "\<And>a. a \<in> set (account d) \<Longrightarrow> P a \<Longrightarrow> is_i64 (aPending (f a)) \<and> pred_option is_i64 (aMinPayout (f a))"
  shows "in_range (d\<lparr>account := upd_where P f (account d)\<rparr>)"
  using assms unfolding in_range_def by (simp add: ball_upd_where)

lemma in_range_cascade: "in_range (cascade d) \<longleftrightarrow> in_range d"
  by (simp add: in_range_def cascade_account)

lemma in_range_same: "(\<And>d d'. st d = Inr d' \<Longrightarrow> account d' = account d) \<Longrightarrow> preserves in_range st"
  by (rule preservesI) (simp add: in_range_def)

lemma in_range_accounts: "preserves in_range (sql_add_pending x i)"
  "pred_option is_i64 v \<Longrightarrow> preserves in_range (sql_set_min_payout v iv t x i)"
  "preserves in_range (sql_set_name n i)" "preserves in_range (sql_transfer_pending fee)" "preserves in_range (sql_set_next_date nd i)"
  "preserves in_range (sql_insert_account i address nm)" "preserves in_range (sql_delete_old_accounts fee)"
proof -
  have row: "is_i64 (aPending a)" "pred_option is_i64 (aMinPayout a)" if "in_range d" "a \<in> set (account d)" for d a
    using that by (simp_all add: in_range_def)
  show "preserves in_range (sql_add_pending x i)" "pred_option is_i64 v \<Longrightarrow> preserves in_range (sql_set_min_payout v iv t x i)"
    "preserves in_range (sql_set_name n i)" "preserves in_range (sql_transfer_pending fee)" "preserves in_range (sql_set_next_date nd i)"
    by (auto intro!: preservesI in_range_upd simp: sql_add_pending_def sql_set_min_payout_def sql_set_name_def sql_transfer_pending_def
        sql_set_next_date_def Let_def row split: if_splits)
  show "preserves in_range (sql_insert_account i address nm)" "preserves in_range (sql_delete_old_accounts fee)"
    by (auto intro!: preservesI simp: sql_insert_account_def sql_delete_old_accounts_def in_range_cascade in_range_def is_i64_def [of 0] split: if_splits)
qed

lemma in_range_others:
  "preserves in_range (sql_set_capacity c i)" "preserves in_range sql_delete_idle_miners" "preserves in_range (sql_insert_miner i)"
  "preserves in_range (sql_set_won x i h)" "preserves in_range (sql_set_verified h)" "preserves in_range (sql_pick_best h now)"
  "preserves in_range (sql_verify_empty h now)" "preserves in_range (sql_set_generation_time gt h)"
  "preserves in_range (sql_insert_block h bt sc gs created gt)" "preserves in_range (sql_switch_delete i h)"
  "preserves in_range (sql_update_submission dl n i h)" "preserves in_range (sql_insert_submission i h dl n)"
  "preserves in_range (sql_set_best i h)" "preserves in_range (sql_switch_block gs bt h)"
  "preserves in_range (sql_delete_blocks_below h)" "preserves in_range (sql_insert_tx now)" "preserves in_range (sql_insert_recipient k i x)"
  "preserves in_range (sql_set_tx_id tx now k)" "preserves in_range (sql_forget_tx_id tx)" "preserves in_range (sql_confirm_tx h tx)"
  by (rule in_range_same; auto simp: sql_set_capacity_def sql_delete_idle_miners_def sql_insert_miner_def sql_set_won_def
      sql_set_verified_def sql_pick_best_def sql_verify_empty_def sql_set_generation_time_def sql_insert_block_def sql_switch_delete_def
      sql_update_submission_def sql_insert_submission_def sql_set_best_def sql_switch_block_fails sql_delete_blocks_below_def
      sql_insert_tx_def sql_insert_recipient_def sql_set_tx_id_def sql_forget_tx_id_def sql_confirm_tx_def split: if_splits)+

interpretation ranged: store_frame "\<lambda>w. in_range (db w)" "preserves in_range" e for e
  by unfold_locales (simp_all add: upd_cache_def preservesD in_range_accounts in_range_others)

section \<open>Steps that move no money\<close>

definition keeps :: "(database \<Rightarrow> 'a) \<Rightarrow> (database \<Rightarrow> sql_error + database) \<Rightarrow> bool" where
  "keeps f st \<longleftrightarrow> (\<forall>d d'. st d = Inr d' \<longrightarrow> f d' = f d)"

lemma keepsD: "keeps f st \<Longrightarrow> st d = Inr d' \<Longrightarrow> f d' = f d"
  by (simp add: keeps_def)

text \<open>Mining: requests, submissions and new blocks.\<close>

definition purse :: "database \<Rightarrow> int \<times> recipient_row list" where
  "purse d = (total_pending d, transaction_recipient d)"

lemma purse_keeps:
  "keeps purse (sql_insert_miner i)" "keeps purse (sql_set_generation_time gt h)"
  "keeps purse (sql_insert_block h bt sc gs created gt)" "keeps purse (sql_switch_delete i h)"
  "keeps purse (sql_update_submission dl n i h)" "keeps purse (sql_insert_submission i h dl n)"
  "keeps purse (sql_set_best i h)" "keeps purse (sql_switch_block gs bt h)" "keeps purse (sql_insert_account i address nm)"
  by (auto simp: keeps_def purse_def total_pending_def sql_insert_miner_def sql_set_generation_time_def sql_insert_block_def sql_switch_delete_def
      sql_update_submission_def sql_insert_submission_def sql_set_best_def sql_switch_block_fails sql_insert_account_def split: if_splits)

lemma purse_set_name: "keeps purse (sql_set_name nm i)"
proof -
  have "map aPending (upd_where P (\<lambda>a. a\<lparr>aName := Some nm\<rparr>) as) = map aPending as" for P and as :: "account_row list"
    by (simp add: map_upd_where)
  then show ?thesis by (auto simp: keeps_def purse_def total_pending_def sql_set_name_def split: if_splits)
qed

interpretation mining_purse: mining_frame "\<lambda>w. purse (db w) = m" "keeps purse" e for m e
  by unfold_locales (simp_all add: upd_cache_def keepsD purse_keeps)

interpretation names_purse: name_frame "\<lambda>w. purse (db w) = m" "keeps purse" e for m e
  by unfold_locales (simp_all add: upd_cache_def keepsD purse_set_name)

text \<open>Cleaning removes payments to accounts and of transactions that are gone, and moves what was pending to the fee account.\<close>

lemma cascade_recipients: "set (transaction_recipient (cascade d)) \<subseteq> set (transaction_recipient d)"
proof -
  have "set (transaction_recipient (cascade_round d')) \<subseteq> set (transaction_recipient d')" for d' by (auto simp: cascade_round_def)
  then show ?thesis
    using cascade_preserves [of "\<lambda>d'. set (transaction_recipient d') \<subseteq> set (transaction_recipient d)" d] by (meson order_trans order_refl)
qed

definition paid_within :: "recipient_row set \<Rightarrow> database \<Rightarrow> bool" where
  "paid_within R d \<longleftrightarrow> set (transaction_recipient d) \<subseteq> R"

lemma paid_withinI: "(\<And>d d'. st d = Inr d' \<Longrightarrow> set (transaction_recipient d') \<subseteq> set (transaction_recipient d)) \<Longrightarrow> preserves (paid_within R) st"
  by (rule preservesI) (simp add: paid_within_def, rule order_trans)

lemma paid_within_stmts:
  "preserves (paid_within R) (sql_delete_blocks_below h)" "preserves (paid_within R) sql_delete_idle_miners"
  "preserves (paid_within R) (sql_transfer_pending fee)" "preserves (paid_within R) (sql_delete_old_accounts fee)"
  "preserves (paid_within R) (sql_forget_tx_id tx)" "preserves (paid_within R) (sql_confirm_tx h tx)"
  "preserves (paid_within R) (sql_set_tx_id tx now t)"
  by (rule paid_withinI; auto simp: sql_delete_blocks_below_def sql_delete_idle_miners_def sql_transfer_pending_def
      sql_delete_old_accounts_def sql_forget_tx_id_def sql_confirm_tx_def sql_set_tx_id_def Let_def split: if_splits
      dest!: subsetD [OF cascade_recipients])+

interpretation cleaning: clean_frame "\<lambda>w. paid_within R (db w)" "preserves (paid_within R)" e for R e
  by unfold_locales (simp_all add: preservesD paid_within_stmts)

section \<open>The payment job\<close>

text \<open>Rewards leave the payment tables alone.\<close>

definition ledgers :: "database \<Rightarrow> uint64 list \<times> tx_row list \<times> recipient_row list \<times> int64" where
  "ledgers d = (account_ids d, transaction d, transaction_recipient d, next_tx d)"

lemma ledgers_keeps:
  "keeps ledgers (sql_add_pending x i)" "keeps ledgers (sql_set_min_payout v iv t x i)" "keeps ledgers (sql_set_capacity c i)"
  "keeps ledgers (sql_set_won x i h)" "keeps ledgers (sql_set_verified h)" "keeps ledgers (sql_pick_best h now)"
  "keeps ledgers (sql_verify_empty h now)"
  by (auto simp: keeps_def ledgers_def account_ids_def upd_where_ids sql_add_pending_def sql_set_min_payout_def sql_set_capacity_def
      sql_set_won_def sql_set_verified_def sql_pick_best_def sql_verify_empty_def split: if_splits)

interpretation rewards_ledgers: reward_frame "\<lambda>w. ledgers (db w) = m" "keeps ledgers" e for m e
  by unfold_locales (simp_all add: upd_cache_def keepsD ledgers_keeps)

text \<open>New transactions are neither sent nor confirmed, and creating them leaves the blocks alone.\<close>

definition untouched_from :: "int64 \<Rightarrow> block_row list \<Rightarrow> database \<Rightarrow> bool" where
  "untouched_from n ks d \<longleftrightarrow> block d = ks \<and> (\<forall>t \<in> set (transaction d). n \<le> tID t \<longrightarrow> tTxID t = None \<and> tHeight t = None)"

lemma untouched_stmts: "preserves (untouched_from n ks) (sql_add_pending x i)" "preserves (untouched_from n ks) (sql_insert_tx t)"
  "preserves (untouched_from n ks) (sql_set_next_date nd i)" "preserves (untouched_from n ks) (sql_insert_recipient k i x)"
  by (auto intro!: preservesI simp: untouched_from_def sql_add_pending_def sql_insert_tx_def sql_set_next_date_def
      sql_insert_recipient_def split: if_splits)

interpretation creating: create_frame "\<lambda>w. untouched_from n ks (db w)" "preserves (untouched_from n ks)" e for n ks e
  by unfold_locales (simp_all add: upd_cache_def preservesD untouched_stmts)

text \<open>Validating may drop a transaction that was sent, never one that is new.\<close>

definition awaiting :: "recipient_row list \<Rightarrow> database \<Rightarrow> bool" where
  "awaiting new d \<longleftrightarrow> (\<forall>r \<in> set new. r \<in> set (transaction_recipient d) \<and> pRecipient r \<in> aID ` set (account d) \<and>
     (\<exists>t \<in> set (transaction d). tID t = pTx r \<and> tTxID t = None \<and> tHeight t = None))"

definition settling :: "int \<Rightarrow> block_row set \<Rightarrow> recipient_row list \<Rightarrow> database \<Rightarrow> bool" where
  "settling T ks new d \<longleftrightarrow> total_pending d = T \<and> set (block d) \<subseteq> ks \<and> awaiting new d"

lemma settling_cascade: "settling T ks new d \<Longrightarrow> settling T ks new (cascade d)"
proof (erule cascade_preserves)
  fix d assume d: "settling T ks new d"
  have "awaiting new (cascade_round d)"
    unfolding awaiting_def
  proof
    fix r assume "r \<in> set new"
    then obtain t where "r \<in> set (transaction_recipient d)" "pRecipient r \<in> aID ` set (account d)" "t \<in> set (transaction d)"
      "tID t = pTx r" "tTxID t = None" "tHeight t = None" using d by (auto simp: settling_def awaiting_def)
    then show "r \<in> set (transaction_recipient (cascade_round d)) \<and> pRecipient r \<in> aID ` set (account (cascade_round d)) \<and>
        (\<exists>t \<in> set (transaction (cascade_round d)). tID t = pTx r \<and> tTxID t = None \<and> tHeight t = None)"
      by (auto simp: cascade_round_def has_account_def opt_in_def intro!: rev_image_eqI)
  qed
  then show "settling T ks new (cascade_round d)" using d by (auto simp: settling_def total_pending_def cascade_round_def)
qed

lemma awaiting_subset:
  assumes "awaiting new d" "transaction_recipient d' = transaction_recipient d" "account d' = account d"
    and "\<And>t. t \<in> set (transaction d) \<Longrightarrow> tTxID t = None \<Longrightarrow> t \<in> set (transaction d')"
  shows "awaiting new d'"
  using assms unfolding awaiting_def by metis

lemma settling_stmts: "preserves (settling T ks new) (sql_forget_tx_id tx)" "preserves (settling T ks new) (sql_confirm_tx h tx)"
proof -
  have kept: "t \<in> set (upd_where (\<lambda>r. tTxID r = Some tx) f ts)" if "t \<in> set ts" "tTxID t = None" for t f and ts :: "tx_row list"
    using that by (force simp: upd_where_def)
  have step: "settling T ks new (d\<lparr>transaction := ts\<rparr>)"
    if "settling T ks new d" "\<And>t. t \<in> set (transaction d) \<Longrightarrow> tTxID t = None \<Longrightarrow> t \<in> set ts" for d ts
    using that awaiting_subset [of new d "d\<lparr>transaction := ts\<rparr>"] by (simp add: settling_def total_pending_def)
  show "preserves (settling T ks new) (sql_forget_tx_id tx)"
    by (rule preservesI) (auto simp: sql_forget_tx_id_def intro!: step kept)
  show "preserves (settling T ks new) (sql_confirm_tx h tx)"
    by (rule preservesI) (auto simp: sql_confirm_tx_def intro!: step kept settling_cascade split: if_splits)
qed

interpretation validating: valid_frame "\<lambda>w. settling T ks new (db w)" "preserves (settling T ks new)" e for T ks new e
  by unfold_locales (simp_all add: preservesD settling_stmts)

interpretation validating_within: valid_frame "\<lambda>w. paid_within R (db w)" "preserves (paid_within R)" e for R e
  by unfold_locales (simp_all add: preservesD paid_within_stmts)

definition settled :: "database \<Rightarrow> account_row list \<times> block_row list \<times> recipient_row list" where
  "settled d = (account d, block d, transaction_recipient d)"

lemma settled_keeps: "keeps settled (sql_set_tx_id tx now t)"
  by (auto simp: keeps_def settled_def sql_set_tx_id_def)

interpretation sending: send_frame "\<lambda>w. settled (db w) = m" "keeps settled" e for m e
  by unfold_locales (simp_all add: keepsD settled_keeps)

text \<open>The fees of a configuration that make sense: far below the range of the amounts.\<close>

definition sensible_fees :: "Config \<Rightarrow> bool" where
  "sensible_fees cfg \<longleftrightarrow> 0 \<le> MinerTxFee cfg \<and> MinerTxFee cfg < 2 ^ 40 \<and> 0 \<le> PoolTxFee cfg \<and> PoolTxFee cfg < 2 ^ 40 \<and>
     0 \<le> MinimumPayout cfg \<and> MinimumPayout cfg < 2 ^ 62"

lemma payable_i64:
  assumes "sensible_fees cfg" "is_i64 (aPending a)" "pred_option is_i64 (aMinPayout a)"
    and "payable (MinerTxFee cfg) (i64 (MinimumPayout cfg + MinerTxFee cfg)) now a"
  shows "is_i64 (aPending a - MinerTxFee cfg)"
proof -
  have "is_i64 (MinimumPayout cfg + MinerTxFee cfg)" using assms(1) by (simp add: sensible_fees_def is_i64_def)
  then have "i64 (MinimumPayout cfg + MinerTxFee cfg) = MinimumPayout cfg + MinerTxFee cfg" by (rule i64_id)
  then have "\<exists>v. is_i64 v \<and> v + MinerTxFee cfg \<le> aPending a"
    using assms by (auto simp: payable_def sensible_fees_def is_i64_def)
  then show ?thesis using assms(1,2) by (auto simp: sensible_fees_def is_i64_def)
qed

text \<open>
  What a step does to the money, in terms of the blocks it rewards and the payments it records: what was pending, with the
  rewards, is pending afterwards, recorded as a payment, or a network fee, one for each new transaction; no payment
  comes from elsewhere; and each reward belongs to a different block that was not verified before.
\<close>

definition accounted :: "Config \<Rightarrow> reward list \<Rightarrow> recipient_row list \<Rightarrow> database \<Rightarrow> database \<Rightarrow> bool" where
  "accounted cfg rs new d d' \<longleftrightarrow>
     total_pending d' + sum_list (map pAmount new) + int (number_of_txs (length new)) * PoolTxFee cfg =
       total_pending d + sum_list (map (reward_total cfg (account_ids d)) rs) \<and>
     set new \<subseteq> set (transaction_recipient d') \<and> set (transaction_recipient d') \<subseteq> set (transaction_recipient d) \<union> set new \<and>
     distinct (map (gbHeight \<circ> fst) rs) \<and> gbHeight ` fst ` set rs \<subseteq> kHeight ` {k \<in> set (block d). \<not> kVerified k} \<and>
     (\<forall>r \<in> set rs. won_rows (fst r) (spTotal (split_reward cfg (fst r))) d')"

lemma Payout_settles:
  assumes "Payout e w = Some w'" "distinct (account_ids (db w))" "FeeAccountID (ev_cfg e) \<in> set (account_ids (db w))"
    and "in_range (db w)" "sensible_fees (ev_cfg e)" "length (account (db w)) < 2 ^ 20" "\<forall>t \<in> set (transaction (db w)). tID t < next_tx (db w)"
  shows "\<exists>new. total_pending (db w') + sum_list (map pAmount new) + int (number_of_txs (length new)) * PoolTxFee (ev_cfg e) =
      total_pending (db w) \<and> set new \<subseteq> set (transaction_recipient (db w')) \<and>
    set (transaction_recipient (db w')) \<subseteq> set (transaction_recipient (db w)) \<union> set new \<and> set (block (db w')) \<subseteq> set (block (db w))"
proof -
  let ?d = "db w"
  have pay: "is_i64 (aPending a - MinerTxFee (ev_cfg e))" if "a \<in> set (account ?d)"
    "payable (MinerTxFee (ev_cfg e)) (i64 (MinimumPayout (ev_cfg e) + MinerTxFee (ev_cfg e))) now a" for now a
    using payable_i64 [OF assms(5) _ _ that(2)] assms(4) that(1) by (simp add: in_range_def)
  have "\<exists>w' new. createTransactions e w = Some w' \<and> payments w' = payments w \<and> recorded (ev_cfg e) new ?d (db w')"
    by (rule createTransactions_books [OF assms(2,3) pay assms(6)]) (use assms(5) in \<open>simp_all add: sensible_fees_def\<close>)
  then obtain w1 new where w1: "createTransactions e w = Some w1" and new: "recorded (ev_cfg e) new ?d (db w1)" by blast
  obtain w2 where w2: "validateTransactions e w1 = Some w2" "sendMoney e w2 = Some w'"
    using assms(1) w1 by (auto simp: Payout_def bind_eq_Some_conv)
  let ?d1 = "db w1" and ?R = "set (transaction_recipient (db w1))"
  have "untouched_from (next_tx ?d) (block ?d) ?d" using assms(7) by (force simp: untouched_from_def)
  then have u: "untouched_from (next_tx ?d) (block ?d) ?d1"
    using holds_SomeD(1) [OF creating.createTransactions w1] by (simp add: holds_def)
  have "awaiting new ?d1" unfolding awaiting_def
  proof
    fix r assume r: "r \<in> set new"
    then obtain t where "t \<in> set (transaction ?d1)" "tID t = pTx r" "next_tx ?d \<le> tID t" using new by (auto simp: recorded_def)
    then show "r \<in> ?R \<and> pRecipient r \<in> aID ` set (account ?d1) \<and>
        (\<exists>t \<in> set (transaction ?d1). tID t = pTx r \<and> tTxID t = None \<and> tHeight t = None)"
      using r new u by (auto simp: recorded_def untouched_from_def account_ids_def)
  qed
  then have "settling (total_pending ?d1) (set (block ?d)) new ?d1" using u by (simp add: settling_def untouched_from_def)
  then have s: "settling (total_pending ?d1) (set (block ?d)) new (db w2)"
    using holds_SomeD(1) [OF validating.validateTransactions w2(1)] by (simp add: holds_def)
  have p: "paid_within ?R (db w2)"
    using holds_SomeD(1) [OF validating_within.validateTransactions w2(1)] by (simp add: holds_def paid_within_def)
  have "settled (db w') = settled (db w2)"
    using holds_SomeD(1) [OF sending.sendMoney w2(2)] by (simp add: holds_def)
  then show ?thesis using new s p
    by (intro exI [of _ new]) (auto simp: settled_def settling_def paid_within_def recorded_def total_pending_def awaiting_def)
qed

lemma PayJob_accounted:
  assumes "run_job e PayJob w = Some w'" "schema (FeeAccountID (ev_cfg e)) (db w)" "in_range (db w)" "FeeAccountID (ev_cfg e) \<noteq> 0"
    and "answers_for_height e" "sensible_fees (ev_cfg e)" "length (account (db w)) < 2 ^ 20"
  shows "\<exists>rs new. accounted (ev_cfg e) rs new (db w) (db w')"
proof -
  obtain w1 where w1: "RewardBlocks e w = Some w1" "Payout e w1 = Some w'" using assms(1) by (auto simp: bind_eq_Some_conv)
  obtain rs where rs: "booked (ev_cfg e) rs (db w) (db w1)" "gbHeight ` fst ` set rs \<subseteq> kHeight ` {k \<in> set (block (db w)). \<not> kVerified k}"
    using RewardBlocks_booked [OF w1(1) assms(2,4,5)] by blast
  have l: "ledgers (db w1) = ledgers (db w)"
    using holds_SomeD(1) [OF rewards_ledgers.RewardBlocks w1(1)] by (simp add: holds_def)
  then have ids: "account_ids (db w1) = account_ids (db w)" and tx: "transaction (db w1) = transaction (db w)"
    "transaction_recipient (db w1) = transaction_recipient (db w)" "next_tx (db w1) = next_tx (db w)" by (simp_all add: ledgers_def)
  have len: "length (account (db w1)) < 2 ^ 20" using assms(7) arg_cong [OF ids, of length] by (simp add: account_ids_def)
  have range: "in_range (db w1)"
    using holds_SomeD(1) [OF ranged.RewardBlocks w1(1)] assms(3) by (simp add: holds_def)
  have keys: "distinct (account_ids (db w1))" "FeeAccountID (ev_cfg e) \<in> set (account_ids (db w1))"
    "\<forall>t \<in> set (transaction (db w1)). tID t < next_tx (db w1)"
    using assms(2,4) unfolding ids tx by (simp_all add: schema_simps has_account_def account_ids_def)
  from Payout_settles [OF w1(2) keys(1,2) range assms(6) len keys(3)] obtain new where
    new: "total_pending (db w') + sum_list (map pAmount new) + int (number_of_txs (length new)) * PoolTxFee (ev_cfg e) = total_pending (db w1)"
      "set new \<subseteq> set (transaction_recipient (db w'))" "set (transaction_recipient (db w')) \<subseteq> set (transaction_recipient (db w)) \<union> set new"
      "set (block (db w')) \<subseteq> set (block (db w1))" unfolding tx by blast
  have "won_rows b x (db w')" if "won_rows b x (db w1)" for b x using that new(4) unfolding won_rows_def by blast
  then have "accounted (ev_cfg e) rs new (db w) (db w')" using rs new(1-3) by (simp add: accounted_def booked_def)
  then show ?thesis by blast
qed

lemma quiet_accounted:
  "total_pending d' = total_pending d \<Longrightarrow> set (transaction_recipient d') \<subseteq> set (transaction_recipient d) \<Longrightarrow> accounted cfg [] [] d d'"
  by (simp add: accounted_def no_txs)

lemma purse_accounted: "purse d' = purse d \<Longrightarrow> accounted cfg [] [] d d'"
  by (rule quiet_accounted) (simp_all add: purse_def)

lemma run_job_accounted:
  assumes "run_job e j w = Some w'" "schema (FeeAccountID (ev_cfg e)) (db w)" "FeeAccountID (ev_cfg e) \<noteq> 0" "j \<noteq> PayJob"
  shows "accounted (ev_cfg e) [] [] (db w) (db w')"
proof (cases j)
  case RereadJob
  have "holds (\<lambda>v. purse (db v) = purse (db w)) (RereadMinerNames e w)"
    by (rule names_purse.RereadMinerNames) (simp add: holds_def)
  then show ?thesis using assms(1) RereadJob purse_accounted by (auto simp: holds_def)
next
  case CleanJob
  then have c: "CleanDB e w = Some w'" using assms(1) by simp
  have "total_pending (db w') = total_pending (db w)"
    using CleanDB_pending [OF c] assms(2,3) by (simp add: schema_simps has_account_def account_ids_def)
  moreover have "paid_within (set (transaction_recipient (db w))) (db w')"
    using holds_SomeD(1) [OF cleaning.CleanDB c] by (simp add: holds_def paid_within_def)
  ultimately show ?thesis by (simp add: quiet_accounted paid_within_def)
qed (use assms(4) in simp)

section \<open>Every step of the process\<close>

lemma process_start_in_range:
  assumes "process_start D P W e w0 s" "in_range (db w0)"
  shows "in_range (db (ps_world (pr_pool s)))"
  using assms(1)
proof (cases rule: process_start.cases)
  case (main v0 v p)
  obtain c w1 where x: "NewModelX e (w0\<lparr>cc := c\<rparr>) = Some w1" "v0 = web_start W w1"
    using main(2) by (auto simp: main_web_def bind_eq_Some_conv)
  obtain w where w: "(if FeeAccountID (ev_cfg e) \<noteq> 0 then createFeeAccount e (w0\<lparr>cc := c\<rparr>) else Some (w0\<lparr>cc := c\<rparr>)) = Some w"
    using x(1) by (auto simp: NewModelX_def bind_eq_Some_conv)
  have "in_range (db w)" using w assms(2) preservesD [OF in_range_accounts(6)]
    by (auto simp: createFeeAccount_def mustExec_Some bind_eq_Some_conv split: if_splits)
  then have "in_range (db (wb_world v0))"
    using holds_after_load [of "\<lambda>w. in_range (db w)", OF ranged.mining_frame_axioms _ w x(1)] by (simp add: x(2) web_start_def)
  with main(3) have "in_range (db (wb_world v))"
    by (induction rule: rtranclp_induct) (auto dest: web_step_world)
  then show ?thesis using ranged.NewPool [OF _ main(4)] by (simp add: main(1))
qed

lemma process_run_in_range:
  assumes "(process_step P W e)\<^sup>*\<^sup>* s s'" "wb_world (pr_web s) = ps_world (pr_pool s)" "in_range (db (ps_world (pr_pool s)))"
  shows "in_range (db (ps_world (pr_pool s')))"
proof -
  have "wb_world (pr_web s') = ps_world (pr_pool s') \<and> in_range (db (ps_world (pr_pool s')))" using assms
  proof (induction rule: rtranclp_induct)
    case (step s1 s2)
    from step.hyps(2) show ?case
    proof (cases rule: process_step.cases)
      case (pool p)
      then show ?thesis using step ranged.pool_step [OF pool(2)] by simp
    next
      case (web v)
      then show ?thesis using step web_step_world [OF web(2)] by simp
    qed
  qed simp
  then show ?thesis ..
qed

lemma process_step_accounted:
  assumes "process_step P W e s s'" "wb_world (pr_web s) = ps_world (pr_pool s)"
    and "schema (FeeAccountID (ev_cfg e)) (db (ps_world (pr_pool s)))" "in_range (db (ps_world (pr_pool s)))" "FeeAccountID (ev_cfg e) \<noteq> 0"
    and "answers_for_height e" "sensible_fees (ev_cfg e)" "length (account (db (ps_world (pr_pool s)))) < 2 ^ 20"
  shows "accounted (ev_cfg e) [] [] (db (ps_world (pr_pool s))) (db (ps_world (pr_pool s'))) \<or>
    run_job e PayJob (ps_world (pr_pool s)) = Some (ps_world (pr_pool s')) \<and>
    (\<exists>rs new. accounted (ev_cfg e) rs new (db (ps_world (pr_pool s))) (db (ps_world (pr_pool s'))))"
  using assms(1)
proof (cases rule: process_step.cases)
  case (pool p)
  let ?w = "ps_world (pr_pool s)"
  from mining_purse.pool_step_mining [OF pool(2), of "purse (db ?w)"]
  consider "purse (db (ps_world p)) = purse (db ?w)" | j w where "p = (pr_pool s)\<lparr>ps_world := w\<rparr>" "run_job e j ?w = Some w" by blast
  then show ?thesis
  proof cases
    case 1
    then show ?thesis using purse_accounted by (simp add: pool(1))
  next
    case 2
    then show ?thesis
    proof (cases "j = PayJob")
      case True
      then show ?thesis using PayJob_accounted [OF _ assms(3-8)] 2 by (auto simp: pool(1))
    next
      case False
      then show ?thesis using run_job_accounted [OF 2(2) assms(3,5)] 2(1) by (simp add: pool(1))
    qed
  qed
next
  case (web v)
  then have "db (wb_world v) = db (ps_world (pr_pool s))" using web_step_world [OF web(2)] assms(2) by simp
  then show ?thesis by (simp add: web(1) purse_accounted)
qed


lemma sample_amounts: "in_range (db first_world)" "sensible_fees (ev_cfg sample_env)"
proof -
  show "in_range (db first_world)" by (simp add: in_range_def first_world_def)
  show "sensible_fees (ev_cfg sample_env)" using sample_cfg by (simp add: sensible_fees_def)
qed


end
