(* ===== verification/Serve.thy ===== *)
theory Serve
  imports Pool Web
begin

text \<open>
  Which code answers which request: the listeners that \<open>Pool.Run\<close> and \<open>WebServer.Run\<close> start, the table of paths
  (\<open>http.ServeMux\<close>), and the server for nodes. Sockets, TLS and the protocols are not modelled.
\<close>

section \<open>Listeners\<close>

datatype listener = PoolHTTP | NodeRPC | WebHTTP | ApiRPC

definition Pool_Run :: "Config \<Rightarrow> listener list" where
  "Pool_Run cfg = PoolHTTP # (if NodePort cfg = 0 then [] else [NodeRPC])"

definition WebServer_Run :: "Config \<Rightarrow> listener list" where
  "WebServer_Run cfg = WebHTTP # (if APIPort cfg \<noteq> 0 then [ApiRPC] else [])"

section \<open>Paths\<close>

datatype endpoint = Burst | WebSocket | Index | Miners | Info | WonBlocks | Static

definition serve :: "(string \<times> endpoint) list" where
  "serve = [(''/burst'', Burst)]"

definition listen :: "(string \<times> endpoint) list" where
  "listen = [(''/ws'', WebSocket), (''/'', Index), (''/miners'', Miners), (''/info'', Info), (''/wonblocks'', WonBlocks),
     (''/static/'', Static)]"

text \<open>A pattern that ends with a slash stands for all paths below it; the longest pattern that fits is taken.\<close>

definition fits :: "string \<Rightarrow> string \<Rightarrow> bool" where
  "fits path pattern \<longleftrightarrow> pattern = path \<or> (pattern \<noteq> [] \<and> last pattern = CHR ''/'' \<and> take (length pattern) path = pattern)"

fun mux_lookup :: "(string \<times> endpoint) list \<Rightarrow> string \<Rightarrow> (string \<times> endpoint) option" where
  "mux_lookup [] path = None"
| "mux_lookup ((pattern, h) # rs) path =
     (case mux_lookup rs path of
        None \<Rightarrow> if fits path pattern then Some (pattern, h) else None
      | Some (pattern', h') \<Rightarrow>
          if fits path pattern \<and> length pattern' < length pattern then Some (pattern, h) else Some (pattern', h'))"

text \<open>
  Both HTTP listeners are started without a handler of their own, so they share the default table, in which both packages
  register their paths.
\<close>

definition endpoint_of :: "listener \<Rightarrow> string \<Rightarrow> endpoint option" where
  "endpoint_of l path = (if l \<in> {PoolHTTP, WebHTTP} then map_option snd (mux_lookup (serve @ listen) path) else None)"

lemma mux_lookup_None: "mux_lookup rs path = None \<longleftrightarrow> (\<forall>(p, h) \<in> set rs. \<not> fits path p)"
  by (induction rs) (auto split: option.splits if_splits)

lemma mux_lookup_Some:
  assumes "mux_lookup rs path = Some (p, h)"
  shows "(p, h) \<in> set rs \<and> fits path p \<and> (\<forall>(p', h') \<in> set rs. fits path p' \<longrightarrow> length p' \<le> length p)"
  using assms
proof (induction rs arbitrary: p h)
  case (Cons r rs)
  obtain q k where r: "r = (q, k)" by (metis surj_pair)
  show ?case
  proof (cases "mux_lookup rs path")
    case None
    have "\<forall>(p, h) \<in> set rs. \<not> fits path p" using None mux_lookup_None by blast
    then show ?thesis using Cons.prems by (auto simp: r None split: if_splits)
  next
    case (Some x)
    obtain p1 h1 where x: "x = (p1, h1)" by (metis surj_pair)
    then show ?thesis using Cons.prems Cons.IH [of p1 h1] Some by (auto simp: r not_less split: if_splits)
  qed
qed simp

text \<open>So the port of the pool also serves the pages of the web server, and the port of the web server takes nonces of miners.\<close>

lemma ports_share_paths:
  "endpoint_of WebHTTP ''/burst'' = Some Burst" "endpoint_of PoolHTTP ''/miners'' = Some Miners"
  "endpoint_of PoolHTTP ''/static/app.js'' = Some Static" "endpoint_of PoolHTTP ''/unknown'' = Some Index"
  by (simp_all add: endpoint_of_def serve_def listen_def fits_def)

lemma every_path_answered: "path \<noteq> [] \<Longrightarrow> hd path = CHR ''/'' \<Longrightarrow> l \<in> {PoolHTTP, WebHTTP} \<Longrightarrow> endpoint_of l path \<noteq> None"
proof -
  assume "path \<noteq> []" "hd path = CHR ''/''" "l \<in> {PoolHTTP, WebHTTP}"
  then have "fits path ''/''" "(''/'', Index) \<in> set (serve @ listen)" by (auto simp: fits_def listen_def neq_Nil_conv)
  then show ?thesis using mux_lookup_None [of "serve @ listen" path] \<open>l \<in> _\<close> unfolding endpoint_of_def by fastforce
qed

section \<open>The pages\<close>

text \<open>What the paths without parameters show.\<close>

definition web_page :: "Config \<Rightarrow> WebServer \<Rightarrow> endpoint \<Rightarrow> page option" where
  "web_page cfg ws ep = (case ep of
     Index \<Rightarrow> indexHandler cfg ws
   | Info \<Rightarrow> infoHandler cfg ws
   | Miners \<Rightarrow> Some (minersHandler ws)
   | WonBlocks \<Rightarrow> Some (wonBlocksHandler ws)
   | _ \<Rightarrow> None)"

section \<open>Nodes\<close>

text \<open>
  \<open>serveNode\<close>: without a port there is no server; the interceptor guards the calls only if there is a certificate.
  The outer \<open>None\<close> is a refused connection.
\<close>

definition serveNode :: "Config \<Rightarrow> ctx_value \<Rightarrow> ('r \<Rightarrow> string + 'a) \<Rightarrow> 'r \<Rightarrow> (string + 'a) option option" where
  "serveNode cfg t handler req =
     (if NodePort cfg = 0 then None
      else if NodeComCert cfg \<noteq> [] then Some (authInterceptor t handler req)
      else Some (Some (handler req)))"

text \<open>Without a certificate every caller is served, whatever token it has or has not.\<close>

lemma nodes_without_certificate_unchecked:
  "NodePort cfg \<noteq> 0 \<Longrightarrow> NodeComCert cfg = [] \<Longrightarrow> serveNode cfg t handler req = Some (Some (handler req))"
  by (simp add: serveNode_def)

lemma nodes_with_certificate:
  "NodePort cfg \<noteq> 0 \<Longrightarrow> NodeComCert cfg \<noteq> [] \<Longrightarrow> serveNode cfg t handler req = Some (Some (Inr x)) \<Longrightarrow>
     t = StringValue ''valid-token'' \<and> handler req = Inr x"
  by (auto simp: serveNode_def authInterceptor_def split: ctx_value.splits if_splits)

end
